(* ===== verification/Prelude.thy ===== *)
theory Prelude
  imports Main "HOL-Library.Sublist" "HOL-Library.Word"
begin

text \<open>
  What every component shares: the operations of Rust's \<open>str\<close> that the sources use, with
  their laws, decimal numbers, and the collections of rewrite rules the component proofs pass to
  the simplifier.

  A Rust \<open>String\<close> is a sequence of UTF-8 bytes; it is modelled as a \<^typ>\<open>string\<close>, whose
  characters are exactly the 256 byte values, and \<open>len\<close> is the length in bytes. A fallible
  function returns \<open>'e + 'a\<close>: \<open>Inl e\<close> for \<open>Err(e)\<close>, \<open>Inr x\<close> for \<open>Ok(x)\<close>.
\<close>

named_theorems eval_simps \<open>evaluation of the string functions on literals\<close>
named_theorems guard_simps \<open>when a policy check grants\<close>

subsection \<open>Results\<close>

definition is_ok :: "'e + 'a \<Rightarrow> bool" where
  "is_ok r = (case r of Inl _ \<Rightarrow> False | Inr _ \<Rightarrow> True)"

lemma is_ok_simps [simp]: "is_ok (Inr x)" "\<not> is_ok (Inl e)"
  by (simp_all add: is_ok_def)

lemma is_ok_iff: "is_ok r \<longleftrightarrow> (\<exists>x. r = Inr x)"
  by (cases r) auto

lemma is_ok_if [simp]: "is_ok (if b then Inr x else Inl e) = b"
  by simp

text \<open>\<open>collect::<Result<Vec<_>, _>>\<close> stops at the first error.\<close>

fun collect_results :: "('e + 'a) list \<Rightarrow> 'e + 'a list" where
  "collect_results [] = Inr []"
| "collect_results (r # rs) =
     (case r of Inl e \<Rightarrow> Inl e
      | Inr x \<Rightarrow> (case collect_results rs of Inl e \<Rightarrow> Inl e | Inr xs \<Rightarrow> Inr (x # xs)))"

lemma collect_results_map_Inr: "collect_results (map Inr xs) = Inr xs"
  by (induction xs) auto

lemma collect_results_InrD: "collect_results rs = Inr xs \<Longrightarrow> rs = map Inr xs"
  by (induction rs arbitrary: xs) (auto split: sum.splits)

lemma collect_results_Inr_iff: "collect_results rs = Inr xs \<longleftrightarrow> rs = map Inr xs"
  by (auto simp: collect_results_map_Inr dest: collect_results_InrD)

subsection \<open>ASCII case\<close>

definition ascii_lower_char :: "char \<Rightarrow> char" where
  "ascii_lower_char c =
     (let n = of_char c :: nat in if 65 \<le> n \<and> n \<le> 90 then char_of (n + 32) else c)"

definition to_ascii_lowercase :: "string \<Rightarrow> string" where
  "to_ascii_lowercase s = map ascii_lower_char s"

definition eq_ignore_ascii_case :: "string \<Rightarrow> string \<Rightarrow> bool" where
  "eq_ignore_ascii_case a b = (to_ascii_lowercase a = to_ascii_lowercase b)"

lemma ascii_lower_char_idem [simp]: "ascii_lower_char (ascii_lower_char c) = ascii_lower_char c"
  by (auto simp: ascii_lower_char_def Let_def)

lemma to_ascii_lowercase_idem [simp]:
  "to_ascii_lowercase (to_ascii_lowercase s) = to_ascii_lowercase s"
  by (simp add: to_ascii_lowercase_def)

lemma to_ascii_lowercase_append [simp]:
  "to_ascii_lowercase (a @ b) = to_ascii_lowercase a @ to_ascii_lowercase b"
  by (simp add: to_ascii_lowercase_def)

lemma to_ascii_lowercase_Nil_iff [simp]: "to_ascii_lowercase s = [] \<longleftrightarrow> s = []"
  by (simp add: to_ascii_lowercase_def)

lemma eq_ignore_ascii_case_refl [simp]: "eq_ignore_ascii_case s s"
  by (simp add: eq_ignore_ascii_case_def)

lemma eq_ignore_ascii_case_sym: "eq_ignore_ascii_case a b = eq_ignore_ascii_case b a"
  by (auto simp: eq_ignore_ascii_case_def)

lemma eq_ignore_ascii_case_lower [simp]:
  "eq_ignore_ascii_case (to_ascii_lowercase a) b = eq_ignore_ascii_case a b"
  "eq_ignore_ascii_case a (to_ascii_lowercase b) = eq_ignore_ascii_case a b"
  by (simp_all add: eq_ignore_ascii_case_def)

text \<open>A character that lower-casing neither changes nor produces from another.\<close>

definition caseless :: "char \<Rightarrow> bool" where
  "caseless c = (let n = of_char c :: nat in \<not> (65 \<le> n \<and> n \<le> 90) \<and> \<not> (97 \<le> n \<and> n \<le> 122))"

lemma ascii_lower_char_caseless: "caseless c \<Longrightarrow> ascii_lower_char d = c \<longleftrightarrow> d = c"
  by (auto simp: ascii_lower_char_def caseless_def Let_def split: if_splits)

subsection \<open>Prefixes, suffixes, splitting\<close>

definition strip_prefix :: "string \<Rightarrow> string \<Rightarrow> string option" where
  "strip_prefix p s = (if prefix p s then Some (drop (length p) s) else None)"

definition strip_suffix :: "string \<Rightarrow> string \<Rightarrow> string option" where
  "strip_suffix p s = (if suffix p s then Some (take (length s - length p) s) else None)"

lemma strip_prefix_Some_iff: "strip_prefix p s = Some r \<longleftrightarrow> s = p @ r"
  by (auto simp: strip_prefix_def prefix_def)

lemma strip_suffix_Some_iff: "strip_suffix p s = Some r \<longleftrightarrow> s = r @ p"
  by (auto simp: strip_suffix_def suffix_def)

lemma strip_prefix_append [simp]: "strip_prefix p (p @ r) = Some r"
  by (simp add: strip_prefix_Some_iff)

lemma strip_prefix_Nil [simp]: "strip_prefix [] s = Some s" "strip_prefix (x # xs) [] = None"
  by (simp_all add: strip_prefix_def)

lemma strip_prefix_Cons [simp]:
  "strip_prefix (x # xs) (y # ys) = (if x = y then strip_prefix xs ys else None)"
  by (simp add: strip_prefix_def)

lemma strip_suffix_append [simp]: "strip_suffix p (r @ p) = Some r"
  by (simp add: strip_suffix_Some_iff)

fun split_once :: "char \<Rightarrow> string \<Rightarrow> (string \<times> string) option" where
  "split_once c [] = None"
| "split_once c (x # xs) =
     (if x = c then Some ([], xs)
      else (case split_once c xs of None \<Rightarrow> None | Some (a, b) \<Rightarrow> Some (x # a, b)))"

definition rsplit_once :: "char \<Rightarrow> string \<Rightarrow> (string \<times> string) option" where
  "rsplit_once c s =
     (case split_once c (rev s) of None \<Rightarrow> None | Some (a, b) \<Rightarrow> Some (rev b, rev a))"

lemma split_once_None_iff [simp]: "split_once c s = None \<longleftrightarrow> c \<notin> set s"
  by (induction s) (auto split: option.splits)

lemma split_once_append [simp]: "c \<notin> set a \<Longrightarrow> split_once c (a @ c # b) = Some (a, b)"
  by (induction a) auto

lemma split_once_SomeD: "split_once c s = Some (a, b) \<Longrightarrow> s = a @ c # b \<and> c \<notin> set a"
  by (induction s arbitrary: a b) (auto split: if_splits option.splits)

lemma split_once_Some_iff: "split_once c s = Some (a, b) \<longleftrightarrow> s = a @ c # b \<and> c \<notin> set a"
  using split_once_SomeD by auto

lemma rsplit_once_append [simp]: "c \<notin> set b \<Longrightarrow> rsplit_once c (a @ c # b) = Some (a, b)"
  by (simp add: rsplit_once_def)

lemma rsplit_once_None_iff [simp]: "rsplit_once c s = None \<longleftrightarrow> c \<notin> set s"
  using split_once_None_iff [of c "rev s"]
  by (auto simp: rsplit_once_def simp del: split_once_None_iff split: option.splits)

lemma rsplit_once_Some_iff: "rsplit_once c s = Some (a, b) \<longleftrightarrow> s = a @ c # b \<and> c \<notin> set b"
proof
  assume "rsplit_once c s = Some (a, b)"
  then have "split_once c (rev s) = Some (rev b, rev a)"
    by (auto simp: rsplit_once_def split: option.splits)
  then have "rev s = rev b @ c # rev a" "c \<notin> set b"
    by (auto dest: split_once_SomeD)
  then show "s = a @ c # b \<and> c \<notin> set b"
    by (metis append.assoc append_Cons append_Nil rev.simps(2) rev_append rev_rev_ident)
qed auto

fun split_char :: "char \<Rightarrow> string \<Rightarrow> string list" where
  "split_char c [] = [[]]"
| "split_char c (x # xs) =
     (if x = c then [] # split_char c xs
      else (case split_char c xs of [] \<Rightarrow> [[x]] | p # ps \<Rightarrow> (x # p) # ps))"

fun join_with :: "string \<Rightarrow> string list \<Rightarrow> string" where
  "join_with sep [] = []"
| "join_with sep [x] = x"
| "join_with sep (x # y # ys) = x @ sep @ join_with sep (y # ys)"

lemma split_char_not_Nil [simp]: "split_char c s \<noteq> []"
  by (induction s) (auto split: list.splits)

lemma split_char_no_sep: "c \<notin> set s \<Longrightarrow> split_char c s = [s]"
  by (induction s) auto

lemma split_char_append: "c \<notin> set a \<Longrightarrow> split_char c (a @ c # b) = a # split_char c b"
  by (induction a) (auto split: list.splits)

lemma split_char_elems: "p \<in> set (split_char c s) \<Longrightarrow> c \<notin> set p"
  by (induction s arbitrary: p) (auto split: if_splits list.splits)

lemma join_split_char: "join_with [c] (split_char c s) = s"
proof (induction s)
  case (Cons x xs)
  then show ?case
    by (cases "split_char c xs"; cases "tl (split_char c xs)") auto
qed simp

definition trim_start_matches :: "char \<Rightarrow> string \<Rightarrow> string" where
  "trim_start_matches c s = dropWhile (\<lambda>x. x = c) s"

definition trim_end_matches :: "char \<Rightarrow> string \<Rightarrow> string" where
  "trim_end_matches c s = rev (dropWhile (\<lambda>x. x = c) (rev s))"

lemma trim_start_matches_id: "s = [] \<or> hd s \<noteq> c \<Longrightarrow> trim_start_matches c s = s"
  by (cases s) (auto simp: trim_start_matches_def)

lemma trim_end_matches_id: "s = [] \<or> last s \<noteq> c \<Longrightarrow> trim_end_matches c s = s"
  by (cases s rule: rev_cases) (auto simp: trim_end_matches_def)

subsection \<open>White space\<close>

text \<open>
  \<open>str::trim\<close> removes the characters with the Unicode property \<open>White_Space\<close> from both
  ends. Their UTF-8 encodings: the ASCII controls 9 to 13 and the space, then U+0085, U+00A0,
  U+1680, U+2000 to U+200A, U+2028, U+2029, U+202F, U+205F and U+3000.
\<close>

definition white_space :: "string list" where
  "white_space =
     map (\<lambda>n. [char_of n]) [9 :: nat, 10, 11, 12, 13, 32]
     @ [[CHR 0xC2, CHR 0x85], [CHR 0xC2, CHR 0xA0], [CHR 0xE1, CHR 0x9A, CHR 0x80]]
     @ map (\<lambda>n. [CHR 0xE2, CHR 0x80, char_of n])
         [128 :: nat, 129, 130, 131, 132, 133, 134, 135, 136, 137, 138, 168, 169, 175]
     @ [[CHR 0xE2, CHR 0x81, CHR 0x9F], [CHR 0xE3, CHR 0x80, CHR 0x80]]"

lemma white_space_nonempty: "w \<in> set white_space \<Longrightarrow> w \<noteq> []"
  by (auto simp: white_space_def)

text \<open>Drops leading occurrences of the given (non-empty) sequences.\<close>

function drop_seqs :: "string list \<Rightarrow> string \<Rightarrow> string" where
  "drop_seqs ws s =
     (case List.find (\<lambda>w. w \<noteq> [] \<and> prefix w s) ws of
        None \<Rightarrow> s
      | Some w \<Rightarrow> drop_seqs ws (drop (length w) s))"
  by pat_completeness auto
termination
  by (relation "measure (\<lambda>(ws, s). length s)")
     (auto simp: find_Some_iff prefix_def dest!: arg_cong [where f = length])

declare drop_seqs.simps [simp del]

definition trim_start :: "string \<Rightarrow> string" where
  "trim_start s = drop_seqs white_space s"

definition trim_end :: "string \<Rightarrow> string" where
  "trim_end s = rev (drop_seqs (map rev white_space) (rev s))"

definition trim :: "string \<Rightarrow> string" where
  "trim s = trim_end (trim_start s)"

text \<open>A string that begins and ends with no white space is its own trim.\<close>

definition trimmed :: "string \<Rightarrow> bool" where
  "trimmed s \<longleftrightarrow> (\<forall>w \<in> set white_space. \<not> prefix w s \<and> \<not> suffix w s)"

lemma drop_seqs_stop: "(\<forall>w \<in> set ws. \<not> prefix w s) \<Longrightarrow> drop_seqs ws s = s"
  by (subst drop_seqs.simps) (auto simp: find_None_iff split: option.splits
      dest!: find_Some_iff [THEN iffD1])

lemma drop_seqs_suffix: "suffix (drop_seqs ws s) s"
proof (induction ws s rule: drop_seqs.induct)
  case (1 ws s)
  show ?case
  proof (cases "List.find (\<lambda>w. w \<noteq> [] \<and> prefix w s) ws")
    case None
    then show ?thesis by (simp add: drop_seqs.simps [of ws s])
  next
    case (Some w)
    then have "suffix (drop_seqs ws (drop (length w) s)) s"
      using "1.IH" suffix_drop suffix_order.trans by blast
    with Some show ?thesis by (simp add: drop_seqs.simps [of ws s])
  qed
qed

lemma drop_seqs_fixed: "w \<in> set ws \<Longrightarrow> w \<noteq> [] \<Longrightarrow> \<not> prefix w (drop_seqs ws s)"
proof (induction ws s rule: drop_seqs.induct)
  case (1 ws s)
  show ?case
  proof (cases "List.find (\<lambda>w. w \<noteq> [] \<and> prefix w s) ws")
    case None
    then have "drop_seqs ws s = s" by (simp add: drop_seqs.simps [of ws s])
    with None "1.prems" show ?thesis by (auto simp: find_None_iff)
  next
    case (Some v)
    then have "drop_seqs ws s = drop_seqs ws (drop (length v) s)"
      by (simp add: drop_seqs.simps [of ws s])
    with "1.IH" [OF Some "1.prems"] show ?thesis by simp
  qed
qed

lemma trimmed_trim: "trimmed s \<Longrightarrow> trim s = s"
  by (simp add: trim_def trim_start_def trim_end_def trimmed_def drop_seqs_stop suffix_to_prefix)

lemma trim_end_prefix: "prefix (trim_end s) s"
  unfolding trim_end_def
  by (metis drop_seqs_suffix rev_rev_ident suffix_to_prefix)

lemma trimmed_trim_result: "trimmed (trim s)"
  unfolding trimmed_def
proof (intro ballI conjI)
  fix w assume w: "w \<in> set white_space"
  then have ne: "w \<noteq> []" by (rule white_space_nonempty)
  show "\<not> prefix w (trim s)"
  proof
    assume "prefix w (trim s)"
    then have "prefix w (trim_start s)"
      unfolding trim_def using trim_end_prefix prefix_order.trans by blast
    with w ne show False by (simp add: trim_start_def drop_seqs_fixed)
  qed
  from w ne have "\<not> prefix (rev w) (drop_seqs (map rev white_space) (rev (trim_start s)))"
    by (intro drop_seqs_fixed) auto
  then show "\<not> suffix w (trim s)"
    by (simp add: trim_def trim_end_def suffix_to_prefix)
qed

lemma trim_idem: "trim (trim s) = trim s"
  by (rule trimmed_trim [OF trimmed_trim_result])

subsection \<open>Decimal numbers\<close>

definition digit_char :: "nat \<Rightarrow> char" where
  "digit_char d = char_of (48 + d)"

definition digit_value :: "char \<Rightarrow> nat option" where
  "digit_value c = (let n = of_char c :: nat in if 48 \<le> n \<and> n \<le> 57 then Some (n - 48) else None)"

fun show_nat :: "nat \<Rightarrow> string" where
  "show_nat n = (if n < 10 then [digit_char n] else show_nat (n div 10) @ [digit_char (n mod 10)])"

declare show_nat.simps [simp del]

text \<open>
  \<open><uN as FromStr>::from_str\<close>: an optional plus sign, then one or more decimal digits whose
  value stays below the limit \<open>2 ^ N\<close> at every step; everything else is an error.
\<close>

fun parse_digits :: "nat \<Rightarrow> nat \<Rightarrow> string \<Rightarrow> nat option" where
  "parse_digits lim acc [] = Some acc"
| "parse_digits lim acc (c # cs) =
     (case digit_value c of None \<Rightarrow> None
      | Some d \<Rightarrow> if acc * 10 + d < lim then parse_digits lim (acc * 10 + d) cs else None)"

definition parse_uint :: "nat \<Rightarrow> string \<Rightarrow> nat option" where
  "parse_uint lim s =
     (let ds = (if s \<noteq> [] \<and> hd s = CHR ''+'' then tl s else s)
      in if ds = [] then None else parse_digits lim 0 ds)"

lemma digit_value_digit_char [simp]: "d < 10 \<Longrightarrow> digit_value (digit_char d) = Some d"
  by (simp add: digit_value_def digit_char_def Let_def)

lemma parse_digits_append:
  "parse_digits lim acc (xs @ ys) =
     (case parse_digits lim acc xs of None \<Rightarrow> None | Some a \<Rightarrow> parse_digits lim a ys)"
  by (induction xs arbitrary: acc) (auto split: option.splits)

lemma parse_digits_show_nat: "n < lim \<Longrightarrow> parse_digits lim 0 (show_nat n) = Some n"
proof (induction n rule: show_nat.induct)
  case (1 n)
  show ?case
  proof (cases "n < 10")
    case True
    with "1.prems" show ?thesis by (simp add: show_nat.simps [of n])
  next
    case False
    with "1" have "parse_digits lim 0 (show_nat (n div 10)) = Some (n div 10)"
      by simp
    with False "1.prems" show ?thesis
      by (simp add: show_nat.simps [of n] parse_digits_append)
  qed
qed

lemma show_nat_not_Nil [simp]: "show_nat n \<noteq> []"
  by (subst show_nat.simps) simp

lemma show_nat_digits: "c \<in> set (show_nat n) \<Longrightarrow> 48 \<le> (of_char c :: nat) \<and> (of_char c :: nat) \<le> 57"
proof (induction n arbitrary: c rule: show_nat.induct)
  case (1 n)
  then show ?case
    by (cases "n < 10") (auto simp: show_nat.simps [of n] digit_char_def)
qed

lemma show_nat_not_char:
  "\<not> (48 \<le> (of_char c :: nat) \<and> (of_char c :: nat) \<le> 57) \<Longrightarrow> c \<notin> set (show_nat n)"
  using show_nat_digits by blast

lemma parse_uint_show_nat: "n < lim \<Longrightarrow> parse_uint lim (show_nat n) = Some n"
proof -
  assume n: "n < lim"
  have "CHR ''+'' \<notin> set (show_nat n)"
    by (rule show_nat_not_char) simp
  then have "hd (show_nat n) \<noteq> CHR ''+''"
    using hd_in_set [OF show_nat_not_Nil [of n]] by metis
  with n show ?thesis by (simp add: parse_uint_def Let_def parse_digits_show_nat)
qed

lemma parse_digits_bound: "parse_digits lim acc s = Some n \<Longrightarrow> acc < lim \<Longrightarrow> n < lim"
  by (induction lim acc s rule: parse_digits.induct) (auto split: option.splits if_splits)

lemma parse_uint_bound: "parse_uint lim s = Some n \<Longrightarrow> 0 < lim \<Longrightarrow> n < lim"
  by (auto simp: parse_uint_def Let_def split: if_splits dest: parse_digits_bound)

text \<open>The rules that evaluate the string functions on literals, for the concrete instances.\<close>

lemma bit_Suc_0_0: "bit (Suc 0) 0"
  by (simp add: bit_0)

lemmas [eval_simps] = char_of_def bit_Suc_0_0 digit_char_def digit_value_def parse_uint_def
  ascii_lower_char_def to_ascii_lowercase_def show_nat.simps trimmed_def white_space_def suffix_def

lemma trim_blank: "trim (CHR '' '' # s) = trim s"
proof -
  have "List.find (\<lambda>w. w \<noteq> [] \<and> prefix w (CHR '' '' # s)) white_space = Some [CHR '' '']"
    by (simp add: eval_simps)
  then have "trim_start (CHR '' '' # s) = trim_start s"
    by (simp add: trim_start_def drop_seqs.simps [of white_space "CHR '' '' # s"])
  then show ?thesis by (simp add: trim_def)
qed

end
