(* ===== verification/Unix_Path.thy ===== *)
theory Unix_Path
  imports Prelude
begin

text \<open>
  Paths as \<open>std::path\<close> sees them on Unix, and the path half of
  \<open>crates/ferrijs-permissions/src/lib.rs\<close>: making a path absolute, collapsing \<open>.\<close> and
  \<open>..\<close> without touching the file system (\<open>normalize\<close>), and resolving the longest prefix
  that exists (\<open>resolve_existing\<close>).

  \<open>Path\<close> compares, joins and iterates by components, so a path is the list of its components.
  The operating system (the current directory, \<open>canonicalize\<close>, the environment) is a parameter
  of the model: the record \<open>os\<close>.
\<close>

datatype component = RootDir | CurDir | ParentDir | Normal string

type_synonym path = "component list"

fun is_normal :: "component \<Rightarrow> bool" where
  "is_normal (Normal n) = True"
| "is_normal _ = False"

lemma is_normal_iff: "is_normal c \<longleftrightarrow> (\<exists>n. c = Normal n)"
  by (cases c) auto

subsection \<open>Paths of the standard library\<close>

text \<open>
  \<open>Path::components\<close>: empty segments and inner \<open>.\<close> segments disappear, a leading \<open>.\<close> of
  a relative path is kept.
\<close>

fun component_of :: "string \<Rightarrow> component option" where
  "component_of s =
     (if s = [] \<or> s = ''.'' then None else if s = ''..'' then Some ParentDir else Some (Normal s))"

definition components :: "string \<Rightarrow> path" where
  "components s =
     (let segs = split_char (CHR ''/'') s; body = List.map_filter component_of segs
      in if s \<noteq> [] \<and> hd s = CHR ''/'' then RootDir # body
         else if hd segs = ''.'' then CurDir # body else body)"

definition is_absolute :: "path \<Rightarrow> bool" where
  "is_absolute p = (p \<noteq> [] \<and> hd p = RootDir)"

definition path_join :: "path \<Rightarrow> path \<Rightarrow> path" where
  "path_join a b =
     (if is_absolute b then b else if a = [] then b else a @ filter (\<lambda>c. c \<noteq> CurDir) b)"

definition path_push :: "path \<Rightarrow> component \<Rightarrow> path" where
  "path_push out c = (if c = RootDir then [RootDir] else out @ [c])"

text \<open>\<open>Path::file_name\<close>: the last component when it is a plain name.\<close>

definition file_name :: "path \<Rightarrow> string option" where
  "file_name p =
     (if p = [] then None else case last p of Normal n \<Rightarrow> Some n | _ \<Rightarrow> None)"

lemma file_name_Some: "file_name p = Some n \<Longrightarrow> p = butlast p @ [Normal n]"
  by (cases p rule: rev_cases) (auto simp: file_name_def split: component.splits)

lemma file_name_snoc [simp]: "file_name (p @ [Normal n]) = Some n"
  by (simp add: file_name_def)

subsection \<open>Absolute and normal paths\<close>

record os =
  os_cwd :: "path option"
  os_canonicalize :: "path \<Rightarrow> path option"
  os_vars :: "(string \<times> string) list"

definition absolute :: "os \<Rightarrow> path \<Rightarrow> path" where
  "absolute os p =
     (if is_absolute p then p
      else case os_cwd os of None \<Rightarrow> p | Some cwd \<Rightarrow> path_join cwd p)"

fun normalize_step :: "path \<Rightarrow> component \<Rightarrow> path" where
  "normalize_step out CurDir = out"
| "normalize_step out ParentDir = (if out = [] \<or> last out = RootDir then out else butlast out)"
| "normalize_step out c = path_push out c"

definition normalize :: "path \<Rightarrow> path" where
  "normalize p = foldl normalize_step [] p"

text \<open>
  The loop of \<open>resolve_existing\<close>. \<open>rest\<close> is the stack of names already cut off, the last one
  cut on top, so that appending it in order is the source's \<open>rest.iter().rev()\<close>. A path whose
  last component is a name always has a parent, so \<open>existing.pop()\<close> succeeds there.
\<close>

function resolve_loop :: "os \<Rightarrow> path \<Rightarrow> path \<Rightarrow> string list \<Rightarrow> path" where
  "resolve_loop os p existing rest =
     (case os_canonicalize os existing of
        Some canonical \<Rightarrow> foldl path_push canonical (map Normal rest)
      | None \<Rightarrow>
          (case file_name existing of
             Some name \<Rightarrow> resolve_loop os p (butlast existing) (name # rest)
           | None \<Rightarrow> p))"
  by pat_completeness auto
termination
  by (relation "measure (\<lambda>(os, p, existing, rest). length existing)")
     (auto simp: file_name_def split: if_splits)

declare resolve_loop.simps [simp del]

definition resolve_existing :: "os \<Rightarrow> path \<Rightarrow> path" where
  "resolve_existing os p = resolve_loop os p p []"

subsection \<open>Absolute normal paths\<close>

text \<open>A root followed by plain names: no \<open>.\<close>, no \<open>..\<close>.\<close>

definition abs_normal :: "path \<Rightarrow> bool" where
  "abs_normal p = (p \<noteq> [] \<and> hd p = RootDir \<and> list_all is_normal (tl p))"

lemma abs_normal_Cons [simp]: "abs_normal (c # p) \<longleftrightarrow> c = RootDir \<and> list_all is_normal p"
  by (simp add: abs_normal_def)

lemma abs_normal_Nil [simp]: "\<not> abs_normal []"
  by (simp add: abs_normal_def)

lemma abs_normal_append:
  "abs_normal (p @ q) \<longleftrightarrow> (if p = [] then abs_normal q else abs_normal p \<and> list_all is_normal q)"
  by (cases p) auto

lemma abs_normal_names: "abs_normal p \<Longrightarrow> abs_normal (p @ map Normal ns)"
  by (auto simp: abs_normal_append list_all_iff)

lemma abs_normal_absolute: "abs_normal p \<Longrightarrow> is_absolute p"
  by (simp add: abs_normal_def is_absolute_def)

lemma abs_normal_step: "abs_normal out \<Longrightarrow> abs_normal (normalize_step out c)"
proof (cases c)
  case ParentDir
  assume "abs_normal out"
  then show ?thesis
    using ParentDir by (cases out rule: rev_cases) (auto simp: abs_normal_append split: if_splits)
qed (auto simp: path_push_def abs_normal_append)

lemma abs_normal_foldl: "abs_normal out \<Longrightarrow> abs_normal (foldl normalize_step out cs)"
  by (induction cs arbitrary: out) (auto simp: abs_normal_step)

lemma abs_normal_normalize: "is_absolute p \<Longrightarrow> abs_normal (normalize p)"
  by (cases p) (auto simp: normalize_def is_absolute_def path_push_def abs_normal_foldl)

lemma foldl_normalize_names:
  "list_all is_normal ns \<Longrightarrow> foldl normalize_step out ns = out @ ns"
proof (induction ns arbitrary: out)
  case (Cons c ns)
  then show ?case by (cases c) (auto simp: path_push_def)
qed simp

lemma normalize_abs_normal: "abs_normal p \<Longrightarrow> normalize p = p"
  by (cases p) (auto simp: normalize_def path_push_def foldl_normalize_names)

lemma foldl_push_names: "foldl path_push p (map Normal ns) = p @ map Normal ns"
  by (induction ns arbitrary: p) (auto simp: path_push_def)

text \<open>
  The documented behaviour of the operating system the checks rely on: the current directory is
  known and absolute, and \<open>canonicalize\<close> returns absolute paths free of \<open>.\<close>, \<open>..\<close> and links.
\<close>

definition os_ok :: "os \<Rightarrow> bool" where
  "os_ok os \<longleftrightarrow>
     (\<exists>cwd. os_cwd os = Some cwd \<and> is_absolute cwd)
     \<and> (\<forall>p c. os_canonicalize os p = Some c \<longrightarrow> abs_normal c)"

lemma is_absolute_absolute: "os_ok os \<Longrightarrow> is_absolute (absolute os p)"
  by (auto simp: os_ok_def absolute_def path_join_def is_absolute_def)

lemma abs_normal_resolve_loop:
  "os_ok os \<Longrightarrow> abs_normal p \<Longrightarrow> abs_normal (resolve_loop os p existing rest)"
proof (induction os p existing rest rule: resolve_loop.induct)
  case (1 os p existing rest)
  then show ?case
    by (simp add: resolve_loop.simps [of os p existing rest] foldl_push_names split: option.splits)
       (auto simp: os_ok_def abs_normal_names)
qed

lemma abs_normal_resolve_existing:
  "os_ok os \<Longrightarrow> abs_normal p \<Longrightarrow> abs_normal (resolve_existing os p)"
  by (simp add: resolve_existing_def abs_normal_resolve_loop)

text \<open>
  The result judged by the longest existing prefix: when \<open>pre\<close> canonicalises and no longer
  prefix of the path does, the path resolves to the canonical \<open>pre\<close> followed by what was cut.
\<close>

lemma resolve_loop_longest:
  assumes "os_canonicalize os pre = Some c"
    and "\<forall>k < length ns. os_canonicalize os (pre @ map Normal (take (Suc k) ns)) = None"
  shows "resolve_loop os p (pre @ map Normal ns) rest = c @ map Normal (ns @ rest)"
  using assms(2)
proof (induction ns arbitrary: rest rule: rev_induct)
  case Nil
  with assms(1) show ?case by (simp add: resolve_loop.simps foldl_push_names)
next
  case (snoc n ns)
  from snoc.prems have none: "os_canonicalize os (pre @ map Normal ns @ [Normal n]) = None"
    by (auto dest!: spec [of _ "length ns"])
  from snoc.prems have "\<forall>k < length ns. os_canonicalize os (pre @ map Normal (take (Suc k) ns)) = None"
    by (auto simp: less_Suc_eq)
  then have "resolve_loop os p (pre @ map Normal ns) (n # rest) = c @ map Normal (ns @ n # rest)"
    by (rule snoc.IH)
  moreover have "resolve_loop os p (pre @ map Normal ns @ [Normal n]) rest
      = resolve_loop os p (pre @ map Normal ns) (n # rest)"
    using none file_name_snoc [of "pre @ map Normal ns" n]
    by (subst resolve_loop.simps) (simp add: butlast_append)
  ultimately show ?case by simp
qed

lemma resolve_existing_longest:
  assumes "os_canonicalize os pre = Some c"
    and "\<forall>k < length ns. os_canonicalize os (pre @ map Normal (take (Suc k) ns)) = None"
  shows "resolve_existing os (pre @ map Normal ns) = c @ map Normal ns"
  using resolve_loop_longest [OF assms, of _ "[]"] by (simp add: resolve_existing_def)

lemma resolve_existing_canonical:
  "os_canonicalize os p = Some c \<Longrightarrow> resolve_existing os p = c"
  using resolve_existing_longest [of os p c "[]"] by simp

text \<open>Names are neither gained nor lost by normalising: \<open>prefix\<close> is containment.\<close>

lemma prefix_below:
  assumes "abs_normal root" "abs_normal p" "prefix root p"
  shows "\<exists>ns. p = root @ map Normal ns"
proof -
  obtain r where r: "p = root @ r"
    using assms(3) by (auto simp: prefix_def)
  then have "list_all is_normal r"
    using assms(1,2) by (auto simp: abs_normal_append split: if_splits)
  then obtain ns where "r = map Normal ns"
    by (metis ex_map_conv is_normal_iff list.pred_set)
  with r show ?thesis by blast
qed

end
