(* ===== verification/Net_Rule.thy ===== *)
theory Net_Rule
  imports Prelude
begin

text \<open>
  The network rules of \<open>crates/ferrijs-permissions/src/lib.rs\<close>: \<open>NetRule::parse\<close>, its
  \<open>Display\<close>, which requests a rule covers, and when a rule grants all another one does
  (\<open>subsumes\<close>). A port is a \<open>u16\<close>, kept at its width.
\<close>

type_synonym u16 = "16 word"

record net_rule =
  rule_host :: string
  rule_port :: "u16 option"

definition parse_port :: "string \<Rightarrow> string \<Rightarrow> string + u16" where
  "parse_port entry port =
     (case parse_uint 65536 port of
        Some n \<Rightarrow> Inr (of_nat n)
      | None \<Rightarrow> Inl (''network rule `'' @ entry @ ''`: `'' @ port @ ''` is not a port''))"

text \<open>The branches of \<open>parse\<close> that split the trimmed entry into host and port.\<close>

definition split_host_port :: "string \<Rightarrow> string + string \<times> u16 option" where
  "split_host_port entry =
     (case strip_prefix ''['' entry of
        Some rest \<Rightarrow>
          (case split_once (CHR '']'') rest of
             None \<Rightarrow> Inl (''network rule `'' @ entry @ ''`: unterminated IPv6 literal'')
           | Some (addr, after) \<Rightarrow>
               (case strip_prefix '':'' after of
                  Some p \<Rightarrow> (case parse_port entry p of
                               Inl e \<Rightarrow> Inl e | Inr n \<Rightarrow> Inr (addr, Some n))
                | None \<Rightarrow>
                    if after = [] then Inr (addr, None)
                    else Inl (''network rule `'' @ entry @ ''`: unexpected `'' @ after
                              @ ''` after address'')))
      | None \<Rightarrow>
          if 1 < count_list entry (CHR '':'') then Inr (entry, None)
          else (case rsplit_once (CHR '':'') entry of
                  Some (host, port) \<Rightarrow> (case parse_port entry port of
                                          Inl e \<Rightarrow> Inl e | Inr n \<Rightarrow> Inr (host, Some n))
                | None \<Rightarrow> Inr (entry, None)))"

definition net_rule_parse :: "string \<Rightarrow> string + net_rule" where
  "net_rule_parse raw =
     (let entry = trim raw
      in if entry = [] then Inl ''empty network rule''
         else (case split_host_port entry of
                 Inl e \<Rightarrow> Inl e
               | Inr (h, port) \<Rightarrow>
                   let host = to_ascii_lowercase h
                   in if host = [] \<or> host = ''*.''
                      then Inl (''network rule `'' @ entry @ ''`: empty host'')
                      else Inr \<lparr>rule_host = host, rule_port = port\<rparr>))"

text \<open>\<open>impl Display for NetRule\<close>.\<close>

definition net_rule_display :: "net_rule \<Rightarrow> string" where
  "net_rule_display r =
     (let bracket = (CHR '':'' \<in> set (rule_host r))
      in case rule_port r of
           Some p \<Rightarrow>
             if bracket then ''['' @ rule_host r @ '']:'' @ show_nat (unat p)
             else rule_host r @ '':'' @ show_nat (unat p)
         | None \<Rightarrow> rule_host r)"

text \<open>
  The test both \<open>covers\<close> and \<open>subsumes\<close> make of a wildcard's suffix: the host is the suffix, or
  ends in it after a dot.
\<close>

definition host_under :: "string \<Rightarrow> string \<Rightarrow> bool" where
  "host_under sfx host =
     (host = sfx
      \<or> (case strip_suffix sfx host of
           None \<Rightarrow> False
         | Some pre \<Rightarrow> pre \<noteq> [] \<and> last pre = CHR ''.''))"

definition net_covers :: "net_rule \<Rightarrow> string \<Rightarrow> u16 option \<Rightarrow> bool" where
  "net_covers r host port =
     (let host_ok =
        (if rule_host r = host then True
         else case strip_prefix ''*.'' (rule_host r) of
                Some sfx \<Rightarrow> host_under sfx host
              | None \<Rightarrow> False)
      in host_ok \<and> (case rule_port r of None \<Rightarrow> True | Some p \<Rightarrow> port = Some p))"

definition net_subsumes :: "net_rule \<Rightarrow> net_rule \<Rightarrow> bool" where
  "net_subsumes r other =
     (let host_ok =
        (if rule_host r = rule_host other then True
         else case strip_prefix ''*.'' (rule_host r) of
                Some sfx \<Rightarrow>
                  host_under sfx (rule_host other)
                  \<or> (case strip_prefix ''*.'' (rule_host other) of
                       None \<Rightarrow> False
                     | Some other_sfx \<Rightarrow> host_under sfx other_sfx)
              | None \<Rightarrow> False)
      in host_ok \<and> (rule_port r = None \<or> rule_port r = rule_port other))"

subsection \<open>What a rule covers\<close>

lemma host_under_iff: "host_under sfx host \<longleftrightarrow> host = sfx \<or> suffix (CHR ''.'' # sfx) host"
proof -
  have dot: "(pre \<noteq> [] \<and> last pre = CHR ''.'') \<longleftrightarrow> (\<exists>q. pre = q @ [CHR ''.''])" for pre :: string
    by (cases pre rule: rev_cases) simp_all
  show ?thesis
  proof (cases "strip_suffix sfx host")
    case None
    then have "\<not> suffix sfx host" by (simp add: strip_suffix_def split: if_splits)
    then have "\<not> suffix (CHR ''.'' # sfx) host" by (auto dest: suffix_ConsD)
    with None show ?thesis by (simp add: host_under_def)
  next
    case (Some pre)
    then have "host = pre @ sfx" by (simp add: strip_suffix_Some_iff)
    then have "suffix (CHR ''.'' # sfx) host \<longleftrightarrow> suffix [CHR ''.''] pre"
      using same_suffix_suffix [of "[CHR ''.'']" sfx pre] by simp
    then have "suffix (CHR ''.'' # sfx) host \<longleftrightarrow> (\<exists>q. pre = q @ [CHR ''.''])"
      by (auto simp: suffix_def)
    with Some show ?thesis by (simp add: host_under_def dot)
  qed
qed

lemma host_under_trans: "host_under a b \<Longrightarrow> host_under b c \<Longrightarrow> host_under a c"
  by (auto simp: host_under_iff suffix_def)

lemma strip_wild_Some_iff [simp]:
  "strip_prefix ''*.'' h = Some s \<longleftrightarrow> h = CHR ''*'' # CHR ''.'' # s"
  by (simp add: strip_prefix_Some_iff)


text \<open>The hosts a rule names, and the ports, apart from each other.\<close>

definition host_matches :: "string \<Rightarrow> string \<Rightarrow> bool" where
  "host_matches rule host \<longleftrightarrow>
     rule = host \<or> (\<exists>s. rule = CHR ''*'' # CHR ''.'' # s \<and> host_under s host)"

definition port_matches :: "u16 option \<Rightarrow> u16 option \<Rightarrow> bool" where
  "port_matches rule port \<longleftrightarrow> rule = None \<or> rule = port"

lemma net_covers_iff:
  "net_covers r host port \<longleftrightarrow> host_matches (rule_host r) host \<and> port_matches (rule_port r) port"
  by (auto simp: net_covers_def host_matches_def port_matches_def Let_def split: option.splits)

lemma net_subsumes_iff:
  "net_subsumes r other \<longleftrightarrow>
     (rule_host r = rule_host other
      \<or> (\<exists>s. rule_host r = CHR ''*'' # CHR ''.'' # s
             \<and> (host_under s (rule_host other)
                \<or> (\<exists>t. rule_host other = CHR ''*'' # CHR ''.'' # t \<and> host_under s t))))
     \<and> port_matches (rule_port r) (rule_port other)"
  by (auto simp: net_subsumes_def port_matches_def Let_def split: option.splits)

text \<open>
  A wildcard whose suffix is a wildcard again, \<open>*.*.x\<close>. \<open>parse\<close> accepts it, and \<open>subsumes\<close>
  misjudges it: the suffix \<open>*.x\<close> is compared with the host \<open>*.x\<close> of another rule as if the
  latter were a name.
\<close>

definition nested_wildcard :: "net_rule \<Rightarrow> bool" where
  "nested_wildcard r = prefix ''*.*.'' (rule_host r)"

lemma nested_wildcard_iff:
  "nested_wildcard r \<longleftrightarrow> (\<exists>s. rule_host r = CHR ''*'' # CHR ''.'' # CHR ''*'' # CHR ''.'' # s)"
  by (auto simp: nested_wildcard_def prefix_def)

lemma suffix_dot_wild:
  "suffix (CHR ''.'' # s) (CHR ''*'' # CHR ''.'' # t) \<Longrightarrow> s = t \<or> suffix (CHR ''.'' # s) t"
  by (auto simp: suffix_def Cons_eq_append_conv)

lemma subsumes_host_sound:
  assumes under: "host_under s (CHR ''*'' # CHR ''.'' # t) \<or> host_under s t"
    and nested: "\<not> prefix ''*.'' s"
    and h: "host_under t h"
  shows "host_under s h"
proof -
  have "s \<noteq> CHR ''*'' # CHR ''.'' # t"
    using nested by auto
  with under have "host_under s t"
    by (auto simp: host_under_iff dest!: suffix_dot_wild)
  then show ?thesis using h by (rule host_under_trans)
qed

lemma net_subsumes_covers:
  assumes sub: "net_subsumes r other" and plain: "\<not> nested_wildcard r"
    and cov: "net_covers other host port"
  shows "net_covers r host port"
proof -
  have port: "port_matches (rule_port r) port"
    using sub cov by (auto simp: net_subsumes_iff net_covers_iff port_matches_def)
  from sub consider (same) "rule_host r = rule_host other"
    | (wild) s where "rule_host r = CHR ''*'' # CHR ''.'' # s"
        "host_under s (rule_host other)
         \<or> (\<exists>t. rule_host other = CHR ''*'' # CHR ''.'' # t \<and> host_under s t)"
    by (auto simp: net_subsumes_iff)
  then have "host_matches (rule_host r) host"
  proof cases
    case same
    with cov show ?thesis by (simp add: net_covers_iff)
  next
    case wild
    from wild(1) plain have nested: "\<not> prefix ''*.'' s"
      by (auto simp: nested_wildcard_def)
    from cov consider "host = rule_host other"
      | t where "rule_host other = CHR ''*'' # CHR ''.'' # t" "host_under t host"
      by (auto simp: net_covers_iff host_matches_def)
    then show ?thesis
    proof cases
      case 1
      with wild show ?thesis
        by (auto simp: host_matches_def host_under_iff suffix_def)
    next
      case 2
      with wild(2) have "host_under s host"
        by (intro subsumes_host_sound [OF _ nested, of t]) auto
      with wild(1) show ?thesis by (simp add: host_matches_def)
    qed
  qed
  with port show ?thesis by (simp add: net_covers_iff)
qed

lemma net_subsumes_refl: "net_subsumes r r"
  by (simp add: net_subsumes_iff port_matches_def)

subsection \<open>Parsing and printing\<close>

lemma net_rule_parse_host:
  assumes "net_rule_parse raw = Inr r"
  shows "rule_host r \<noteq> []" "rule_host r \<noteq> ''*.''"
    "to_ascii_lowercase (rule_host r) = rule_host r"
  using assms by (auto simp: net_rule_parse_def Let_def split: if_splits sum.splits)

text \<open>
  The rules whose printed form reads back: a lower-case host, not empty, with no blank at the ends
  of what is printed, not itself starting with a bracket, and with a number of colons that tells
  an address from a \<open>host:port\<close> pair.
\<close>

definition printable :: "net_rule \<Rightarrow> bool" where
  "printable r \<longleftrightarrow>
     rule_host r \<noteq> [] \<and> rule_host r \<noteq> ''*.''
     \<and> to_ascii_lowercase (rule_host r) = rule_host r
     \<and> trimmed (net_rule_display r)
     \<and> hd (rule_host r) \<noteq> CHR ''[''
     \<and> (case rule_port r of
          None \<Rightarrow> count_list (rule_host r) (CHR '':'') \<noteq> 1
        | Some _ \<Rightarrow> CHR '':'' \<in> set (rule_host r) \<longrightarrow> CHR '']'' \<notin> set (rule_host r))"

lemma parse_port_show: "parse_port entry (show_nat (unat p)) = Inr p"
proof -
  have "unat p < 65536" using unsigned_less [of p] by simp
  then show ?thesis by (simp add: parse_port_def parse_uint_show_nat)
qed

lemma strip_prefix_char: "s \<noteq> [] \<Longrightarrow> hd s \<noteq> c \<Longrightarrow> strip_prefix [c] (s @ t) = None"
  by (cases s) (auto simp: strip_prefix_def)

lemma split_host_port_display:
  assumes "printable r"
  shows "split_host_port (net_rule_display r) = Inr (rule_host r, rule_port r)"
proof -
  let ?h = "rule_host r"
  have nb: "strip_prefix ''['' (?h @ t) = None" for t
    using assms by (intro strip_prefix_char) (auto simp: printable_def)
  have digits: "CHR '':'' \<notin> set (show_nat n)" for n
    by (rule show_nat_not_char) simp
  show ?thesis
  proof (cases "rule_port r")
    case None
    with assms nb [of "[]"] show ?thesis
      by (auto simp: printable_def net_rule_display_def split_host_port_def Let_def
          count_list_0_iff not_less le_Suc_eq rsplit_once_Some_iff split: option.splits)
  next
    case (Some p)
    show ?thesis
    proof (cases "CHR '':'' \<in> set ?h")
      case True
      with Some assms have d: "net_rule_display r = ''['' @ ?h @ '']'' @ '':'' @ show_nat (unat p)"
        and nc: "CHR '']'' \<notin> set ?h"
        by (auto simp: printable_def net_rule_display_def)
      from nc have "split_once (CHR '']'') (?h @ '']'' @ '':'' @ show_nat (unat p))
          = Some (?h, '':'' @ show_nat (unat p))"
        by simp
      with Some show ?thesis
        unfolding d split_host_port_def by (simp only: strip_prefix_append) (simp add: parse_port_show)
    next
      case False
      with Some have d: "net_rule_display r = ?h @ '':'' @ show_nat (unat p)"
        by (auto simp: net_rule_display_def)
      have "count_list (?h @ '':'' @ show_nat (unat p)) (CHR '':'') = 1"
        using False digits by (simp add: count_list_0_iff)
      moreover have "rsplit_once (CHR '':'') (?h @ '':'' @ show_nat (unat p))
          = Some (?h, show_nat (unat p))"
        using digits by simp
      ultimately show ?thesis
        unfolding d split_host_port_def nb using Some by (simp add: parse_port_show)
    qed
  qed
qed

lemma parse_display: "printable r \<Longrightarrow> net_rule_parse (net_rule_display r) = Inr r"
  using split_host_port_display [of r]
  by (auto simp: net_rule_parse_def Let_def printable_def trimmed_trim
      net_rule_display_def split: option.splits)

text \<open>What \<open>parse\<close> makes of an entry without brackets is printable.\<close>

lemma lower_char_fixed:
  assumes "\<not> (65 \<le> (of_char x :: nat) \<and> (of_char x :: nat) \<le> 90)" "\<not> (97 \<le> (of_char x :: nat) \<and> (of_char x :: nat) \<le> 122)"
  shows "ascii_lower_char c = x \<longleftrightarrow> c = x"
proof (cases "65 \<le> (of_char c :: nat) \<and> (of_char c :: nat) \<le> 90")
  case True
  then have "(of_char (ascii_lower_char c) :: nat) = of_char c + 32"
    by (simp add: ascii_lower_char_def Let_def)
  with True assms show ?thesis by auto
qed (auto simp: ascii_lower_char_def Let_def)

lemma white_space_codes:
  "w \<in> set white_space \<Longrightarrow> x \<in> set w \<Longrightarrow> (of_char x :: nat) < 48 \<or> 122 < (of_char x :: nat)"
  by (auto simp: white_space_def)

lemma map_lower_fixed:
  "(\<And>x. x \<in> set w \<Longrightarrow> (of_char x :: nat) < 65 \<or> 122 < (of_char x :: nat)) \<Longrightarrow>
     map ascii_lower_char t = w \<longleftrightarrow> t = w"
proof (induction w arbitrary: t)
  case (Cons x w)
  have "ascii_lower_char c = x \<longleftrightarrow> c = x" for c
    using Cons.prems [of x] by (intro lower_char_fixed) auto
  with Cons show ?case by (cases t) simp_all
qed simp

lemma white_space_lower:
  assumes "w \<in> set white_space"
  shows "prefix w (to_ascii_lowercase s) \<Longrightarrow> prefix w s" "suffix w (to_ascii_lowercase s) \<Longrightarrow> suffix w s"
proof -
  have fixed: "t = w" if "w = map ascii_lower_char t" for t
  proof -
    have "map ascii_lower_char t = w \<longleftrightarrow> t = w"
      by (rule map_lower_fixed) (use white_space_codes [OF assms] in fastforce)
    with that show ?thesis by simp
  qed
  show "prefix w s" if "prefix w (to_ascii_lowercase s)"
  proof -
    from that obtain us vs where "s = us @ vs" "w = map ascii_lower_char us"
      by (auto simp: prefix_def to_ascii_lowercase_def map_eq_append_conv)
    then show ?thesis using fixed by (simp add: prefix_def)
  qed
  show "suffix w s" if "suffix w (to_ascii_lowercase s)"
  proof -
    from that obtain us vs where "s = us @ vs" "w = map ascii_lower_char vs"
      by (auto simp: suffix_def to_ascii_lowercase_def map_eq_append_conv)
    then show ?thesis using fixed by (simp add: suffix_def)
  qed
qed

lemma trimmed_lower: "trimmed s \<Longrightarrow> trimmed (to_ascii_lowercase s)"
  unfolding trimmed_def using white_space_lower by blast

lemma prefix_before: "prefix w (a @ c # b) \<Longrightarrow> c \<notin> set w \<Longrightarrow> prefix w a"
  by (auto simp: prefix_def append_eq_append_conv2 Cons_eq_append_conv)

lemma white_space_no_digit:
  assumes "w \<in> set white_space"
  shows "CHR '':'' \<notin> set w" "\<not> suffix w (a @ show_nat n)"
proof -
  show "CHR '':'' \<notin> set w" using white_space_codes [OF assms, of "CHR '':''"] by auto
  have ne: "w \<noteq> []" using assms by (rule white_space_nonempty)
  show "\<not> suffix w (a @ show_nat n)"
  proof
    assume "suffix w (a @ show_nat n)"
    then have "last w = last (show_nat n)" using ne by (auto simp: suffix_def) (metis last_appendR show_nat_not_Nil)
    then have "last w \<in> set (show_nat n)" by simp
    then show False using white_space_codes [OF assms last_in_set [OF ne]] show_nat_digits by fastforce
  qed
qed

lemma trimmed_with_port:
  assumes "trimmed (h @ CHR '':'' # port)"
  shows "trimmed (to_ascii_lowercase h @ CHR '':'' # show_nat n)"
  unfolding trimmed_def
proof (intro ballI conjI)
  fix w assume w: "w \<in> set white_space"
  have "prefix w (to_ascii_lowercase h @ CHR '':'' # show_nat n) \<Longrightarrow> prefix w (h @ CHR '':'' # port)"
    using white_space_lower(1) [OF w] white_space_no_digit(1) [OF w] by (auto dest!: prefix_before)
  then show "\<not> prefix w (to_ascii_lowercase h @ CHR '':'' # show_nat n)"
    using assms w by (auto simp: trimmed_def)
  show "\<not> suffix w (to_ascii_lowercase h @ CHR '':'' # show_nat n)"
    using white_space_no_digit(2) [OF w, of "to_ascii_lowercase h @ [CHR '':'']" n] by simp
qed

lemma lower_colon:
  "CHR '':'' \<in> set (to_ascii_lowercase h) \<longleftrightarrow> CHR '':'' \<in> set h"
  "count_list (to_ascii_lowercase h) (CHR '':'') = count_list h (CHR '':'')"
  "h \<noteq> [] \<Longrightarrow> hd (to_ascii_lowercase h) = CHR ''['' \<Longrightarrow> hd h = CHR ''[''"
proof -
  have colon: "ascii_lower_char c = CHR '':'' \<longleftrightarrow> c = CHR '':''" for c
    by (rule lower_char_fixed) simp_all
  then show "CHR '':'' \<in> set (to_ascii_lowercase h) \<longleftrightarrow> CHR '':'' \<in> set h"
    using colon by (induction h) (simp_all add: to_ascii_lowercase_def eq_commute)
  show "count_list (to_ascii_lowercase h) (CHR '':'') = count_list h (CHR '':'')"
    using colon by (induction h) (auto simp: to_ascii_lowercase_def)
  have "ascii_lower_char c = CHR ''['' \<longleftrightarrow> c = CHR ''[''" for c
    by (rule lower_char_fixed) simp_all
  then show "h \<noteq> [] \<Longrightarrow> hd (to_ascii_lowercase h) = CHR ''['' \<Longrightarrow> hd h = CHR ''[''"
    by (simp add: to_ascii_lowercase_def hd_map)
qed

lemma parsed_printable:
  assumes parse: "net_rule_parse raw = Inr r" and plain: "\<not> prefix ''['' (trim raw)"
  shows "printable r"
proof -
  let ?entry = "trim raw"
  have no: "strip_prefix ''['' ?entry = None"
    using plain by (simp add: strip_prefix_def)
  obtain h where split: "split_host_port ?entry = Inr (h, rule_port r)" and host: "rule_host r = to_ascii_lowercase h"
    and ne: "?entry \<noteq> []"
    using parse by (auto simp: net_rule_parse_def Let_def split: if_splits sum.splits)
  note facts = net_rule_parse_host [OF parse] trimmed_trim_result [of raw]
  have "h \<noteq> []" using facts(1) by (simp add: host)
  show ?thesis
  proof (cases "h = ?entry \<and> rule_port r = None")
    case True
    have "hd h \<noteq> CHR ''[''" using plain ne True by (cases "trim raw") auto
    moreover have "count_list h (CHR '':'') \<noteq> 1"
    proof
      assume one: "count_list h (CHR '':'') = 1"
      then have "CHR '':'' \<in> set ?entry" using True count_notin [of "CHR '':''" h] by auto
      then obtain a b where "rsplit_once (CHR '':'') ?entry = Some (a, b)"
        using rsplit_once_None_iff by (metis option.exhaust surj_pair)
      then show False using split no one True by (auto simp: split_host_port_def split: sum.splits)
    qed
    ultimately show ?thesis using True facts \<open>h \<noteq> []\<close> lower_colon(2,3) [of h] trimmed_lower [of h]
      by (auto simp: printable_def host net_rule_display_def Let_def)
  next
    case False
    then obtain n port where n: "rule_port r = Some n" "rsplit_once (CHR '':'') ?entry = Some (h, port)"
      "count_list ?entry (CHR '':'') \<le> 1"
      using split no by (cases "rule_port r") (auto simp: split_host_port_def split: if_splits option.splits sum.splits)
    then have e: "?entry = h @ CHR '':'' # port" by (simp add: rsplit_once_Some_iff)
    then have no_colon: "CHR '':'' \<notin> set h" using n(3) by (auto simp: count_list_0_iff)
    have "hd h \<noteq> CHR ''[''" using plain \<open>h \<noteq> []\<close> e by (cases h) auto
    then show ?thesis
      using n(1) no_colon facts \<open>h \<noteq> []\<close> lower_colon(1,3) [of h] trimmed_with_port [of h port "unat n"] e
      by (auto simp: printable_def host net_rule_display_def Let_def)
  qed
qed

subsection \<open>Properties\<close>

text \<open>C29 (rule text): a rule read from an entry that is not in brackets prints as a text that reads
  back as the rule: host, wildcard and port survive. So does every rule within \<open>printable\<close>, among them
  what is read from a bracketed address with two colons or more and no bracket or blank in it. Not
  every bracketed entry is such: \<open>[a:80]\<close> is not (\<open>bracketed_entry_misprinted\<close>).\<close>

theorem net_rule_round_trip:
  assumes "net_rule_parse raw = Inr r \<and> \<not> prefix ''['' (trim raw) \<or> printable r"
  shows "net_rule_parse (net_rule_display r) = Inr r"
  using assms parsed_printable parse_display by blast

theorem net_rule_round_trip_witness:
  "net_rule_parse ''[fd00::1]:8443'' = Inr \<lparr>rule_host = ''fd00::1'', rule_port = Some 8443\<rparr>"
proof -
  have d: "net_rule_display \<lparr>rule_host = ''fd00::1'', rule_port = Some 8443\<rparr> = ''[fd00::1]:8443''"
    by (simp add: net_rule_display_def eval_simps)
  have p: "printable \<lparr>rule_host = ''fd00::1'', rule_port = Some 8443\<rparr>"
    by (simp add: printable_def d) (simp add: eval_simps)
  show ?thesis using net_rule_round_trip [of "[]", OF disjI2, OF p] unfolding d .
qed

text \<open>A rule that subsumes another covers every host and port the other covers,
  for a rule whose wildcard is not nested.\<close>

theorem subsumed_rule_covered:
  assumes "net_subsumes r other" "\<not> nested_wildcard r" "net_covers other host port"
  shows "net_covers r host port"
  using assms by (rule net_subsumes_covers)

theorem subsumed_rule_covered_witness:
  "net_covers \<lparr>rule_host = ''*.a.io'', rule_port = None\<rparr> ''x.b.a.io'' (Some 443)"
  by (rule subsumed_rule_covered [of _ "\<lparr>rule_host = ''*.b.a.io'', rule_port = Some 443\<rparr>"]) code_simp+

subsection \<open>Two rules the code misjudges\<close>

text \<open>\<open>*.*.x\<close> is taken to subsume \<open>*.x\<close>, which covers \<open>y.x\<close>; \<open>*.*.x\<close> does not.\<close>

lemma nested_wildcard_unsound:
  "net_subsumes \<lparr>rule_host = ''*.*.x'', rule_port = None\<rparr> \<lparr>rule_host = ''*.x'', rule_port = None\<rparr>
   \<and> net_covers \<lparr>rule_host = ''*.x'', rule_port = None\<rparr> ''y.x'' None
   \<and> \<not> net_covers \<lparr>rule_host = ''*.*.x'', rule_port = None\<rparr> ''y.x'' None"
  by code_simp

text \<open>The entry \<open>[a:80]\<close> prints as \<open>a:80\<close>, which is another rule.\<close>

lemma bracketed_entry_misprinted:
  "net_rule_parse ''[a:80]'' = Inr \<lparr>rule_host = ''a:80'', rule_port = None\<rparr>
   \<and> net_rule_display \<lparr>rule_host = ''a:80'', rule_port = None\<rparr> = ''a:80''
   \<and> net_rule_parse ''a:80'' = Inr \<lparr>rule_host = ''a'', rule_port = Some 80\<rparr>"
proof -
  have "trim ''[a:80]'' = ''[a:80]''" "trim ''a:80'' = ''a:80''"
    by (auto intro!: trimmed_trim simp: eval_simps)
  then show ?thesis
    by (simp add: net_rule_parse_def split_host_port_def net_rule_display_def rsplit_once_def
        strip_prefix_def parse_port_def eval_simps)
qed

end
