(* ===== verification/Grants.thy ===== *)
theory Grants
  imports Unix_Path Net_Rule
begin

text \<open>
  Grants and their intersection, \<open>crates/ferrijs-permissions/src/lib.rs\<close>: the three-valued
  \<open>Allow\<close>, \<open>intersect_with\<close>, the path rules, and the contract between a kind's rules and the
  intersection. The locale \<open>grant\<close> states what \<open>intersect_with\<close> needs of a kind (a rule that
  subsumes another covers all it covers) and \<open>exact_grant\<close> what makes the intersection exact; the
  five kinds interpret them.
\<close>

datatype 'r allow = AllowNone | AllowAll | Only "'r list"

fun allow_is_all :: "'r allow \<Rightarrow> bool" where
  "allow_is_all AllowAll = True"
| "allow_is_all _ = False"

fun allow_is_none :: "'r allow \<Rightarrow> bool" where
  "allow_is_none AllowNone = True"
| "allow_is_none _ = False"

fun allow_entries :: "'r allow \<Rightarrow> 'r list" where
  "allow_entries (Only rs) = rs"
| "allow_entries _ = []"

fun allow_map :: "('r \<Rightarrow> 's) \<Rightarrow> 'r allow \<Rightarrow> 's allow" where
  "allow_map f AllowNone = AllowNone"
| "allow_map f AllowAll = AllowAll"
| "allow_map f (Only rs) = Only (map f rs)"

text \<open>The \<open>match\<close> every check makes of its grant.\<close>

fun allow_grants :: "('r \<Rightarrow> 'q \<Rightarrow> bool) \<Rightarrow> 'r allow \<Rightarrow> 'q \<Rightarrow> bool" where
  "allow_grants covers AllowNone q = False"
| "allow_grants covers AllowAll q = True"
| "allow_grants covers (Only rs) q = list_ex (\<lambda>r. covers r q) rs"

text \<open>\<open>subsumes a b\<close>: \<open>a\<close> grants everything \<open>b\<close> grants.\<close>

fun add_theirs :: "('r \<Rightarrow> 'r \<Rightarrow> bool) \<Rightarrow> 'r list \<Rightarrow> 'r list \<Rightarrow> 'r \<Rightarrow> 'r list" where
  "add_theirs subsumes mine kept e =
     (if list_ex (\<lambda>m. subsumes m e) mine \<and> e \<notin> set kept then kept @ [e] else kept)"

fun intersect_with :: "('r \<Rightarrow> 'r \<Rightarrow> bool) \<Rightarrow> 'r allow \<Rightarrow> 'r allow \<Rightarrow> 'r allow" where
  "intersect_with subsumes AllowNone _ = AllowNone"
| "intersect_with subsumes _ AllowNone = AllowNone"
| "intersect_with subsumes AllowAll other = other"
| "intersect_with subsumes mine AllowAll = mine"
| "intersect_with subsumes (Only mine) (Only theirs) =
     Only (foldl (add_theirs subsumes mine)
             (filter (\<lambda>e. list_ex (\<lambda>t. subsumes t e) theirs) mine) theirs)"

lemma set_foldl_add_theirs:
  "set (foldl (add_theirs sub mine) kept theirs)
     = set kept \<union> {e \<in> set theirs. \<exists>m \<in> set mine. sub m e}"
  by (induction theirs arbitrary: kept) (auto simp: list_ex_iff)

lemma intersect_Only_entries:
  "set (allow_entries (intersect_with sub (Only mine) (Only theirs)))
     = {e \<in> set mine. \<exists>t \<in> set theirs. sub t e} \<union> {e \<in> set theirs. \<exists>m \<in> set mine. sub m e}"
  by (auto simp: set_foldl_add_theirs list_ex_iff)

lemma intersect_entries_subset:
  "set (allow_entries (intersect_with sub a b)) \<subseteq> set (allow_entries a) \<union> set (allow_entries b)"
  by (cases a; cases b) (auto simp: set_foldl_add_theirs)

lemma allow_is_all_iff: "allow_is_all x \<longleftrightarrow> x = AllowAll"
  by (cases x) auto

lemma intersect_is_all: "allow_is_all (intersect_with sub a b) \<longleftrightarrow> allow_is_all a \<and> allow_is_all b"
  by (cases a; cases b) auto

subsection \<open>The contract of a kind of grant\<close>

locale grant =
  fixes covers :: "'r \<Rightarrow> 'q \<Rightarrow> bool"
    and subsumes :: "'r \<Rightarrow> 'r \<Rightarrow> bool"
    and wf_rule :: "'r \<Rightarrow> bool"
  assumes subsumes_covers: "subsumes a b \<Longrightarrow> wf_rule a \<Longrightarrow> covers b q \<Longrightarrow> covers a q"
begin

lemma intersect_grants:
  assumes "allow_grants covers (intersect_with subsumes a b) q"
    and "\<forall>r \<in> set (allow_entries a). wf_rule r" and "\<forall>r \<in> set (allow_entries b). wf_rule r"
  shows "allow_grants covers a q \<and> allow_grants covers b q"
proof (cases "\<exists>mine theirs. a = Only mine \<and> b = Only theirs")
  case True
  then obtain mine theirs where ab: "a = Only mine" "b = Only theirs" by blast
  with assms(1) obtain e where e: "covers e q"
    and "(e \<in> set mine \<and> (\<exists>t \<in> set theirs. subsumes t e))
         \<or> (e \<in> set theirs \<and> (\<exists>m \<in> set mine. subsumes m e))"
    using intersect_Only_entries [of subsumes mine theirs] by (auto simp: list_ex_iff)
  with assms(2,3) ab show ?thesis
    by (auto simp: list_ex_iff dest: subsumes_covers)
next
  case False
  with assms(1) show ?thesis by (cases a; cases b) auto
qed

end

text \<open>
  When two rules that cover the same request subsume each other (rules that name one thing), the
  intersection grants exactly what both sides grant.
\<close>

locale exact_grant = grant +
  assumes covers_subsumes: "covers a q \<Longrightarrow> covers b q \<Longrightarrow> subsumes a b"
begin

lemma grants_intersect:
  assumes "allow_grants covers a q" "allow_grants covers b q"
  shows "allow_grants covers (intersect_with subsumes a b) q"
proof (cases "\<exists>mine theirs. a = Only mine \<and> b = Only theirs")
  case True
  then obtain mine theirs where ab: "a = Only mine" "b = Only theirs" by blast
  with assms obtain m t where "m \<in> set mine" "covers m q" "t \<in> set theirs" "covers t q"
    by (auto simp: list_ex_iff)
  then have "m \<in> set (allow_entries (intersect_with subsumes a b))"
    unfolding ab intersect_Only_entries using covers_subsumes by blast
  with ab \<open>covers m q\<close> show ?thesis by (auto simp: list_ex_iff)
next
  case False
  with assms show ?thesis by (cases a; cases b) auto
qed

end

subsection \<open>Path rules\<close>

record path_rule =
  lexical :: path
  resolved :: path

record checked_path =
  cand_lexical :: path
  cand_resolved :: path

definition path_rule_new :: "os \<Rightarrow> string \<Rightarrow> path_rule" where
  "path_rule_new os root =
     (let l = normalize (absolute os (components root))
      in \<lparr>lexical = l, resolved = resolve_existing os l\<rparr>)"

definition checked_path_new :: "os \<Rightarrow> string \<Rightarrow> checked_path" where
  "checked_path_new os p =
     (let l = normalize (absolute os (components p))
      in \<lparr>cand_lexical = l, cand_resolved = resolve_existing os l\<rparr>)"

text \<open>\<open>Path::starts_with\<close> compares components.\<close>

definition path_covers :: "path_rule \<Rightarrow> checked_path \<Rightarrow> bool" where
  "path_covers r c = (prefix (lexical r) (cand_lexical c) \<and> prefix (resolved r) (cand_resolved c))"

definition path_subsumes :: "path_rule \<Rightarrow> path_rule \<Rightarrow> bool" where
  "path_subsumes a b = (prefix (lexical a) (lexical b) \<and> prefix (resolved a) (resolved b))"

lemma path_rule_new_normal:
  "os_ok os \<Longrightarrow> abs_normal (lexical (path_rule_new os root)) \<and> abs_normal (resolved (path_rule_new os root))"
  by (simp add: path_rule_new_def Let_def abs_normal_normalize is_absolute_absolute
      abs_normal_resolve_existing)

lemma checked_path_new_normal:
  "os_ok os \<Longrightarrow>
     abs_normal (cand_lexical (checked_path_new os p)) \<and> abs_normal (cand_resolved (checked_path_new os p))"
  by (simp add: checked_path_new_def Let_def abs_normal_normalize is_absolute_absolute
      abs_normal_resolve_existing)

subsection \<open>The five kinds\<close>

datatype kind = Read | Write | Net | Env | Sys

datatype sys_info =
  Hostname | OsRelease | OsUptime | LoadAvg | NetworkInterfaces | SystemMemory
  | Uid | Gid | Username | Cpus | HomeDir | Priority

interpretation path_grant: grant path_covers path_subsumes "\<lambda>_. True"
  by unfold_locales (auto simp: path_covers_def path_subsumes_def intro: prefix_order.trans)

interpretation net_grant: grant "\<lambda>r (host, port). net_covers r host port" net_subsumes
    "\<lambda>r. \<not> nested_wildcard r"
  by unfold_locales (auto intro: net_subsumes_covers)

interpretation env_grant: exact_grant "\<lambda>n q. n = (q :: string)" "\<lambda>a b. a = b" "\<lambda>_. True"
  by unfold_locales auto

interpretation sys_grant: exact_grant "\<lambda>n q. n = (q :: sys_info)" "\<lambda>a b. a = b" "\<lambda>_. True"
  by unfold_locales auto

end
