(* ===== verification/Policy.thy ===== *)
theory Policy
  imports Grants "HOL-Library.Char_ord" "HOL-Library.List_Lexorder" "HOL-Library.Product_Lexorder"
begin

text \<open>
  The policy of one realm, \<open>Permissions\<close> of \<open>crates/ferrijs-permissions/src/lib.rs\<close>: five
  grants, the deny lists on top of them, the builders, the checks, the intersection and the
  environment snapshot. A refusal carries the kind and the resource, as \<open>Denied\<close> does.
\<close>

subsection \<open>The policy\<close>

record deny =
  no_read :: "path_rule list"
  no_write :: "path_rule list"
  no_net :: "net_rule list"
  no_env :: "string list"
  no_sys :: "sys_info list"

record permissions =
  may_read :: "path_rule allow"
  may_write :: "path_rule allow"
  may_net :: "net_rule allow"
  may_env :: "string allow"
  may_sys :: "sys_info allow"
  denies :: deny

record denied =
  denied_kind :: kind
  denied_resource :: string

fun kind_as_str :: "kind \<Rightarrow> string" where
  "kind_as_str Read = ''read''"
| "kind_as_str Write = ''write''"
| "kind_as_str Net = ''net''"
| "kind_as_str Env = ''env''"
| "kind_as_str Sys = ''sys''"

definition kind_from_str :: "string \<Rightarrow> string + kind" where
  "kind_from_str s =
     (if s = ''read'' then Inr Read
      else if s = ''write'' then Inr Write
      else if s = ''net'' then Inr Net
      else if s = ''env'' then Inr Env
      else if s = ''sys'' then Inr Sys
      else Inl (''`'' @ s @ ''` is not a permission kind (read, write, net, env, sys)''))"

fun sys_info_as_str :: "sys_info \<Rightarrow> string" where
  "sys_info_as_str Hostname = ''hostname''"
| "sys_info_as_str OsRelease = ''osRelease''"
| "sys_info_as_str OsUptime = ''osUptime''"
| "sys_info_as_str LoadAvg = ''loadavg''"
| "sys_info_as_str NetworkInterfaces = ''networkInterfaces''"
| "sys_info_as_str SystemMemory = ''systemMemoryInfo''"
| "sys_info_as_str Uid = ''uid''"
| "sys_info_as_str Gid = ''gid''"
| "sys_info_as_str Username = ''username''"
| "sys_info_as_str Cpus = ''cpus''"
| "sys_info_as_str HomeDir = ''homedir''"
| "sys_info_as_str Priority = ''priority''"

definition sys_info_items :: "sys_info list" where
  "sys_info_items =
     [Hostname, OsRelease, OsUptime, LoadAvg, NetworkInterfaces, SystemMemory,
      Uid, Gid, Username, Cpus, HomeDir, Priority]"

definition sys_info_from_str :: "string \<Rightarrow> string + sys_info" where
  "sys_info_from_str name =
     (case List.find (\<lambda>item. sys_info_as_str item = name) sys_info_items of
        Some item \<Rightarrow> Inr item
      | None \<Rightarrow> Inl (''`'' @ name @ ''` is not a sys permission''))"

definition denied_display :: "denied \<Rightarrow> string" where
  "denied_display d =
     (let what = (case denied_kind d of
          Read \<Rightarrow> ''read access to''
        | Write \<Rightarrow> ''write access to''
        | Net \<Rightarrow> ''network access to''
        | Env \<Rightarrow> ''access to environment variable''
        | Sys \<Rightarrow> ''access to host information'')
      in ''permission denied: '' @ what @ '' '' @ [CHR 0x22] @ denied_resource d @ [CHR 0x22]
         @ '' (grant `'' @ kind_as_str (denied_kind d) @ ''` to allow it)'')"

definition deny_default :: deny where
  "deny_default = \<lparr>no_read = [], no_write = [], no_net = [], no_env = [], no_sys = []\<rparr>"

definition deny_is_empty :: "deny \<Rightarrow> bool" where
  "deny_is_empty d =
     (no_read d = [] \<and> no_write d = [] \<and> no_net d = [] \<and> no_env d = [] \<and> no_sys d = [])"

fun union_push :: "'a list \<Rightarrow> 'a \<Rightarrow> 'a list" where
  "union_push out item = (if item \<in> set out then out else out @ [item])"

definition union_list :: "'a list \<Rightarrow> 'a list \<Rightarrow> 'a list" where
  "union_list a b = foldl union_push a b"

definition deny_merged :: "deny \<Rightarrow> deny \<Rightarrow> deny" where
  "deny_merged a b =
     \<lparr>no_read = union_list (no_read a) (no_read b),
      no_write = union_list (no_write a) (no_write b),
      no_net = union_list (no_net a) (no_net b),
      no_env = union_list (no_env a) (no_env b),
      no_sys = union_list (no_sys a) (no_sys b)\<rparr>"

lemma set_union_list [simp]: "set (union_list a b) = set a \<union> set b"
  unfolding union_list_def by (induction b arbitrary: a) auto

subsection \<open>Building a policy\<close>

definition permissions_none :: permissions where
  "permissions_none =
     \<lparr>may_read = AllowNone, may_write = AllowNone, may_net = AllowNone, may_env = AllowNone,
      may_sys = AllowNone, denies = deny_default\<rparr>"

definition permissions_all :: permissions where
  "permissions_all =
     \<lparr>may_read = AllowAll, may_write = AllowAll, may_net = AllowAll, may_env = AllowAll,
      may_sys = AllowAll, denies = deny_default\<rparr>"

definition allow_read :: "os \<Rightarrow> string list \<Rightarrow> permissions \<Rightarrow> permissions" where
  "allow_read os roots p = p\<lparr>may_read := Only (map (path_rule_new os) roots)\<rparr>"

definition allow_write :: "os \<Rightarrow> string list \<Rightarrow> permissions \<Rightarrow> permissions" where
  "allow_write os roots p = p\<lparr>may_write := Only (map (path_rule_new os) roots)\<rparr>"

definition allow_net :: "string list \<Rightarrow> permissions \<Rightarrow> string + permissions" where
  "allow_net hosts p =
     (case collect_results (map net_rule_parse hosts) of
        Inl e \<Rightarrow> Inl e
      | Inr rules \<Rightarrow> Inr (p\<lparr>may_net := Only rules\<rparr>))"

definition allow_env :: "string list \<Rightarrow> permissions \<Rightarrow> permissions" where
  "allow_env names p = p\<lparr>may_env := Only names\<rparr>"

definition allow_sys :: "sys_info list \<Rightarrow> permissions \<Rightarrow> permissions" where
  "allow_sys items p = p\<lparr>may_sys := Only items\<rparr>"

definition allow_all_read :: "permissions \<Rightarrow> permissions" where
  "allow_all_read p = p\<lparr>may_read := AllowAll\<rparr>"

definition allow_all_write :: "permissions \<Rightarrow> permissions" where
  "allow_all_write p = p\<lparr>may_write := AllowAll\<rparr>"

definition allow_all_net :: "permissions \<Rightarrow> permissions" where
  "allow_all_net p = p\<lparr>may_net := AllowAll\<rparr>"

definition allow_all_env :: "permissions \<Rightarrow> permissions" where
  "allow_all_env p = p\<lparr>may_env := AllowAll\<rparr>"

definition allow_all_sys :: "permissions \<Rightarrow> permissions" where
  "allow_all_sys p = p\<lparr>may_sys := AllowAll\<rparr>"

definition deny_read :: "os \<Rightarrow> string list \<Rightarrow> permissions \<Rightarrow> permissions" where
  "deny_read os roots p =
     p\<lparr>denies := (denies p)\<lparr>no_read := no_read (denies p) @ map (path_rule_new os) roots\<rparr>\<rparr>"

definition deny_write :: "os \<Rightarrow> string list \<Rightarrow> permissions \<Rightarrow> permissions" where
  "deny_write os roots p =
     p\<lparr>denies := (denies p)\<lparr>no_write := no_write (denies p) @ map (path_rule_new os) roots\<rparr>\<rparr>"

text \<open>The loop of \<open>deny_net\<close>: an entry that does not parse aborts the builder, which owns \<open>self\<close>.\<close>

fun deny_net :: "string list \<Rightarrow> permissions \<Rightarrow> string + permissions" where
  "deny_net [] p = Inr p"
| "deny_net (h # hosts) p =
     (case net_rule_parse h of
        Inl e \<Rightarrow> Inl e
      | Inr r \<Rightarrow> deny_net hosts (p\<lparr>denies := (denies p)\<lparr>no_net := no_net (denies p) @ [r]\<rparr>\<rparr>))"

definition deny_env :: "string list \<Rightarrow> permissions \<Rightarrow> permissions" where
  "deny_env names p = p\<lparr>denies := (denies p)\<lparr>no_env := no_env (denies p) @ names\<rparr>\<rparr>"

definition deny_sys :: "sys_info list \<Rightarrow> permissions \<Rightarrow> permissions" where
  "deny_sys items p = p\<lparr>denies := (denies p)\<lparr>no_sys := no_sys (denies p) @ items\<rparr>\<rparr>"

subsection \<open>The checks\<close>

definition check_path ::
  "os \<Rightarrow> kind \<Rightarrow> path_rule allow \<Rightarrow> path_rule list \<Rightarrow> string \<Rightarrow> denied + unit" where
  "check_path os k allow denied_rules p =
     (let granted =
        (if allow_is_none allow then False
         else if allow_is_all allow \<and> denied_rules = [] then True
         else (let candidate = checked_path_new os p;
                   denied = list_ex (\<lambda>r. path_covers r candidate) denied_rules
               in \<not> denied \<and> allow_grants path_covers allow candidate))
      in if granted then Inr () else Inl \<lparr>denied_kind = k, denied_resource = p\<rparr>)"

definition check_read :: "os \<Rightarrow> permissions \<Rightarrow> string \<Rightarrow> denied + unit" where
  "check_read os p path = check_path os Read (may_read p) (no_read (denies p)) path"

definition check_write :: "os \<Rightarrow> permissions \<Rightarrow> string \<Rightarrow> denied + unit" where
  "check_write os p path = check_path os Write (may_write p) (no_write (denies p)) path"

definition net_host :: "string \<Rightarrow> string" where
  "net_host h = trim_end_matches (CHR '']'') (trim_start_matches (CHR ''['') (to_ascii_lowercase h))"

definition check_net :: "permissions \<Rightarrow> string \<Rightarrow> u16 option \<Rightarrow> denied + unit" where
  "check_net p h port =
     (let host = net_host h;
          denied = list_ex (\<lambda>r. net_covers r host port) (no_net (denies p));
          granted = (\<not> denied \<and> allow_grants (\<lambda>r (h, q). net_covers r h q) (may_net p) (host, port))
      in if granted then Inr ()
         else Inl \<lparr>denied_kind = Net,
                   denied_resource =
                     (case port of
                        Some n \<Rightarrow> if CHR '':'' \<in> set host
                                  then ''['' @ host @ '']:'' @ show_nat (unat n)
                                  else host @ '':'' @ show_nat (unat n)
                      | None \<Rightarrow> host)\<rparr>)"

definition check_env :: "permissions \<Rightarrow> string \<Rightarrow> denied + unit" where
  "check_env p name =
     (let granted = (\<not> list_ex (\<lambda>n. n = name) (no_env (denies p))
                     \<and> allow_grants (\<lambda>n q. n = q) (may_env p) name)
      in if granted then Inr () else Inl \<lparr>denied_kind = Env, denied_resource = name\<rparr>)"

definition check_sys :: "permissions \<Rightarrow> sys_info \<Rightarrow> denied + unit" where
  "check_sys p item =
     (let granted = (item \<notin> set (no_sys (denies p)) \<and> allow_grants (\<lambda>n q. n = q) (may_sys p) item)
      in if granted then Inr ()
         else Inl \<lparr>denied_kind = Sys, denied_resource = sys_info_as_str item\<rparr>)"

definition intersect :: "permissions \<Rightarrow> permissions \<Rightarrow> permissions" where
  "intersect a b =
     \<lparr>may_read = intersect_with path_subsumes (may_read a) (may_read b),
      may_write = intersect_with path_subsumes (may_write a) (may_write b),
      may_net = intersect_with net_subsumes (may_net a) (may_net b),
      may_env = intersect_with (\<lambda>x y. x = y) (may_env a) (may_env b),
      may_sys = intersect_with (\<lambda>x y. x = y) (may_sys a) (may_sys b),
      denies = deny_merged (denies a) (denies b)\<rparr>"

text \<open>\<open>Vec::dedup_by\<close> on the names: of adjacent entries with one name the first stays.\<close>

fun dedup_names :: "(string \<times> string) list \<Rightarrow> (string \<times> string) list" where
  "dedup_names [] = []"
| "dedup_names [x] = [x]"
| "dedup_names (x # y # ys) =
     (if fst x = fst y then dedup_names (x # ys) else x # dedup_names (y # ys))"

definition env_snapshot :: "os \<Rightarrow> permissions \<Rightarrow> (string \<times> string) list" where
  "env_snapshot os p =
     (let vars = (case may_env p of
          AllowNone \<Rightarrow> []
        | AllowAll \<Rightarrow> os_vars os
        | Only names \<Rightarrow>
            List.map_filter (\<lambda>n. map_option (\<lambda>v. (n, v)) (map_of (os_vars os) n)) names)
      in dedup_names (sort (filter (\<lambda>(name, _). name \<notin> set (no_env (denies p))) vars)))"

text \<open>\<open>describe\<close>: the grant of a kind as text.\<close>

fun component_str :: "component \<Rightarrow> string" where
  "component_str RootDir = []"
| "component_str CurDir = ''.''"
| "component_str ParentDir = ''..''"
| "component_str (Normal n) = n"

definition path_display :: "path \<Rightarrow> string" where
  "path_display p =
     (if p = [RootDir] then ''/'' else join_with ''/'' (map component_str p))"

fun render_allow :: "string allow \<Rightarrow> string" where
  "render_allow AllowNone = ''none''"
| "render_allow AllowAll = ''all''"
| "render_allow (Only rs) = join_with '', '' rs"

fun describe :: "permissions \<Rightarrow> kind \<Rightarrow> string" where
  "describe p Read = render_allow (allow_map (\<lambda>r. path_display (lexical r)) (may_read p))"
| "describe p Write = render_allow (allow_map (\<lambda>r. path_display (lexical r)) (may_write p))"
| "describe p Net = render_allow (allow_map net_rule_display (may_net p))"
| "describe p Env = render_allow (may_env p)"
| "describe p Sys = render_allow (allow_map sys_info_as_str (may_sys p))"

subsection \<open>One request, any kind\<close>

datatype access =
  ReadPath string | WritePath string | Connect string "u16 option" | GetEnv string | GetSys sys_info

fun static_check :: "os \<Rightarrow> permissions \<Rightarrow> access \<Rightarrow> denied + unit" where
  "static_check os p (ReadPath s) = check_read os p s"
| "static_check os p (WritePath s) = check_write os p s"
| "static_check os p (Connect h port) = check_net p h port"
| "static_check os p (GetEnv n) = check_env p n"
| "static_check os p (GetSys i) = check_sys p i"

fun access_kind :: "access \<Rightarrow> kind" where
  "access_kind (ReadPath s) = Read"
| "access_kind (WritePath s) = Write"
| "access_kind (Connect h port) = Net"
| "access_kind (GetEnv n) = Env"
| "access_kind (GetSys i) = Sys"

lemma check_path_ok_iff:
  "is_ok (check_path os k allow rules s) \<longleftrightarrow>
     allow_grants path_covers allow (checked_path_new os s)
     \<and> (\<forall>r \<in> set rules. \<not> path_covers r (checked_path_new os s))"
  by (cases allow) (auto simp: check_path_def Let_def list_ex_iff)

lemma check_net_ok_iff:
  "is_ok (check_net p h port) \<longleftrightarrow>
     allow_grants (\<lambda>r (h, q). net_covers r h q) (may_net p) (net_host h, port)
     \<and> (\<forall>r \<in> set (no_net (denies p)). \<not> net_covers r (net_host h) port)"
  by (auto simp: check_net_def Let_def list_ex_iff)

lemma check_env_ok_iff:
  "is_ok (check_env p n) \<longleftrightarrow>
     allow_grants (\<lambda>n q. n = q) (may_env p) n \<and> n \<notin> set (no_env (denies p))"
  by (auto simp: check_env_def Let_def list_ex_iff)

lemma check_sys_ok_iff:
  "is_ok (check_sys p i) \<longleftrightarrow>
     allow_grants (\<lambda>n q. n = q) (may_sys p) i \<and> i \<notin> set (no_sys (denies p))"
  by (auto simp: check_sys_def Let_def)

lemmas check_ok_iffs [guard_simps] = check_path_ok_iff check_net_ok_iff check_env_ok_iff check_sys_ok_iff

lemmas [guard_simps] = check_read_def check_write_def

text \<open>The refusal names the kind asked for.\<close>

lemma static_check_denied_kind:
  "static_check os p a = Inl d \<Longrightarrow> denied_kind d = access_kind a"
  by (cases a) (auto simp: check_read_def check_write_def check_path_def check_net_def check_env_def
      check_sys_def Let_def split: if_splits)

text \<open>No rule of the \<open>net\<close> grant has a wildcard for its suffix.\<close>

definition net_plain :: "permissions \<Rightarrow> bool" where
  "net_plain p \<longleftrightarrow> (\<forall>r \<in> set (allow_entries (may_net p)). \<not> nested_wildcard r)"

lemma net_plain_intersect: "net_plain a \<Longrightarrow> net_plain b \<Longrightarrow> net_plain (intersect a b)"
  using intersect_entries_subset [of net_subsumes "may_net a" "may_net b"]
  by (auto simp: net_plain_def intersect_def)

lemma deny_merged_sets [simp]:
  "set (no_read (deny_merged a b)) = set (no_read a) \<union> set (no_read b)"
  "set (no_write (deny_merged a b)) = set (no_write a) \<union> set (no_write b)"
  "set (no_net (deny_merged a b)) = set (no_net a) \<union> set (no_net b)"
  "set (no_env (deny_merged a b)) = set (no_env a) \<union> set (no_env b)"
  "set (no_sys (deny_merged a b)) = set (no_sys a) \<union> set (no_sys b)"
  by (simp_all add: deny_merged_def)

text \<open>The intersection, kind by kind.\<close>

lemma intersect_path_grants:
  "allow_grants path_covers (intersect_with path_subsumes a b) c \<Longrightarrow>
     allow_grants path_covers a c \<and> allow_grants path_covers b c"
  by (rule path_grant.intersect_grants) auto

lemma intersect_net_grants:
  "allow_grants (\<lambda>r (h, q). net_covers r h q) (intersect_with net_subsumes a b) hp \<Longrightarrow>
     \<forall>r \<in> set (allow_entries a). \<not> nested_wildcard r \<Longrightarrow>
     \<forall>r \<in> set (allow_entries b). \<not> nested_wildcard r \<Longrightarrow>
     allow_grants (\<lambda>r (h, q). net_covers r h q) a hp \<and> allow_grants (\<lambda>r (h, q). net_covers r h q) b hp"
  by (rule net_grant.intersect_grants)

lemma intersect_env_grants:
  "allow_grants (\<lambda>n q. n = q) (intersect_with (\<lambda>x y. x = y) a b) (n :: string) \<longleftrightarrow>
     allow_grants (\<lambda>n q. n = q) a n \<and> allow_grants (\<lambda>n q. n = q) b n"
  using env_grant.intersect_grants [of a b n] env_grant.grants_intersect [of a n b] by auto

lemma intersect_sys_grants:
  "allow_grants (\<lambda>n q. n = q) (intersect_with (\<lambda>x y. x = y) a b) (i :: sys_info) \<longleftrightarrow>
     allow_grants (\<lambda>n q. n = q) a i \<and> allow_grants (\<lambda>n q. n = q) b i"
  using sys_grant.intersect_grants [of a b i] sys_grant.grants_intersect [of a i b] by auto

lemma static_check_intersect:
  assumes "access_kind acc = Net \<longrightarrow> net_plain a \<and> net_plain b" "is_ok (static_check os (intersect a b) acc)"
  shows "is_ok (static_check os a acc) \<and> is_ok (static_check os b acc)"
proof (cases acc)
  case (ReadPath s)
  with assms show ?thesis
    by (auto simp: intersect_def guard_simps dest: intersect_path_grants)
next
  case (WritePath s)
  with assms show ?thesis
    by (auto simp: intersect_def guard_simps dest: intersect_path_grants)
next
  case (Connect h port)
  with assms show ?thesis
    by (auto simp: intersect_def guard_simps net_plain_def dest: intersect_net_grants)
next
  case (GetEnv n)
  with assms show ?thesis by (auto simp: intersect_def guard_simps intersect_env_grants)
next
  case (GetSys i)
  with assms show ?thesis by (auto simp: intersect_def guard_simps intersect_sys_grants)
qed

subsection \<open>The environment snapshot\<close>

lemma set_dedup_names_subset: "set (dedup_names xs) \<subseteq> set xs"
  by (induction xs rule: dedup_names.induct) auto

lemma names_dedup_names: "fst ` set (dedup_names xs) = fst ` set xs"
  by (induction xs rule: dedup_names.induct) auto

lemma sorted_names_distinct:
  "sorted xs \<Longrightarrow> sorted (map fst (dedup_names xs)) \<and> distinct (map fst (dedup_names xs))"
proof (induction xs rule: dedup_names.induct)
  case (3 x y ys)
  show ?case
  proof (cases "fst x = fst y")
    case True
    with 3 show ?thesis by auto
  next
    case False
    with 3 have IH: "sorted (map fst (dedup_names (y # ys)))" "distinct (map fst (dedup_names (y # ys)))"
      by auto
    have lt: "fst x < fst z" if "z \<in> set (y # ys)" for z
    proof -
      have "x \<le> y" "y \<le> z" using "3.prems" that by auto
      then have "fst x \<le> fst y" "fst y \<le> fst z" by (auto simp: less_eq_prod_def)
      with False show ?thesis by simp
    qed
    then have "\<forall>n \<in> set (map fst (dedup_names (y # ys))). fst x < n"
      using set_dedup_names_subset by fastforce
    with False IH show ?thesis by (auto simp: less_imp_le)
  qed
qed auto

text \<open>Which variables a snapshot holds.\<close>

lemma named_vars_iff:
  "(n, v) \<in> set (List.map_filter (\<lambda>n. map_option (\<lambda>v. (n, v)) (map_of vars n)) names)
     \<longleftrightarrow> n \<in> set names \<and> map_of vars n = Some v"
  by (force simp: List.map_filter_def)

lemma map_filter_pair_names:
  "fst ` set (List.map_filter (\<lambda>n. map_option (\<lambda>v. (n, v)) (f n)) names) = {n \<in> set names. f n \<noteq> None}"
  by (induction names) (auto simp: List.map_filter_simps split: option.splits)

lemma named_vars_names:
  "fst ` set (List.map_filter (\<lambda>n. map_option (\<lambda>v. (n, v)) (map_of vars n)) names)
     = {n \<in> fst ` set vars. n \<in> set names}"
  by (auto simp only: map_filter_pair_names map_of_eq_None_iff)

lemma fst_filter_names:
  "fst ` set (filter (\<lambda>(n, _). P n) xs) = {n \<in> fst ` set xs. P n}"
  by force

lemma env_snapshot_names:
  "fst ` set (env_snapshot os p) = {n \<in> fst ` set (os_vars os). is_ok (check_env p n)}"
  by (cases "may_env p")
     (auto simp: env_snapshot_def Let_def names_dedup_names set_sort fst_filter_names
       named_vars_names check_env_ok_iff list_ex_iff simp del: set_filter)

lemma env_snapshot_subset: "set (env_snapshot os p) \<subseteq> set (os_vars os)"
proof -
  have "set (env_snapshot os p) \<subseteq> set (case may_env p of AllowNone \<Rightarrow> [] | AllowAll \<Rightarrow> os_vars os
      | Only names \<Rightarrow> List.map_filter (\<lambda>n. map_option (\<lambda>v. (n, v)) (map_of (os_vars os) n)) names)"
    using set_dedup_names_subset by (fastforce simp: env_snapshot_def Let_def)
  then show ?thesis
    by (auto simp: named_vars_iff split: allow.splits dest!: subsetD dest: map_of_SomeD)
qed

subsection \<open>Properties\<close>

text \<open>C21 (intersection): a request for a file, a variable or host information that the intersection of
  two policies grants, both grant. So is a request for the network, when neither policy has a \<open>net\<close>
  grant with a wildcard below a wildcard, \<open>*.*.x\<close>; with such a grant it need not be
  (\<open>intersect_widens_nested_wildcard\<close>).\<close>

theorem intersect_never_widens:
  assumes "access_kind acc = Net \<longrightarrow> net_plain a \<and> net_plain b" "is_ok (static_check os (intersect a b) acc)"
  shows "is_ok (static_check os a acc) \<and> is_ok (static_check os b acc)"
  using assms by (rule static_check_intersect)

theorem intersect_never_widens_witness:
  "is_ok (static_check \<lparr>os_cwd = None, os_canonicalize = (\<lambda>_. None), os_vars = []\<rparr>
     (permissions_none\<lparr>may_net := Only [\<lparr>rule_host = ''*.a.io'', rule_port = None\<rparr>]\<rparr>)
     (Connect ''x.a.io'' (Some 443)))"
proof -
  let ?os = "\<lparr>os_cwd = None, os_canonicalize = (\<lambda>_. None), os_vars = []\<rparr>"
  let ?a = "permissions_none\<lparr>may_net := Only [\<lparr>rule_host = ''*.a.io'', rule_port = None\<rparr>]\<rparr>"
  let ?b = "permissions_none\<lparr>may_net := Only [\<lparr>rule_host = ''x.a.io'', rule_port = Some 443\<rparr>,
      \<lparr>rule_host = ''b.io'', rule_port = None\<rparr>]\<rparr>"
  have "net_plain ?a" "net_plain ?b" by code_simp+
  moreover have "is_ok (static_check ?os (intersect ?a ?b) (Connect ''x.a.io'' (Some 443)))" by code_simp
  ultimately show ?thesis using intersect_never_widens [of "Connect ''x.a.io'' (Some 443)" ?a ?b ?os] by blast
qed

text \<open>A path a \<open>read\<close> grant of roots lets through lies below one of the roots, in what
  is written once \<open>.\<close> and \<open>..\<close> are taken out and in what it is after links are followed, by plain
  names only. (\<open>..\<close> is taken out before links are followed, which is not how the operating
  system reads a path.)\<close>

theorem granted_path_confined:
  assumes "os_ok os" "may_read p = Only (map (path_rule_new os) roots)" "is_ok (check_read os p s)"
    and "os_canonicalize os (normalize (absolute os (components s))) = Some real"
  shows "\<exists>root \<in> set roots. \<exists>ns ms.
      normalize (absolute os (components s)) = lexical (path_rule_new os root) @ map Normal ns
      \<and> real = resolved (path_rule_new os root) @ map Normal ms"
proof -
  let ?c = "checked_path_new os s"
  from assms(2,3) obtain root where root: "root \<in> set roots" "path_covers (path_rule_new os root) ?c"
    by (auto simp: check_read_def check_path_ok_iff list_ex_iff)
  have "cand_lexical ?c = normalize (absolute os (components s))" "cand_resolved ?c = real"
    using assms(4) by (simp_all add: checked_path_new_def Let_def resolve_existing_canonical)
  then have below: "prefix (lexical (path_rule_new os root)) (normalize (absolute os (components s)))"
    "prefix (resolved (path_rule_new os root)) real"
    and normal: "abs_normal (normalize (absolute os (components s)))" "abs_normal real"
    using root(2) checked_path_new_normal [OF assms(1), of s] by (simp_all add: path_covers_def)
  note rule = path_rule_new_normal [OF assms(1), of root]
  from rule normal below have "\<exists>ns. normalize (absolute os (components s))
      = lexical (path_rule_new os root) @ map Normal ns" by (intro prefix_below) auto
  moreover from rule normal below have "\<exists>ms. real = resolved (path_rule_new os root) @ map Normal ms"
    by (intro prefix_below) auto
  ultimately show ?thesis using root(1) by blast
qed

theorem granted_path_confined_witness:
  "\<exists>root \<in> set [''/data'']. \<exists>ns ms.
     [RootDir, Normal ''data'', Normal ''a''] = lexical
        (path_rule_new \<lparr>os_cwd = Some [RootDir], os_canonicalize = (\<lambda>p. if abs_normal p then Some p else None),
           os_vars = []\<rparr> root) @ map Normal ns
     \<and> [RootDir, Normal ''data'', Normal ''a''] = resolved
        (path_rule_new \<lparr>os_cwd = Some [RootDir], os_canonicalize = (\<lambda>p. if abs_normal p then Some p else None),
           os_vars = []\<rparr> root) @ map Normal ms"
proof -
  let ?os = "\<lparr>os_cwd = Some [RootDir], os_canonicalize = (\<lambda>p. if abs_normal p then Some p else None),
      os_vars = []\<rparr>"
  let ?p = "permissions_none\<lparr>may_read := Only (map (path_rule_new ?os) [''/data''])\<rparr>"
  have n: "normalize (absolute ?os (components ''data/b/../a'')) = [RootDir, Normal ''data'', Normal ''a'']"
    by code_simp
  have "os_ok ?os" by (auto simp: os_ok_def is_absolute_def)
  moreover have "is_ok (check_read ?os ?p ''data/b/../a'')" by code_simp
  ultimately show ?thesis
    using granted_path_confined [of ?os ?p "[''/data'']" "''data/b/../a''"] unfolding n by simp
qed

text \<open>The snapshot holds exactly the variables of the process that \<open>check_env\<close>
  lets through, each with its value and once, in the order of their names.\<close>

theorem env_snapshot_exact:
  "fst ` set (env_snapshot os p) = {n \<in> fst ` set (os_vars os). is_ok (check_env p n)}
   \<and> set (env_snapshot os p) \<subseteq> set (os_vars os)
   \<and> sorted (map fst (env_snapshot os p)) \<and> distinct (map fst (env_snapshot os p))"
proof -
  have "sorted (map fst (env_snapshot os p)) \<and> distinct (map fst (env_snapshot os p))"
    unfolding env_snapshot_def Let_def by (rule sorted_names_distinct) simp
  then show ?thesis using env_snapshot_names env_snapshot_subset by blast
qed

text \<open>Through the nested wildcard, the intersection of two policies grants what one of them refuses.\<close>

lemma intersect_widens_nested_wildcard:
  "let a = permissions_none\<lparr>may_net := Only [\<lparr>rule_host = ''*.*.x'', rule_port = None\<rparr>]\<rparr>;
       b = permissions_none\<lparr>may_net := Only [\<lparr>rule_host = ''*.x'', rule_port = None\<rparr>]\<rparr>
   in is_ok (check_net (intersect a b) ''y.x'' None) \<and> \<not> is_ok (check_net a ''y.x'' None)"
  by code_simp

end
