(* ===== verification/Container.thy ===== *)
theory Container
  imports Policy
begin

text \<open>
  The container that holds one realm's policy for the realm's whole life,
  \<open>Container\<close> of \<open>crates/ferrijs-permissions/src/lib.rs\<close>: narrowing (\<open>revoke\<close>, \<open>deny\<close>),
  the checks with the host's hook and audit, and the \<open>has\<close> query.

  The hook is the host's code. It may answer the same request differently from one call to the
  next, so it is a function of the number of requests it was asked before (\<open>asked\<close>) and of the
  request. What the audit records is the list \<open>audit\<close>, oldest first.
\<close>

record request =
  req_kind :: kind
  req_resource :: string

datatype decision = Allow | Deny

record container =
  policy :: permissions
  hook :: "(nat \<Rightarrow> request \<Rightarrow> decision) option"
  asked :: nat
  audit :: "(request \<times> bool) list option"

definition container_new :: "permissions \<Rightarrow> container" where
  "container_new p = \<lparr>policy = p, hook = None, asked = 0, audit = None\<rparr>"

definition with_hook :: "(nat \<Rightarrow> request \<Rightarrow> decision) \<Rightarrow> container \<Rightarrow> container" where
  "with_hook h c = c\<lparr>hook := Some h\<rparr>"

definition with_audit :: "container \<Rightarrow> container" where
  "with_audit c = c\<lparr>audit := Some []\<rparr>"

definition revoke :: "permissions \<Rightarrow> container \<Rightarrow> container" where
  "revoke remaining c = c\<lparr>policy := intersect (policy c) remaining\<rparr>"

text \<open>\<open>deny\<close> works on a copy of the policy and installs it only when the resource parses.\<close>

fun deny_resource :: "os \<Rightarrow> kind \<Rightarrow> string \<Rightarrow> deny \<Rightarrow> string + deny" where
  "deny_resource os Read r d = Inr (d\<lparr>no_read := no_read d @ [path_rule_new os r]\<rparr>)"
| "deny_resource os Write r d = Inr (d\<lparr>no_write := no_write d @ [path_rule_new os r]\<rparr>)"
| "deny_resource os Net r d =
     (case net_rule_parse r of Inl e \<Rightarrow> Inl e | Inr rule \<Rightarrow> Inr (d\<lparr>no_net := no_net d @ [rule]\<rparr>))"
| "deny_resource os Env r d = Inr (d\<lparr>no_env := no_env d @ [r]\<rparr>)"
| "deny_resource os Sys r d =
     (case sys_info_from_str r of Inl e \<Rightarrow> Inl e | Inr i \<Rightarrow> Inr (d\<lparr>no_sys := no_sys d @ [i]\<rparr>))"

definition container_deny :: "os \<Rightarrow> kind \<Rightarrow> string \<Rightarrow> container \<Rightarrow> (string + unit) \<times> container" where
  "container_deny os k r c =
     (case deny_resource os k r (denies (policy c)) of
        Inl e \<Rightarrow> (Inl e, c)
      | Inr d \<Rightarrow> (Inr (), c\<lparr>policy := (policy c)\<lparr>denies := d\<rparr>\<rparr>))"

definition decide ::
  "kind \<Rightarrow> string \<Rightarrow> denied + unit \<Rightarrow> container \<Rightarrow> (denied + unit) \<times> container" where
  "decide k resource statically c =
     (let request = \<lparr>req_kind = k, req_resource = resource\<rparr>;
          (outcome, c') =
            (case statically of
               Inr u \<Rightarrow> (Inr u, c)
             | Inl denied \<Rightarrow>
                 (case hook c of
                    None \<Rightarrow> (Inl denied, c)
                  | Some h \<Rightarrow>
                      ((if h (asked c) request = Allow then Inr () else Inl denied),
                       c\<lparr>asked := Suc (asked c)\<rparr>)))
      in (outcome,
          (case audit c' of
             None \<Rightarrow> c'
           | Some l \<Rightarrow> c'\<lparr>audit := Some (l @ [(request, is_ok outcome)])\<rparr>)))"

definition container_check_read ::
  "os \<Rightarrow> string \<Rightarrow> container \<Rightarrow> (denied + unit) \<times> container" where
  "container_check_read os path c = decide Read path (check_read os (policy c) path) c"

definition container_check_write ::
  "os \<Rightarrow> string \<Rightarrow> container \<Rightarrow> (denied + unit) \<times> container" where
  "container_check_write os path c = decide Write path (check_write os (policy c) path) c"

definition net_resource :: "string \<Rightarrow> u16 option \<Rightarrow> string" where
  "net_resource host port =
     (case port of Some p \<Rightarrow> host @ '':'' @ show_nat (unat p) | None \<Rightarrow> host)"

definition container_check_net ::
  "string \<Rightarrow> u16 option \<Rightarrow> container \<Rightarrow> (denied + unit) \<times> container" where
  "container_check_net host port c =
     decide Net (net_resource host port) (check_net (policy c) host port) c"

definition container_check_env :: "string \<Rightarrow> container \<Rightarrow> (denied + unit) \<times> container" where
  "container_check_env name c = decide Env name (check_env (policy c) name) c"

definition container_check_sys :: "sys_info \<Rightarrow> container \<Rightarrow> (denied + unit) \<times> container" where
  "container_check_sys item c = decide Sys (sys_info_as_str item) (check_sys (policy c) item) c"

definition container_has :: "os \<Rightarrow> container \<Rightarrow> kind \<Rightarrow> string option \<Rightarrow> string + bool" where
  "container_has os c k resource =
     (let p = policy c in
      case resource of
        None \<Rightarrow> Inr (case k of
            Read \<Rightarrow> allow_is_all (may_read p) \<and> no_read (denies p) = []
          | Write \<Rightarrow> allow_is_all (may_write p) \<and> no_write (denies p) = []
          | Net \<Rightarrow> allow_is_all (may_net p) \<and> no_net (denies p) = []
          | Env \<Rightarrow> allow_is_all (may_env p) \<and> no_env (denies p) = []
          | Sys \<Rightarrow> allow_is_all (may_sys p) \<and> no_sys (denies p) = [])
      | Some r \<Rightarrow> (case k of
            Read \<Rightarrow> Inr (is_ok (check_read os p r))
          | Write \<Rightarrow> Inr (is_ok (check_write os p r))
          | Net \<Rightarrow> (case net_rule_parse r of
                      Inl e \<Rightarrow> Inl e
                    | Inr rule \<Rightarrow> Inr (is_ok (check_net p (rule_host rule) (rule_port rule))))
          | Env \<Rightarrow> Inr (is_ok (check_env p r))
          | Sys \<Rightarrow> (case sys_info_from_str r of
                      Inl e \<Rightarrow> Inl e
                    | Inr i \<Rightarrow> Inr (is_ok (check_sys p i)))))"

subsection \<open>A realm's life\<close>

text \<open>The check of a request, dispatched on its kind.\<close>

fun container_check :: "os \<Rightarrow> access \<Rightarrow> container \<Rightarrow> (denied + unit) \<times> container" where
  "container_check os (ReadPath s) c = container_check_read os s c"
| "container_check os (WritePath s) c = container_check_write os s c"
| "container_check os (Connect h port) c = container_check_net h port c"
| "container_check os (GetEnv n) c = container_check_env n c"
| "container_check os (GetSys i) c = container_check_sys i c"

fun access_resource :: "access \<Rightarrow> string" where
  "access_resource (ReadPath s) = s"
| "access_resource (WritePath s) = s"
| "access_resource (Connect h port) = net_resource h port"
| "access_resource (GetEnv n) = n"
| "access_resource (GetSys i) = sys_info_as_str i"

text \<open>
  What happens to a container once it is built. The operating system may change between two
  calls, so each call that consults it carries its own.
\<close>

datatype call = Revoke permissions | DenyMore os kind string | Check os access

fun container_step :: "call \<Rightarrow> container \<Rightarrow> container" where
  "container_step (Revoke r) c = revoke r c"
| "container_step (DenyMore os k r) c = snd (container_deny os k r c)"
| "container_step (Check os a) c = snd (container_check os a c)"

definition container_run :: "call list \<Rightarrow> container \<Rightarrow> container" where
  "container_run calls c = foldl (\<lambda>c call. container_step call c) c calls"

fun call_plain :: "call \<Rightarrow> bool" where
  "call_plain (Revoke r) = net_plain r"
| "call_plain _ = True"

subsection \<open>What a check does to the container\<close>

lemma container_check_eq:
  "container_check os a c
     = decide (access_kind a) (access_resource a) (static_check os (policy c) a) c"
  by (cases a) (simp_all add: container_check_read_def container_check_write_def
      container_check_net_def container_check_env_def container_check_sys_def)

lemma decide_policy [simp]: "policy (snd (decide k r s c)) = policy c"
  by (auto simp: decide_def Let_def split: sum.splits option.splits)

lemma decide_hook [simp]: "hook (snd (decide k r s c)) = hook c"
  by (auto simp: decide_def Let_def split: sum.splits option.splits)

lemma decide_granted: "is_ok s \<Longrightarrow> is_ok (fst (decide k r s c)) \<and> asked (snd (decide k r s c)) = asked c"
  by (cases s) (auto simp: decide_def Let_def split: option.splits)

lemma decide_outcome:
  "is_ok (fst (decide k r s c)) \<longleftrightarrow>
     is_ok s \<or> (\<exists>h. hook c = Some h \<and> h (asked c) \<lparr>req_kind = k, req_resource = r\<rparr> = Allow)"
  by (cases s) (auto simp: decide_def Let_def split: option.splits)

lemma decide_asked:
  "asked (snd (decide k r s c)) = asked c + (if \<not> is_ok s \<and> hook c \<noteq> None then 1 else 0)"
  by (cases s) (auto simp: decide_def Let_def split: option.splits)

lemma decide_audit:
  "audit (snd (decide k r s c)) =
     map_option (\<lambda>l. l @ [(\<lparr>req_kind = k, req_resource = r\<rparr>, is_ok (fst (decide k r s c)))]) (audit c)"
  by (cases s) (auto simp: decide_def Let_def split: option.splits)

subsection \<open>Narrowing\<close>

lemma deny_resource_ok:
  assumes "deny_resource os k r d = Inr d'"
  shows "set (no_read d) \<subseteq> set (no_read d') \<and> set (no_write d) \<subseteq> set (no_write d')
       \<and> set (no_net d) \<subseteq> set (no_net d') \<and> set (no_env d) \<subseteq> set (no_env d')
       \<and> set (no_sys d) \<subseteq> set (no_sys d')"
  using assms by (cases k) (auto split: sum.splits)

lemma more_denies_narrow:
  assumes "set (no_read (denies p)) \<subseteq> set (no_read d)" "set (no_write (denies p)) \<subseteq> set (no_write d)"
    "set (no_net (denies p)) \<subseteq> set (no_net d)" "set (no_env (denies p)) \<subseteq> set (no_env d)"
    "set (no_sys (denies p)) \<subseteq> set (no_sys d)"
    and "is_ok (static_check os (p\<lparr>denies := d\<rparr>) a)"
  shows "is_ok (static_check os p a)"
  using assms by (cases a) (auto simp: guard_simps)

lemma step_narrows:
  assumes "access_kind a = Net \<longrightarrow> net_plain (policy c) \<and> call_plain call"
    and "is_ok (static_check os (policy (container_step call c)) a)"
  shows "is_ok (static_check os (policy c) a)"
proof (cases call)
  case (Revoke r)
  with assms show ?thesis using static_check_intersect by (auto simp: revoke_def)
next
  case (DenyMore os' k r)
  with assms(2) show ?thesis
    by (auto simp: container_deny_def split: sum.splits
        dest!: deny_resource_ok intro: more_denies_narrow)
next
  case (Check os' a')
  with assms(2) show ?thesis by (simp add: container_check_eq)
qed

lemma step_plain:
  "net_plain (policy c) \<Longrightarrow> call_plain call \<Longrightarrow> net_plain (policy (container_step call c))"
proof (cases call)
  case (Revoke r)
  assume "net_plain (policy c)" "call_plain call"
  with Revoke show ?thesis by (simp add: revoke_def net_plain_intersect)
qed (auto simp: container_deny_def container_check_eq net_plain_def split: sum.splits)

lemma run_narrows:
  assumes "access_kind a = Net \<longrightarrow> net_plain (policy c) \<and> list_all call_plain calls"
    and "is_ok (static_check os (policy (container_run calls c)) a)"
  shows "is_ok (static_check os (policy c) a)"
  using assms
proof (induction calls arbitrary: c)
  case (Cons call calls)
  then have "is_ok (static_check os (policy (container_step call c)) a)"
    using Cons.IH [of "container_step call c"] by (simp add: step_plain container_run_def)
  with Cons.prems(1) show ?case by (intro step_narrows [of a c call]) auto
qed (simp add: container_run_def)

text \<open>A resource carved out of a kind stays refused by the policy, whatever is called later.\<close>

definition denies_access :: "os \<Rightarrow> permissions \<Rightarrow> access \<Rightarrow> bool" where
  "denies_access os p a =
     (case a of
        ReadPath s \<Rightarrow> list_ex (\<lambda>r. path_covers r (checked_path_new os s)) (no_read (denies p))
      | WritePath s \<Rightarrow> list_ex (\<lambda>r. path_covers r (checked_path_new os s)) (no_write (denies p))
      | Connect h port \<Rightarrow> list_ex (\<lambda>r. net_covers r (net_host h) port) (no_net (denies p))
      | GetEnv n \<Rightarrow> n \<in> set (no_env (denies p))
      | GetSys i \<Rightarrow> i \<in> set (no_sys (denies p)))"

lemma denies_access_refused: "denies_access os p a \<Longrightarrow> \<not> is_ok (static_check os p a)"
  by (cases a) (auto simp: denies_access_def guard_simps list_ex_iff)

lemma step_keeps_denies:
  "denies_access os (policy c) a \<Longrightarrow> denies_access os (policy (container_step call c)) a"
proof (cases call)
  case (DenyMore os' k r)
  assume "denies_access os (policy c) a"
  with DenyMore show ?thesis
    by (cases k; cases a) (auto simp: container_deny_def denies_access_def split: sum.splits)
qed (auto simp: revoke_def intersect_def container_check_eq denies_access_def list_ex_iff
     split: access.splits)

lemma run_keeps_denies:
  "denies_access os (policy c) a \<Longrightarrow> denies_access os (policy (container_run calls c)) a"
  by (induction calls arbitrary: c) (auto simp: container_run_def step_keeps_denies)

lemma run_keeps_hook: "hook (container_run calls c) = hook c"
proof (induction calls arbitrary: c)
  case (Cons call calls)
  have "hook (container_step call c) = hook c"
    by (cases call) (auto simp: revoke_def container_deny_def container_check_eq split: sum.splits)
  with Cons.IH [of "container_step call c"] show ?case by (simp add: container_run_def)
qed (simp add: container_run_def)

subsection \<open>Properties\<close>

text \<open>C1 (narrowing): whatever is revoked, denied and checked during the life of a realm, a request for a
  file, a variable or host information that its policy grants afterwards was granted at the start.
  The same holds for the network as long as neither the first policy nor one it is intersected with
  has a \<open>net\<close> grant with a wildcard below a wildcard, \<open>*.*.x\<close>; with one it can gain hosts
  (\<open>intersect_widens_nested_wildcard\<close>).\<close>

theorem realm_rights_only_shrink:
  assumes "access_kind a = Net \<longrightarrow> net_plain (policy c) \<and> list_all call_plain calls"
    and "is_ok (static_check os (policy (container_run calls c)) a)"
  shows "is_ok (static_check os (policy c) a)"
  using assms by (rule run_narrows)

theorem realm_rights_only_shrink_witness:
  "is_ok (static_check \<lparr>os_cwd = None, os_canonicalize = (\<lambda>_. None), os_vars = []\<rparr>
     (policy (container_new (permissions_none\<lparr>may_net := Only [\<lparr>rule_host = ''*.a.io'', rule_port = None\<rparr>]\<rparr>)))
     (Connect ''b.a.io'' (Some 443)))"
proof -
  let ?os = "\<lparr>os_cwd = None, os_canonicalize = (\<lambda>_. None), os_vars = []\<rparr>"
  let ?c = "container_new (permissions_none\<lparr>may_net := Only [\<lparr>rule_host = ''*.a.io'', rule_port = None\<rparr>]\<rparr>)"
  let ?calls = "[DenyMore ?os Net ''c.a.io'', Check ?os (Connect ''c.a.io'' (Some 80)),
      Revoke (permissions_none\<lparr>may_net := Only [\<lparr>rule_host = ''b.a.io'', rule_port = Some 443\<rparr>]\<rparr>)]"
  have "net_plain (policy ?c)" "list_all call_plain ?calls" by code_simp+
  moreover have "is_ok (static_check ?os (policy (container_run ?calls ?c)) (Connect ''b.a.io'' (Some 443)))" by code_simp
  ultimately show ?thesis
    using realm_rights_only_shrink [of "Connect ''b.a.io'' (Some 443)" ?c ?calls ?os] by blast
qed

text \<open>The requests \<open>deny\<close> is told to refuse. The path was resolved with the system \<open>os\<close> of that moment.\<close>

fun names_access :: "os \<Rightarrow> kind \<Rightarrow> string \<Rightarrow> os \<Rightarrow> access \<Rightarrow> bool" where
  "names_access os Read r os' (ReadPath s) = path_covers (path_rule_new os r) (checked_path_new os' s)"
| "names_access os Write r os' (WritePath s) = path_covers (path_rule_new os r) (checked_path_new os' s)"
| "names_access os Net r os' (Connect h port) =
     (case net_rule_parse r of Inl _ \<Rightarrow> False | Inr rule \<Rightarrow> net_covers rule (net_host h) port)"
| "names_access os Env r os' (GetEnv n) = (n = r)"
| "names_access os Sys r os' (GetSys i) = (sys_info_as_str i = r)"
| "names_access os _ r os' _ = False"

lemma sys_info_from_str_Some: "sys_info_from_str r = Inr i \<Longrightarrow> sys_info_as_str i = r"
  by (auto simp: sys_info_from_str_def find_Some_iff split: option.splits)

lemma sys_info_as_str_inj: "sys_info_as_str i = sys_info_as_str j \<longleftrightarrow> i = j"
  by (cases i; cases j) simp_all

lemma deny_denies:
  assumes "is_ok (fst (container_deny os k r c))" "names_access os k r os' a \<or> denies_access os' (policy c) a"
  shows "denies_access os' (policy (snd (container_deny os k r c))) a"
proof -
  have old: "denies_access os' (policy c) a \<Longrightarrow> ?thesis"
    using step_keeps_denies [of os' c a "DenyMore os k r"] by simp
  have new: "names_access os k r os' a \<Longrightarrow> ?thesis"
    using assms(1)
    by (cases "(os, k, r, os', a)" rule: names_access.cases)
      (auto simp: container_deny_def denies_access_def sys_info_as_str_inj is_ok_def
        split: sum.splits dest!: sys_info_from_str_Some)
  show ?thesis using assms(2) old new by blast
qed

text \<open>C19 (denials last): once \<open>deny\<close> accepted a resource of a kind, a request it covers, or one an
  earlier denial covers, is refused by the policy whatever is called on the realm later, revoking
  rights included: such a request is let through only if the realm has a hook and the hook, asked
  then, allows that very request.\<close>

theorem denied_stays_refused:
  fixes c k r os
  defines "c' \<equiv> snd (container_deny os k r c)"
  assumes "is_ok (fst (container_deny os k r c))" "names_access os k r os' a \<or> denies_access os' (policy c) a"
  shows "is_ok (fst (container_check os' a (container_run calls c'))) \<longleftrightarrow>
    (case hook c of
       None \<Rightarrow> False
     | Some h \<Rightarrow> h (asked (container_run calls c'))
         \<lparr>req_kind = access_kind a, req_resource = access_resource a\<rparr> = Allow)"
proof -
  have "\<not> is_ok (static_check os' (policy (container_run calls c')) a)"
    using run_keeps_denies [OF deny_denies [OF assms(2,3)]] unfolding c'_def by (rule denies_access_refused)
  moreover have "hook (container_run calls c') = hook c"
    unfolding run_keeps_hook c'_def by (auto simp: container_deny_def split: sum.splits)
  ultimately show ?thesis by (auto simp: container_check_eq decide_outcome split: option.splits)
qed

text \<open>C19: a host is denied, then everything is granted that can be kept, and the host is asked for.\<close>

theorem denied_stays_refused_witness:
  "\<not> is_ok (fst (container_check \<lparr>os_cwd = None, os_canonicalize = (\<lambda>_. None), os_vars = []\<rparr>
     (Connect ''api.a.io'' (Some 443))
     (container_run [Revoke permissions_all]
        (snd (container_deny \<lparr>os_cwd = None, os_canonicalize = (\<lambda>_. None), os_vars = []\<rparr> Net ''*.a.io''
          (container_new permissions_all))))))"
proof -
  let ?os = "\<lparr>os_cwd = None, os_canonicalize = (\<lambda>_. None), os_vars = []\<rparr>"
  have "is_ok (fst (container_deny ?os Net ''*.a.io'' (container_new permissions_all)))"
    "names_access ?os Net ''*.a.io'' ?os (Connect ''api.a.io'' (Some 443))" by code_simp+
  then show ?thesis
    using denied_stays_refused [of ?os Net "''*.a.io''" "container_new permissions_all" ?os
        "Connect ''api.a.io'' (Some 443)" "[Revoke permissions_all]"]
    by (simp add: container_new_def)
qed

text \<open>C28 (a decision): a request is let through exactly when the policy grants it or the hook, asked
  only because the policy refused, allows it; the policy stays as it is, the hook is asked at most
  once, and the audit gets one record, of this request and this outcome.\<close>

theorem container_check_decides:
  "let (r, c') = container_check os a c;
       request = \<lparr>req_kind = access_kind a, req_resource = access_resource a\<rparr>;
       granted = is_ok (static_check os (policy c) a)
   in (is_ok r \<longleftrightarrow> granted \<or> (case hook c of None \<Rightarrow> False | Some h \<Rightarrow> h (asked c) request = Allow))
      \<and> policy c' = policy c \<and> hook c' = hook c
      \<and> asked c' = asked c + (if granted \<or> hook c = None then 0 else 1)
      \<and> audit c' = map_option (\<lambda>l. l @ [(request, is_ok r)]) (audit c)"
  by (auto simp: container_check_eq Let_def case_prod_unfold decide_outcome decide_asked decide_audit
      split: option.splits)

text \<open>When \<open>has\<close> says a kind is held with no resource named, every request of that kind is
  granted.\<close>

theorem has_kind_grants_all:
  assumes "container_has os c (access_kind a) None = Inr True"
  shows "is_ok (fst (container_check os a c))"
proof -
  from assms have "is_ok (static_check os (policy c) a)"
    by (cases a) (auto simp: container_has_def Let_def guard_simps allow_is_all_iff)
  then show ?thesis by (simp add: container_check_eq decide_granted)
qed

theorem has_kind_grants_all_witness:
  "is_ok (fst (container_check \<lparr>os_cwd = None, os_canonicalize = (\<lambda>_. None), os_vars = []\<rparr>
     (ReadPath ''/etc/passwd'') (container_new (permissions_none\<lparr>may_read := AllowAll\<rparr>))))"
proof -
  have "container_has os (container_new (permissions_none\<lparr>may_read := AllowAll\<rparr>))
      (access_kind (ReadPath ''/etc/passwd'')) None = Inr True" for os
    by (simp add: container_has_def container_new_def permissions_none_def deny_default_def)
  then show ?thesis by (rule has_kind_grants_all)
qed

end
