(* ===== verification/Utf8.thy ===== *)
theory Utf8
  imports Prelude
begin

text \<open>
  UTF-8 as Rust's standard library reads it: which byte sequences are well formed and what
  \<open>String::from_utf8_lossy\<close> makes of the others, the characters of a text, and where a text may
  be cut without changing what the lossy reading makes of it. Used by the multipart parser, the
  encodings and the string decoder.
\<close>

text \<open>How many bytes a sequence has, by its first byte; 0 for a byte that begins none.\<close>

definition utf8_need :: "nat \<Rightarrow> nat" where
  "utf8_need b =
     (if b < 0x80 then 1 else if 0xC2 \<le> b \<and> b \<le> 0xDF then 2
      else if 0xE0 \<le> b \<and> b \<le> 0xEF then 3 else if 0xF0 \<le> b \<and> b \<le> 0xF4 then 4 else 0)"

text \<open>What may follow: the second byte is restricted for some first bytes.\<close>

definition utf8_follow :: "nat \<Rightarrow> nat \<Rightarrow> nat \<Rightarrow> bool" where
  "utf8_follow lead i b =
     (if i = 1 then
        (if lead = 0xE0 then 0xA0 \<le> b \<and> b \<le> 0xBF
         else if lead = 0xED then 0x80 \<le> b \<and> b \<le> 0x9F
         else if lead = 0xF0 then 0x90 \<le> b \<and> b \<le> 0xBF
         else if lead = 0xF4 then 0x80 \<le> b \<and> b \<le> 0x8F
         else 0x80 \<le> b \<and> b \<le> 0xBF)
      else 0x80 \<le> b \<and> b \<le> 0xBF)"

text \<open>The bytes of the sequence at hand: how many of the \<open>n\<close> that should follow do.\<close>

fun utf8_matched :: "nat \<Rightarrow> nat \<Rightarrow> nat \<Rightarrow> string \<Rightarrow> nat" where
  "utf8_matched lead i 0 s = 0"
| "utf8_matched lead i (Suc n) [] = 0"
| "utf8_matched lead i (Suc n) (c # cs) =
     (if utf8_follow lead i (of_char c) then Suc (utf8_matched lead (Suc i) n cs) else 0)"

text \<open>The first sequence of a text that is not empty: whether it is well formed, and its length, for
  an ill-formed one the length of its longest beginning of a well-formed one, at least 1.\<close>

definition utf8_first :: "string \<Rightarrow> bool \<times> nat" where
  "utf8_first s =
     (let lead = of_char (hd s); n = utf8_need lead
      in if n = 0 then (False, 1)
         else let m = utf8_matched lead 1 (n - 1) (tl s) in (m = n - 1, Suc m))"

function utf8_valid :: "string \<Rightarrow> bool" where
  "utf8_valid s =
     (if s = [] then True
      else let (ok, n) = utf8_first s in ok \<and> utf8_valid (drop n s))"
  by pat_completeness auto
termination
  by (relation "measure length") (auto simp: utf8_first_def Let_def split: if_splits)

function from_utf8_lossy :: "string \<Rightarrow> string" where
  "from_utf8_lossy s =
     (if s = [] then []
      else let (ok, n) = utf8_first s
           in (if ok then take n s else [CHR 0xEF, CHR 0xBF, CHR 0xBD]) @ from_utf8_lossy (drop n s))"
  by pat_completeness auto
termination
  by (relation "measure length") (auto simp: utf8_first_def Let_def split: if_splits)

declare utf8_valid.simps [simp del] from_utf8_lossy.simps [simp del]

lemma utf8_valid_Nil [simp]: "utf8_valid []"
  by (simp add: utf8_valid.simps)

text \<open>A well-formed text is left as it is.\<close>

lemma from_utf8_lossy_valid: "utf8_valid s \<Longrightarrow> from_utf8_lossy s = s"
proof (induction s rule: utf8_valid.induct)
  case (1 s)
  show ?case
  proof (cases "s = []")
    case False
    obtain ok n where first: "utf8_first s = (ok, n)" by force
    with "1.prems" False have "ok" "utf8_valid (drop n s)" by (auto simp: utf8_valid.simps [of s])
    with "1.IH" [OF False first [symmetric]] first False show ?thesis
      by (simp add: from_utf8_lossy.simps [of s])
  qed (simp add: from_utf8_lossy.simps)
qed

lemma utf8_matched_le: "utf8_matched lead i n s \<le> n \<and> utf8_matched lead i n s \<le> length s"
  by (induction lead i n s rule: utf8_matched.induct) auto

lemma utf8_matched_append:
  "utf8_matched lead i n s = n \<Longrightarrow> utf8_matched lead i n (s @ t) = n"
  by (induction lead i n s rule: utf8_matched.induct) (auto split: if_splits)

lemma utf8_first_append:
  assumes "utf8_first s = (True, n)" "s \<noteq> []"
  shows "utf8_first (s @ t) = (True, n) \<and> n \<le> length s"
proof -
  let ?lead = "of_char (hd s) :: nat"
  from assms have need: "utf8_need ?lead \<noteq> 0"
    and m: "utf8_matched ?lead 1 (utf8_need ?lead - 1) (tl s) = utf8_need ?lead - 1" "n = Suc (utf8_need ?lead - 1)"
    by (auto simp: utf8_first_def Let_def split: if_splits)
  have "utf8_need ?lead - 1 \<le> length (tl s)"
    using utf8_matched_le [of ?lead 1 "utf8_need ?lead - 1" "tl s"] m(1) by simp
  moreover obtain c cs where "s = c # cs" using assms(2) by (auto simp: neq_Nil_conv)
  ultimately show ?thesis using need m utf8_matched_append [OF m(1), of t]
    by (simp add: utf8_first_def Let_def)
qed

lemma utf8_valid_append: "utf8_valid s \<Longrightarrow> utf8_valid t \<Longrightarrow> utf8_valid (s @ t)"
proof (induction s rule: utf8_valid.induct)
  case (1 s)
  show ?case
  proof (cases "s = []")
    case False
    obtain ok n where first: "utf8_first s = (ok, n)" by force
    with "1.prems" False have ok: "ok" "utf8_valid (drop n s)" by (auto simp: utf8_valid.simps [of s])
    have app: "utf8_first (s @ t) = (True, n)" "n \<le> length s"
      using utf8_first_append [of s n t] first ok False by auto
    have "utf8_valid (drop n s @ t)" using "1.IH" [OF False first [symmetric]] ok "1.prems"(2) by simp
    with app False show ?thesis by (simp add: utf8_valid.simps [of "s @ t"])
  qed (use "1.prems" in simp)
qed

lemma utf8_valid_ascii: "list_all (\<lambda>c. (of_char c :: nat) < 128) s \<Longrightarrow> utf8_valid s"
proof (induction s)
  case (Cons c s)
  then show ?case by (simp add: utf8_valid.simps [of "c # s"] utf8_first_def utf8_need_def)
qed simp

subsection \<open>Characters\<close>

text \<open>Unicode scalar values (Rust's \<open>char\<close>), their encoding and the characters of a text.\<close>

definition scalar :: "nat \<Rightarrow> bool" where
  "scalar n = (n < 0xD800 \<or> (0xE000 \<le> n \<and> n < 0x110000))"

definition utf8_of :: "nat \<Rightarrow> string" where
  "utf8_of n =
     (if n < 0x80 then [char_of n]
      else if n < 0x800 then [char_of (0xC0 + n div 64), char_of (0x80 + n mod 64)]
      else if n < 0x10000 then
        [char_of (0xE0 + n div 4096), char_of (0x80 + n div 64 mod 64), char_of (0x80 + n mod 64)]
      else [char_of (0xF0 + n div 262144), char_of (0x80 + n div 4096 mod 64),
            char_of (0x80 + n div 64 mod 64), char_of (0x80 + n mod 64)])"

fun code_point :: "nat list \<Rightarrow> nat" where
  "code_point [a] = a"
| "code_point [a, b] = (a mod 32) * 64 + b mod 64"
| "code_point [a, b, c] = (a mod 16) * 4096 + (b mod 64) * 64 + c mod 64"
| "code_point [a, b, c, d] = (a mod 8) * 262144 + (b mod 64) * 4096 + (c mod 64) * 64 + d mod 64"
| "code_point bs = 0xFFFD"

function chars :: "string \<Rightarrow> nat list" where
  "chars s =
     (if s = [] then []
      else let n = snd (utf8_first s) in code_point (map of_char (take n s)) # chars (drop n s))"
  by pat_completeness auto
termination
  by (relation "measure length") (auto simp: utf8_first_def Let_def split: if_splits)

definition string_of :: "nat list \<Rightarrow> string" where
  "string_of cs = concat (map utf8_of cs)"

declare chars.simps [simp del]

lemma chars_Nil [simp]: "chars [] = []"
  by (simp add: chars.simps)

lemma string_of_simps [simp]: "string_of [] = []" "string_of (c # cs) = utf8_of c @ string_of cs"
    "string_of (cs @ ds) = string_of cs @ string_of ds"
  by (simp_all add: string_of_def)

lemma utf8_of_not_Nil [simp]: "utf8_of n \<noteq> []"
  by (simp add: utf8_of_def)

text \<open>Well-formed sequences, one rule for each length.\<close>

lemma utf8_first_wf:
  "a < 0x80 \<Longrightarrow> utf8_first (char_of a # s) = (True, 1)"
  "0xC2 \<le> a \<Longrightarrow> a \<le> 0xDF \<Longrightarrow> utf8_follow a 1 b \<Longrightarrow> b < 256 \<Longrightarrow>
     utf8_first (char_of a # char_of b # s) = (True, 2)"
  "0xE0 \<le> a \<Longrightarrow> a \<le> 0xEF \<Longrightarrow> utf8_follow a 1 b \<Longrightarrow> b < 256 \<Longrightarrow> utf8_follow a 2 c \<Longrightarrow> c < 256 \<Longrightarrow>
     utf8_first (char_of a # char_of b # char_of c # s) = (True, 3)"
  "0xF0 \<le> a \<Longrightarrow> a \<le> 0xF4 \<Longrightarrow> utf8_follow a 1 b \<Longrightarrow> b < 256 \<Longrightarrow> utf8_follow a 2 c \<Longrightarrow> c < 256 \<Longrightarrow>
     utf8_follow a 3 d \<Longrightarrow> d < 256 \<Longrightarrow>
     utf8_first (char_of a # char_of b # char_of c # char_of d # s) = (True, 4)"
  by (simp_all add: utf8_first_def utf8_need_def numeral_eq_Suc [of "num.Bit1 num.One"]
      numeral_2_eq_2 numeral_3_eq_3 Let_def)

lemma utf8_follow_cont: "i \<noteq> 1 \<Longrightarrow> 0x80 \<le> b \<Longrightarrow> b \<le> 0xBF \<Longrightarrow> utf8_follow a i b"
  by (simp add: utf8_follow_def)

text \<open>A number in base 64.\<close>

lemma base64_digits:
  fixes n :: nat
  shows "n = n div 64 * 64 + n mod 64" "n div 64 = n div 4096 * 64 + n div 64 mod 64"
    "n div 4096 = n div 262144 * 64 + n div 4096 mod 64"
proof -
  have "n div 4096 = n div 64 div 64" "n div 262144 = n div 4096 div 64"
    by (simp_all add: div_mult2_eq [symmetric])
  then show "n = n div 64 * 64 + n mod 64" "n div 64 = n div 4096 * 64 + n div 64 mod 64"
    "n div 4096 = n div 262144 * 64 + n div 4096 mod 64"
    by simp_all
qed

lemma base64_value:
  fixes n :: nat
  shows "n = n div 262144 * 262144 + n div 4096 mod 64 * 4096 + n div 64 mod 64 * 64 + n mod 64"
proof -
  have "n = p * 64 + y \<Longrightarrow> p = q * 64 + z \<Longrightarrow> q = v * 64 + t \<Longrightarrow>
      n = v * 262144 + t * 4096 + z * 64 + y" for p q v t z y :: nat
    by simp
  from this [OF base64_digits] show ?thesis .
qed

lemma utf8_first_utf8_of:
  assumes "scalar n"
  shows "utf8_first (utf8_of n @ s) = (True, length (utf8_of n))"
proof -
  define x y z w where "x = n div 64" and "y = n mod 64" and "z = n div 64 mod 64" and "w = n div 4096"
  note digits = base64_digits [of n, folded x_def y_def, folded x_def w_def]
  have lt: "y < 64" "z < 64" "n div 4096 mod 64 < 64" by (auto simp: y_def z_def)
  consider "n < 0x80" | "0x80 \<le> n" "n < 0x800" | "0x800 \<le> n" "n < 0x10000" | "0x10000 \<le> n" by linarith
  then show ?thesis
  proof cases
    case 1
    then show ?thesis by (simp add: utf8_of_def utf8_first_wf)
  next
    case 2
    have "2 \<le> x" "x < 32" using 2 digits(1) lt(1) by linarith+
    then have "utf8_follow (0xC0 + x) 1 (0x80 + y)" using lt by (simp add: utf8_follow_def)
    then have "utf8_first (char_of (0xC0 + x) # char_of (0x80 + y) # s) = (True, 2)"
      using \<open>2 \<le> x\<close> \<open>x < 32\<close> lt by (intro utf8_first_wf) auto
    with 2 show ?thesis by (simp add: utf8_of_def x_def y_def)
  next
    case 3
    have n: "n = w * 4096 + z * 64 + y"
      using base64_digits(1,2) [of n] unfolding w_def y_def z_def by linarith
    have "w < 16" using 3 n by linarith
    have rest: "w = 0 \<Longrightarrow> 32 \<le> z" "w = 13 \<Longrightarrow> z < 32"
      using 3 n lt assms unfolding scalar_def by linarith+
    then have "utf8_follow (0xE0 + w) 1 (0x80 + z)" using lt \<open>w < 16\<close> by (auto simp: utf8_follow_def)
    moreover have "utf8_follow (0xE0 + w) 2 (0x80 + y)" using lt by (intro utf8_follow_cont) auto
    ultimately have "utf8_first (char_of (0xE0 + w) # char_of (0x80 + z) # char_of (0x80 + y) # s) = (True, 3)"
      using \<open>w < 16\<close> lt by (intro utf8_first_wf) auto
    with 3 show ?thesis by (simp add: utf8_of_def w_def y_def z_def)
  next
    case 4
    define v t where "v = n div 262144" and "t = n div 4096 mod 64"
    have n: "n = v * 262144 + t * 4096 + z * 64 + y"
      unfolding v_def t_def z_def y_def by (rule base64_value)
    have t: "t < 64" by (simp add: t_def)
    have top: "n < 0x110000" using assms 4 by (auto simp: scalar_def)
    have "v \<le> 4" using top n by linarith
    moreover have "v = 0 \<Longrightarrow> 16 \<le> t" using 4 n lt by linarith
    moreover have "v = 4 \<Longrightarrow> t < 16" using top n by linarith
    moreover note t
    moreover from calculation have "utf8_follow (0xF0 + v) 1 (0x80 + t)" by (auto simp: utf8_follow_def)
    moreover have "utf8_follow (0xF0 + v) 2 (0x80 + z)" "utf8_follow (0xF0 + v) 3 (0x80 + y)"
      using lt by (auto intro!: utf8_follow_cont)
    ultimately have "utf8_first (char_of (0xF0 + v) # char_of (0x80 + t) # char_of (0x80 + z)
        # char_of (0x80 + y) # s) = (True, 4)"
      using lt by (intro utf8_first_wf) auto
    with 4 show ?thesis by (simp add: utf8_of_def v_def t_def y_def z_def)
  qed
qed

lemma code_point_digits:
  "x < 32 \<Longrightarrow> y < 64 \<Longrightarrow> code_point [0xC0 + x, 0x80 + y] = x * 64 + y"
  "x < 16 \<Longrightarrow> y < 64 \<Longrightarrow> z < 64 \<Longrightarrow> code_point [0xE0 + x, 0x80 + z, 0x80 + y] = x * 4096 + z * 64 + y"
  "x < 8 \<Longrightarrow> y < 64 \<Longrightarrow> z < 64 \<Longrightarrow> t < 64 \<Longrightarrow>
     code_point [0xF0 + x, 0x80 + t, 0x80 + z, 0x80 + y] = x * 262144 + t * 4096 + z * 64 + y"
proof -
  have "(0xC0 + k) mod 32 = k mod 32" "(0xE0 + k) mod 16 = k mod 16" "(0xF0 + k) mod 8 = k mod 8"
    "(0x80 + k) mod 64 = k mod 64" for k :: nat
    using mod_mult_self4 [of 32 6 k] mod_mult_self4 [of 16 14 k] mod_mult_self4 [of 8 30 k]
      mod_mult_self4 [of 64 2 k] by simp_all
  then show
    "x < 32 \<Longrightarrow> y < 64 \<Longrightarrow> code_point [0xC0 + x, 0x80 + y] = x * 64 + y"
    "x < 16 \<Longrightarrow> y < 64 \<Longrightarrow> z < 64 \<Longrightarrow> code_point [0xE0 + x, 0x80 + z, 0x80 + y] = x * 4096 + z * 64 + y"
    "x < 8 \<Longrightarrow> y < 64 \<Longrightarrow> z < 64 \<Longrightarrow> t < 64 \<Longrightarrow>
       code_point [0xF0 + x, 0x80 + t, 0x80 + z, 0x80 + y] = x * 262144 + t * 4096 + z * 64 + y"
    by simp_all
qed

lemma code_point_utf8_of:
  assumes "n < 0x110000"
  shows "code_point (map of_char (utf8_of n)) = n"
proof -
  note digits = base64_value [of n, symmetric]
  consider "n < 0x80" | "0x80 \<le> n" "n < 0x800" | "0x800 \<le> n" "n < 0x10000" | "0x10000 \<le> n" by linarith
  then show ?thesis
  proof cases
    case 2
    then have "map of_char (utf8_of n) = [0xC0 + n div 64, 0x80 + n mod 64]" "n div 64 < 32"
      by (auto simp: utf8_of_def)
    then show ?thesis using base64_digits(1) [of n] by (simp only: code_point_digits)
  next
    case 3
    then have "map of_char (utf8_of n) = [0xE0 + n div 4096, 0x80 + n div 64 mod 64, 0x80 + n mod 64]"
      and small: "n div 4096 < 16"
      by (auto simp: utf8_of_def)
    moreover have "n div 4096 * 4096 + n div 64 mod 64 * 64 + n mod 64 = n"
      using base64_value [of n] small by simp
    ultimately show ?thesis by (simp only: code_point_digits)
  next
    case 4
    then have "map of_char (utf8_of n) = [0xF0 + n div 262144, 0x80 + n div 4096 mod 64,
        0x80 + n div 64 mod 64, 0x80 + n mod 64]" "n div 262144 < 8"
      using assms by (auto simp: utf8_of_def)
    then show ?thesis using digits by (simp only: code_point_digits)
  qed (simp add: utf8_of_def)
qed

lemma chars_utf8_of: "scalar n \<Longrightarrow> chars (utf8_of n @ s) = n # chars s"
  by (subst chars.simps)
    (auto simp: utf8_first_utf8_of code_point_utf8_of scalar_def)

lemma chars_string_of: "\<forall>c \<in> set cs. scalar c \<Longrightarrow> chars (string_of cs) = cs"
  by (induction cs) (auto simp: chars_utf8_of)

lemma utf8_valid_utf8_of: "scalar n \<Longrightarrow> utf8_valid (utf8_of n)"
  using utf8_first_utf8_of [of n "[]"] by (simp add: utf8_valid.simps [of "utf8_of n"])

lemma utf8_valid_string_of: "\<forall>c \<in> set cs. scalar c \<Longrightarrow> utf8_valid (string_of cs)"
  by (induction cs) (auto intro: utf8_valid_append utf8_valid_utf8_of)

text \<open>And back: a well-formed sequence is the encoding of the scalar value it stands for.\<close>

lemma digit64:
  fixes p y :: nat
  assumes "y < 64"
  shows "(p * 64 + y) div 64 = p" "(p * 64 + y) mod 64 = y"
  using assms by simp_all

lemma utf8_of_digits:
  "2 \<le> x \<Longrightarrow> x < 32 \<Longrightarrow> y < 64 \<Longrightarrow> utf8_of (x * 64 + y) = [char_of (0xC0 + x), char_of (0x80 + y)]"
  "x < 16 \<Longrightarrow> z < 64 \<Longrightarrow> y < 64 \<Longrightarrow> (x = 0 \<Longrightarrow> 32 \<le> z) \<Longrightarrow>
     utf8_of (x * 4096 + z * 64 + y) = [char_of (0xE0 + x), char_of (0x80 + z), char_of (0x80 + y)]"
  "x < 5 \<Longrightarrow> t < 64 \<Longrightarrow> z < 64 \<Longrightarrow> y < 64 \<Longrightarrow> (x = 0 \<Longrightarrow> 16 \<le> t) \<Longrightarrow>
     utf8_of (x * 262144 + t * 4096 + z * 64 + y)
       = [char_of (0xF0 + x), char_of (0x80 + t), char_of (0x80 + z), char_of (0x80 + y)]"
proof -
  show "2 \<le> x \<Longrightarrow> x < 32 \<Longrightarrow> y < 64 \<Longrightarrow> utf8_of (x * 64 + y) = [char_of (0xC0 + x), char_of (0x80 + y)]"
    by (simp add: utf8_of_def)
next
  assume a: "x < 16" "z < 64" "y < 64" "x = 0 \<Longrightarrow> 32 \<le> z"
  define n where "n = x * 4096 + z * 64 + y"
  have n1: "n = (x * 64 + z) * 64 + y" by (simp add: n_def)
  have "n div 64 = x * 64 + z" "n mod 64 = y" unfolding n1 using a(3) by (simp_all only: digit64)
  moreover from this have "n div 64 mod 64 = z" "n div 64 div 64 = x" using a(2) by (simp_all only: digit64)
  moreover have "n div 4096 = n div 64 div 64" by (simp add: div_mult2_eq [symmetric])
  moreover have "\<not> n < 0x800" "n < 0x10000" unfolding n_def using a by (cases "x = 0"; simp)+
  ultimately have "utf8_of n = [char_of (0xE0 + x), char_of (0x80 + z), char_of (0x80 + y)]"
    by (simp add: utf8_of_def)
  then show "utf8_of (x * 4096 + z * 64 + y) = [char_of (0xE0 + x), char_of (0x80 + z), char_of (0x80 + y)]"
    by (simp add: n_def)
next
  assume a: "x < 5" "t < 64" "z < 64" "y < 64" "x = 0 \<Longrightarrow> 16 \<le> t"
  define n where "n = x * 262144 + t * 4096 + z * 64 + y"
  have n1: "n = ((x * 64 + t) * 64 + z) * 64 + y" by (simp add: n_def)
  have "n div 64 = (x * 64 + t) * 64 + z" "n mod 64 = y" unfolding n1 using a(4) by (simp_all only: digit64)
  moreover from this have "n div 64 mod 64 = z" "n div 64 div 64 = x * 64 + t" using a(3) by (simp_all only: digit64)
  moreover have "n div 4096 = n div 64 div 64" "n div 262144 = n div 64 div 64 div 64"
    by (simp_all add: div_mult2_eq [symmetric])
  ultimately have "utf8_of n = [char_of (0xF0 + x), char_of (0x80 + t), char_of (0x80 + z), char_of (0x80 + y)]"
    if "\<not> n < 0x10000" using that a by (simp add: utf8_of_def)
  moreover have "\<not> n < 0x10000" unfolding n_def using a by (cases "x = 0"; simp)
  ultimately show "utf8_of (x * 262144 + t * 4096 + z * 64 + y)
       = [char_of (0xF0 + x), char_of (0x80 + t), char_of (0x80 + z), char_of (0x80 + y)]"
    by (simp add: n_def)
qed

text \<open>What a well-formed first sequence looks like.\<close>

lemma utf8_matched_full:
  "utf8_matched lead i n s = n \<Longrightarrow> n \<noteq> 0 \<Longrightarrow>
     \<exists>c cs. s = c # cs \<and> utf8_follow lead i (of_char c) \<and> utf8_matched lead (Suc i) (n - 1) cs = n - 1"
  by (cases n; cases s) (auto split: if_splits)

lemma utf8_follow_range:
  "utf8_follow l i b \<Longrightarrow> \<exists>y < 64. b = 0x80 + y"
  by (rule exI [of _ "b - 0x80"]) (auto simp: utf8_follow_def split: if_splits)

lemma utf8_first_Some:
  assumes "utf8_first s = (True, n)" "s \<noteq> []"
  shows "\<exists>p. scalar p \<and> s = utf8_of p @ drop n s \<and> n = length (utf8_of p)"
proof -
  obtain c cs where s: "s = c # cs" using assms(2) by (cases s) auto
  define l where "l = (of_char c :: nat)"
  have c: "c = char_of l" by (simp add: l_def)
  have need: "utf8_need l \<noteq> 0" "utf8_matched l 1 (utf8_need l - 1) cs = utf8_need l - 1" "n = utf8_need l"
    using assms by (auto simp: utf8_first_def Let_def s l_def split: if_splits)
  consider "l < 0x80" "utf8_need l = 1" | "0xC2 \<le> l" "l \<le> 0xDF" "utf8_need l = 2"
    | "0xE0 \<le> l" "l \<le> 0xEF" "utf8_need l = 3" | "0xF0 \<le> l" "l \<le> 0xF4" "utf8_need l = 4"
    using need(1) by (auto simp: utf8_need_def split: if_splits)
  then show ?thesis
  proof cases
    case 1
    then show ?thesis using need(3) by (intro exI [of _ l]) (simp add: s c scalar_def utf8_of_def)
  next
    case 2
    obtain b rest where "cs = b # rest" "utf8_follow l 1 (of_char b)"
      using utf8_matched_full [OF need(2)] 2 by auto
    moreover from this obtain y where "y < 64" "of_char b = (0x80 + y :: nat)" using utf8_follow_range by blast
    moreover define x where "x = l - 0xC0"
    have x: "l = 0xC0 + x" "2 \<le> x" "x < 32" using 2 by (auto simp: x_def)
    moreover from calculation have "b = char_of (0x80 + y)" by (metis char_of_char)
    ultimately show ?thesis using need(3) 2(3)
      by (intro exI [of _ "x * 64 + y"]) (simp add: s c utf8_of_digits scalar_def)
  next
    case 3
    obtain b rest where b: "cs = b # rest" "utf8_follow l 1 (of_char b)" "utf8_matched l 2 1 rest = 1"
      using utf8_matched_full [OF need(2)] 3 by (auto simp: numeral_2_eq_2)
    obtain d rest' where d: "rest = d # rest'" "utf8_follow l 2 (of_char d)"
      using utf8_matched_full [OF b(3)] by auto
    obtain z y where zy: "z < 64" "of_char b = (0x80 + z :: nat)" "y < 64" "of_char d = (0x80 + y :: nat)"
      using utf8_follow_range b(2) d(2) by blast
    define x where "x = l - 0xE0"
    have x: "l = 0xE0 + x" "x < 16" using 3 by (auto simp: x_def)
    have "b = char_of (0x80 + z)" "d = char_of (0x80 + y)" using zy by (metis char_of_char)+
    moreover have edge: "x = 0 \<Longrightarrow> 32 \<le> z" "x = 13 \<Longrightarrow> z < 32"
      using b(2) zy x by (auto simp: utf8_follow_def)
    moreover have "scalar (x * 4096 + z * 64 + y)"
      using x(2) zy(1,3) edge unfolding scalar_def by (cases "x = 13"; cases "x < 13") linarith+
    ultimately show ?thesis using need(3) 3 x zy
      by (intro exI [of _ "x * 4096 + z * 64 + y"]) (simp add: s c b(1) d(1) utf8_of_digits)
  next
    case 4
    obtain b rest where b: "cs = b # rest" "utf8_follow l 1 (of_char b)" "utf8_matched l 2 2 rest = 2"
      using utf8_matched_full [OF need(2)] 4 by (auto simp: numeral_2_eq_2)
    obtain d rest' where d: "rest = d # rest'" "utf8_follow l 2 (of_char d)" "utf8_matched l 3 1 rest' = 1"
      using utf8_matched_full [OF b(3)] by (auto simp: numeral_2_eq_2 numeral_3_eq_3)
    obtain e rest'' where e: "rest' = e # rest''" "utf8_follow l 3 (of_char e)"
      using utf8_matched_full [OF d(3)] by auto
    obtain t z y where zy: "t < 64" "of_char b = (0x80 + t :: nat)" "z < 64" "of_char d = (0x80 + z :: nat)"
        "y < 64" "of_char e = (0x80 + y :: nat)"
      using utf8_follow_range [OF b(2)] utf8_follow_range [OF d(2)] utf8_follow_range [OF e(2)] by metis
    define x where "x = l - 0xF0"
    have x: "l = 0xF0 + x" "x < 5" using 4 by (auto simp: x_def)
    have "b = char_of (0x80 + t)" "d = char_of (0x80 + z)" "e = char_of (0x80 + y)"
      using zy by (metis char_of_char)+
    moreover have edge: "x = 0 \<Longrightarrow> 16 \<le> t" "x = 4 \<Longrightarrow> t < 16"
      using b(2) zy x by (auto simp: utf8_follow_def)
    moreover have "scalar (x * 262144 + t * 4096 + z * 64 + y)"
      using x(2) zy edge unfolding scalar_def by (cases "x = 0"; cases "x = 4") linarith+
    ultimately show ?thesis using need(3) 4 x zy
      by (intro exI [of _ "x * 262144 + t * 4096 + z * 64 + y"])
        (simp add: s c b(1) d(1) e(1) utf8_of_digits)
  qed
qed

lemma utf8_valid_iff: "utf8_valid s \<longleftrightarrow> (\<exists>cs. (\<forall>c \<in> set cs. scalar c) \<and> s = string_of cs)"
proof
  show "utf8_valid s \<Longrightarrow> \<exists>cs. (\<forall>c \<in> set cs. scalar c) \<and> s = string_of cs"
  proof (induction s rule: utf8_valid.induct)
    case (1 s)
    show ?case
    proof (cases "s = []")
      case False
      obtain ok n where first: "utf8_first s = (ok, n)" by force
      with "1.prems" False have ok: "ok" "utf8_valid (drop n s)" by (auto simp: utf8_valid.simps [of s])
      obtain cs where cs: "\<forall>c \<in> set cs. scalar c" "drop n s = string_of cs"
        using "1.IH" [OF False first [symmetric]] ok by auto
      obtain p where "scalar p" "s = utf8_of p @ drop n s"
        using utf8_first_Some [of s n] first ok False by auto
      then show ?thesis using cs by (intro exI [of _ "p # cs"]) auto
    qed (auto intro: exI [of _ "[]"])
  qed
qed (auto intro: utf8_valid_string_of)

lemma string_of_chars: "utf8_valid s \<Longrightarrow> string_of (chars s) = s"
  by (auto simp: utf8_valid_iff chars_string_of)

lemma chars_scalar: "utf8_valid s \<Longrightarrow> \<forall>c \<in> set (chars s). scalar c"
  by (auto simp: utf8_valid_iff chars_string_of)

subsection \<open>Cutting a text\<close>

text \<open>
  Reading a text in pieces. The lossy reading of \<open>a @ b\<close> is that of \<open>a\<close> followed by that of \<open>b\<close>
  unless a sequence left incomplete at the end of \<open>a\<close> goes on in \<open>b\<close>.
\<close>

definition utf8_cont :: "char \<Rightarrow> bool" where
  "utf8_cont c = (let n = of_char c :: nat in 0x80 \<le> n \<and> n \<le> 0xBF)"

function settled :: "string \<Rightarrow> bool" where
  "settled s =
     (if s = [] then True
      else let (ok, n) = utf8_first s
           in (ok \<or> utf8_need (of_char (hd s)) = 0 \<or> n < length s) \<and> settled (drop n s))"
  by pat_completeness auto
termination
  by (relation "measure length") (auto simp: utf8_first_def Let_def split: if_splits)

declare settled.simps [simp del]

lemma settled_Nil [simp]: "settled []"
  by (simp add: settled.simps)

definition seam :: "string \<Rightarrow> string \<Rightarrow> bool" where
  "seam a b = (settled a \<or> b = [] \<or> \<not> utf8_cont (hd b))"

lemma utf8_follow_imp_cont: "utf8_follow l i (of_char c) \<Longrightarrow> utf8_cont c"
  by (auto simp: utf8_follow_def utf8_cont_def Let_def split: if_splits)

lemma utf8_matched_seam:
  "utf8_matched l i n a = n \<or> utf8_matched l i n a < length a \<or> b = [] \<or> \<not> utf8_cont (hd b) \<Longrightarrow>
     utf8_matched l i n (a @ b) = utf8_matched l i n a"
proof (induction l i n a rule: utf8_matched.induct)
  case (2 lead i n)
  then show ?case by (cases b) (auto dest: utf8_follow_imp_cont)
qed (auto split: if_splits)

lemma utf8_first_length: "utf8_first s = (ok, n) \<Longrightarrow> s \<noteq> [] \<Longrightarrow> 0 < n \<and> n \<le> length s"
  using utf8_matched_le [of "of_char (hd s)" 1 "utf8_need (of_char (hd s)) - 1" "tl s"]
  by (cases s) (auto simp: utf8_first_def Let_def split: if_splits)

lemma seam_step:
  assumes "a \<noteq> []" "seam a b" "utf8_first a = (ok, n)"
  shows "utf8_first (a @ b) = (ok, n)" "seam (drop n a) b"
proof -
  obtain c cs where a: "a = c # cs" using assms(1) by (cases a) auto
  let ?l = "of_char c :: nat"
  have "utf8_matched ?l 1 (utf8_need ?l - 1) (cs @ b) = utf8_matched ?l 1 (utf8_need ?l - 1) cs"
    if "utf8_need ?l \<noteq> 0"
    using assms that by (intro utf8_matched_seam)
      (auto simp: seam_def settled.simps [of "c # cs"] utf8_first_def a Let_def split: if_splits)
  then show "utf8_first (a @ b) = (ok, n)" using assms(3) by (auto simp: utf8_first_def a Let_def)
  show "seam (drop n a) b" using assms by (auto simp: seam_def settled.simps [of a])
qed

lemma lossy_seam: "seam a b \<Longrightarrow> from_utf8_lossy (a @ b) = from_utf8_lossy a @ from_utf8_lossy b"
proof (induction a rule: settled.induct)
  case (1 a)
  show ?case
  proof (cases "a = []")
    case False
    obtain ok n where first: "utf8_first a = (ok, n)" by force
    note step = seam_step [OF False "1.prems" first]
    note len = utf8_first_length [OF first False]
    have "from_utf8_lossy (drop n a @ b) = from_utf8_lossy (drop n a) @ from_utf8_lossy b"
      by (rule "1.IH" [OF False first [symmetric] refl step(2)])
    with step(1) first len False show ?thesis
      by (simp add: from_utf8_lossy.simps [of "a @ b"] from_utf8_lossy.simps [of a])
  qed (simp add: from_utf8_lossy.simps)
qed

lemma settled_seam: "seam a b \<Longrightarrow> settled b \<Longrightarrow> b \<noteq> [] \<Longrightarrow> settled (a @ b)"
proof (induction a rule: settled.induct)
  case (1 a)
  show ?case
  proof (cases "a = []")
    case False
    obtain ok n where first: "utf8_first a = (ok, n)" by force
    note step = seam_step [OF False "1.prems"(1) first]
    note len = utf8_first_length [OF first False]
    have "n < length (a @ b)" using len "1.prems"(3) by (cases b) auto
    moreover have "settled (drop n a @ b)"
      by (rule "1.IH" [OF False first [symmetric] refl step(2) "1.prems"(2,3)])
    ultimately show ?thesis using step(1) len False by (simp add: settled.simps [of "a @ b"])
  qed (use "1.prems" in simp)
qed

lemma settled_append: "settled a \<Longrightarrow> settled b \<Longrightarrow> settled (a @ b)"
  by (cases "b = []") (auto intro: settled_seam simp: seam_def)

lemma utf8_need_cont: "utf8_cont c \<Longrightarrow> utf8_need (of_char c) = 0"
  by (auto simp: utf8_cont_def utf8_need_def Let_def)

lemma settled_conts: "list_all utf8_cont s \<Longrightarrow> settled s"
proof (induction s)
  case (Cons c s)
  then show ?case by (simp add: settled.simps [of "c # s"] utf8_first_def utf8_need_cont)
qed simp

lemma list_all_drop: "list_all P s \<Longrightarrow> list_all P (drop n s)"
  by (auto simp: list_all_iff dest: in_set_dropD)

text \<open>A first byte with as many continuation bytes as it asks for, or more.\<close>

lemma settled_lead:
  assumes "list_all utf8_cont cs" "utf8_need (of_char l) \<le> Suc (length cs)"
  shows "settled (l # cs)"
proof (cases "utf8_need (of_char l) = 0")
  case True
  then show ?thesis using assms by (simp add: settled.simps [of "l # cs"] utf8_first_def settled_conts)
next
  case False
  let ?m = "utf8_matched (of_char l) 1 (utf8_need (of_char l) - 1) cs"
  have "?m \<le> utf8_need (of_char l) - 1" "settled (drop ?m cs)"
    using utf8_matched_le assms(1) by (auto intro!: settled_conts list_all_drop)
  then show ?thesis using False assms(2)
    by (auto simp: settled.simps [of "l # cs"] utf8_first_def Let_def)
qed

lemma settled_tail:
  assumes "list_all utf8_cont cs" "utf8_need (of_char l) \<le> Suc (length cs)" "\<not> utf8_cont l"
  shows "settled (x @ l # cs)"
  using settled_seam [of x "l # cs"] settled_lead [OF assms(1,2)] assms(3) by (simp add: seam_def)

text \<open>Three continuation bytes at the end complete any sequence.\<close>

lemma utf8_need_le: "utf8_need b \<le> 4"
  by (simp add: utf8_need_def)

lemma settled_three:
  assumes "list_all utf8_cont cs" "3 \<le> length cs"
  shows "settled (x @ cs)"
proof -
  let ?r = "takeWhile utf8_cont (rev x)" and ?q = "dropWhile utf8_cont (rev x)"
  have x: "x = rev ?q @ rev ?r" by (metis rev_append rev_rev_ident takeWhile_dropWhile_id)
  have conts: "list_all utf8_cont (rev ?r @ cs)"
    using assms(1) by (auto simp: list_all_iff dest: set_takeWhileD)
  show ?thesis
  proof (cases ?q)
    case Nil
    then have "list_all utf8_cont (x @ cs)" using assms(1) by (auto simp: list_all_iff)
    then show ?thesis by (rule settled_conts)
  next
    case (Cons l q)
    then have "\<not> utf8_cont l" by (metis hd_dropWhile list.distinct(1) list.sel(1))
    moreover have "utf8_need (of_char l) \<le> Suc (length (rev ?r @ cs))"
      using utf8_need_le [of "of_char l"] assms(2) by simp
    ultimately have "settled (rev q @ l # (rev ?r @ cs))" using conts by (intro settled_tail)
    moreover have "x @ cs = rev q @ l # (rev ?r @ cs)" using x Cons
      by (metis append.assoc append_Cons append_Nil rev.simps(2))
    ultimately show ?thesis by (simp only:)
  qed
qed

end
