(* ===== verification/Encodings.thy ===== *)
theory Encodings
  imports Utf8
begin

text \<open>
  \<open>crates/ferrijs-std/src/encoding/mod.rs\<close>: the encodings of \<open>Buffer\<close>, \<open>TextDecoder\<close> and
  \<open>StringDecoder\<close>, their labels and their conversions between bytes and text.

  Bytes and texts are both \<^typ>\<open>string\<close>: a byte is a character, a Rust \<open>String\<close> its UTF-8 bytes
  and \<open>chars\<close> the scalar values in it. The encoders of the crates \<open>hex-simd\<close> and \<open>base64-simd\<close> are
  the parameter \<open>simd\<close>; \<open>simd_ok\<close> says that they produce the texts of RFC 4648.
\<close>

unbundle bit_operations_syntax

type_synonym byte = "8 word"

definition byte :: "char \<Rightarrow> byte" where
  "byte c = of_nat (of_char c)"

definition of_byte :: "byte \<Rightarrow> char" where
  "of_byte w = char_of (unat w)"

lemma byte_of_byte [simp]: "byte (of_byte w) = w"
proof -
  have "unat w < 256" using unsigned_less [of w, where 'a = nat] by simp
  then show ?thesis by (simp add: byte_def of_byte_def)
qed

lemma unat_byte [simp]: "unat (byte c) = of_char c"
  by (simp add: byte_def unat_of_nat)

lemma of_byte_byte [simp]: "of_byte (byte c) = c"
  by (simp add: of_byte_def)

lemma of_byte_of_nat [simp]: "of_byte (of_nat n) = char_of n"
  by (simp add: of_byte_def unat_of_nat del: char_of_nat)

subsection \<open>The encodings and their labels\<close>

datatype encoder = Hex | Base64 | Base64Url | Windows1252 | Latin1 | Ascii | Utf8 | Utf16le | Utf16be

definition is_ascii_whitespace :: "char \<Rightarrow> bool" where
  "is_ascii_whitespace c = (c \<in> {CHR '' '', CHR 0x09, CHR 0x0A, CHR 0x0C, CHR 0x0D})"

definition trim_ascii :: "string \<Rightarrow> string" where
  "trim_ascii s = rev (dropWhile is_ascii_whitespace (rev (dropWhile is_ascii_whitespace s)))"

definition NODE_ENCODING_MAP :: "(string \<times> encoder) list" where
  "NODE_ENCODING_MAP =
    [(''buffer'', Utf8), (''hex'', Hex), (''base64'', Base64), (''base64url'', Base64Url),
     (''utf-8'', Utf8), (''utf8'', Utf8), (''ucs-2'', Utf16le), (''ucs2'', Utf16le),
     (''utf-16le'', Utf16le), (''utf16le'', Utf16le), (''latin1'', Latin1), (''binary'', Latin1),
     (''ascii'', Ascii)]"

definition ENCODING_MAP :: "(string \<times> encoder) list" where
  "ENCODING_MAP =
    [(''ascii'', Windows1252), (''latin1'', Windows1252), (''buffer'', Utf8), (''hex'', Hex),
     (''base64'', Base64), (''unicode-1-1-utf-8'', Utf8), (''unicode11utf8'', Utf8),
     (''unicode20utf8'', Utf8), (''utf-8'', Utf8), (''utf8'', Utf8), (''x-unicode20utf8'', Utf8),
     (''csunicode'', Utf16le), (''iso-10646-ucs-2'', Utf16le), (''ucs-2'', Utf16le),
     (''ucs2'', Utf16le), (''unicode'', Utf16le), (''unicodefeff'', Utf16le),
     (''utf-16'', Utf16le), (''utf-16le'', Utf16le), (''utf16le'', Utf16le),
     (''unicodefffe'', Utf16be), (''utf-16be'', Utf16be), (''ansi_x3.4-1968'', Windows1252),
     (''cp1252'', Windows1252), (''cp819'', Windows1252), (''csisolatin1'', Windows1252),
     (''ibm819'', Windows1252), (''iso-8859-1'', Windows1252), (''iso-ir-100'', Windows1252),
     (''iso8859-1'', Windows1252), (''iso88591'', Windows1252), (''iso_8859-1'', Windows1252),
     (''iso_8859-1:1987'', Windows1252), (''l1'', Windows1252), (''us-ascii'', Windows1252),
     (''windows-1252'', Windows1252), (''x-cp1252'', Windows1252)]"

definition encoding_not_supported :: "string \<Rightarrow> string" where
  "encoding_not_supported label = ''The '' @ [CHR 0x22] @ label @ [CHR 0x22] @ '' encoding is not supported''"

definition from_str :: "string \<Rightarrow> string + encoder" where
  "from_str encoding =
     (case map_of NODE_ENCODING_MAP (to_ascii_lowercase (trim_ascii encoding)) of
        Some e \<Rightarrow> Inr e
      | None \<Rightarrow> Inl (encoding_not_supported encoding))"

definition from_web_label :: "string \<Rightarrow> string + encoder" where
  "from_web_label label =
     (case map_of ENCODING_MAP (to_ascii_lowercase (trim_ascii label)) of
        Some e \<Rightarrow> Inr e
      | None \<Rightarrow> Inl (encoding_not_supported label))"

definition from_optional_str :: "string option \<Rightarrow> string + encoder" where
  "from_optional_str encoding =
     (case encoding of Some label \<Rightarrow> if label \<noteq> [] then from_str label else Inr Utf8 | None \<Rightarrow> Inr Utf8)"

definition from_optional_web_label :: "string option \<Rightarrow> string + encoder" where
  "from_optional_web_label encoding =
     (case encoding of Some label \<Rightarrow> if label \<noteq> [] then from_web_label label else Inr Utf8 | None \<Rightarrow> Inr Utf8)"

fun as_label :: "encoder \<Rightarrow> string" where
  "as_label Hex = ''hex''"
| "as_label Base64 = ''base64''"
| "as_label Base64Url = ''base64url''"
| "as_label Windows1252 = ''windows-1252''"
| "as_label Latin1 = ''latin1''"
| "as_label Ascii = ''ascii''"
| "as_label Utf8 = ''utf-8''"
| "as_label Utf16le = ''utf-16le''"
| "as_label Utf16be = ''utf-16be''"

subsection \<open>windows-1252\<close>

definition WINDOWS_1252_HIGH :: "nat list" where
  "WINDOWS_1252_HIGH =
    [0x20AC, 0x0081, 0x201A, 0x0192, 0x201E, 0x2026, 0x2020, 0x2021,
     0x02C6, 0x2030, 0x0160, 0x2039, 0x0152, 0x008D, 0x017D, 0x008F,
     0x0090, 0x2018, 0x2019, 0x201C, 0x201D, 0x2022, 0x2013, 0x2014,
     0x02DC, 0x2122, 0x0161, 0x203A, 0x0153, 0x009D, 0x017E, 0x0178]"

fun position :: "'a \<Rightarrow> 'a list \<Rightarrow> nat option" where
  "position x [] = None"
| "position x (y # ys) = (if y = x then Some 0 else map_option Suc (position x ys))"

definition windows_1252_char :: "char \<Rightarrow> nat" where
  "windows_1252_char c =
     (let b = of_char c in if 0x80 \<le> b \<and> b \<le> 0x9F then WINDOWS_1252_HIGH ! (b - 0x80) else b)"

definition windows_1252_to_string :: "string \<Rightarrow> string" where
  "windows_1252_to_string bytes = string_of (map windows_1252_char bytes)"

definition char_to_windows_1252 :: "nat \<Rightarrow> char" where
  "char_to_windows_1252 c =
     (case position c WINDOWS_1252_HIGH of
        Some index \<Rightarrow> char_of (0x80 + index)
      | None \<Rightarrow> if c < 256 then char_of c else CHR ''?'')"

definition string_to_windows_1252 :: "string \<Rightarrow> string" where
  "string_to_windows_1252 s = map char_to_windows_1252 (chars s)"

subsection \<open>Hexadecimal and base64\<close>

record simd =
  hex_encode :: "string \<Rightarrow> string"
  base64_standard :: "string \<Rightarrow> string"
  base64_url_no_pad :: "string \<Rightarrow> string"
  forgiving_decode :: "string \<Rightarrow> string + string"
  standard_decode :: "string \<Rightarrow> string + string"
  url_no_pad_decode :: "string \<Rightarrow> string + string"

definition to_digit16 :: "char \<Rightarrow> nat option" where
  "to_digit16 c =
     (let n = of_char c in
      if 48 \<le> n \<and> n \<le> 57 then Some (n - 48)
      else if 97 \<le> n \<and> n \<le> 102 then Some (n - 87)
      else if 65 \<le> n \<and> n \<le> 70 then Some (n - 55) else None)"

fun hex_pairs :: "string \<Rightarrow> string" where
  "hex_pairs (first # second # rest) =
     (case (to_digit16 first, to_digit16 second) of
        (Some hi, Some lo) \<Rightarrow> of_byte (of_nat (push_bit 4 hi OR lo)) # hex_pairs rest
      | _ \<Rightarrow> [])"
| "hex_pairs _ = []"

definition bytes_from_hex :: "string \<Rightarrow> string + string" where
  "bytes_from_hex bytes = Inr (hex_pairs bytes)"

definition base64_value :: "char \<Rightarrow> byte option" where
  "base64_value c =
     (let n = of_char c in
      if 65 \<le> n \<and> n \<le> 90 then Some (of_nat (n - 65))
      else if 97 \<le> n \<and> n \<le> 122 then Some (of_nat (n - 97 + 26))
      else if 48 \<le> n \<and> n \<le> 57 then Some (of_nat (n - 48 + 52))
      else if c = CHR ''+'' \<or> c = CHR ''-'' then Some 62
      else if c = CHR ''/'' \<or> c = CHR ''_'' then Some 63 else None)"

text \<open>The loop of \<open>bytes_from_b64_node\<close>: \<open>grp\<close> holds the values read of an unfinished group of
  four, at most three.\<close>

definition b64_first :: "byte \<Rightarrow> byte \<Rightarrow> char" where
  "b64_first g0 g1 = of_byte (push_bit 2 g0 OR drop_bit 4 g1)"

definition b64_second :: "byte \<Rightarrow> byte \<Rightarrow> char" where
  "b64_second g1 g2 = of_byte (push_bit 4 g1 OR drop_bit 2 g2)"

definition b64_third :: "byte \<Rightarrow> byte \<Rightarrow> char" where
  "b64_third g2 g3 = of_byte (push_bit 6 g2 OR g3)"

fun b64_rest :: "byte list \<Rightarrow> string" where
  "b64_rest [g0, g1] = [b64_first g0 g1]"
| "b64_rest [g0, g1, g2] = [b64_first g0 g1, b64_second g1 g2]"
| "b64_rest _ = []"

fun b64_node_loop :: "byte list \<Rightarrow> string \<Rightarrow> string" where
  "b64_node_loop grp [] = b64_rest grp"
| "b64_node_loop grp (c # cs) =
     (if c = CHR ''='' then b64_rest grp
      else case base64_value c of
        None \<Rightarrow> b64_node_loop grp cs
      | Some v \<Rightarrow>
          (case grp @ [v] of
             [g0, g1, g2, g3] \<Rightarrow>
               b64_first g0 g1 # b64_second g1 g2 # b64_third g2 g3 # b64_node_loop [] cs
           | grp' \<Rightarrow> b64_node_loop grp' cs))"

definition bytes_from_b64_node :: "string \<Rightarrow> string" where
  "bytes_from_b64_node bytes = b64_node_loop [] bytes"

text \<open>The URL-safe characters are replaced before the strict decoder of the crate is asked.\<close>

definition url_safe_positions :: "string \<Rightarrow> nat list" where
  "url_safe_positions bytes = filter (\<lambda>i. bytes ! i = CHR ''-'' \<or> bytes ! i = CHR ''_'') [0..<length bytes]"

fun rewrite_url_safe :: "string \<Rightarrow> nat list \<Rightarrow> string" where
  "rewrite_url_safe bytes [] = bytes"
| "rewrite_url_safe bytes (pos # ps) =
     rewrite_url_safe (bytes[pos := (if bytes ! pos = CHR ''-'' then CHR ''+'' else CHR ''/'')]) ps"

definition bytes_from_b64 :: "simd \<Rightarrow> string \<Rightarrow> string + string" where
  "bytes_from_b64 sd bytes =
     (let ps = url_safe_positions bytes
      in if ps = [] then forgiving_decode sd bytes
         else forgiving_decode sd (rewrite_url_safe bytes ps))"

subsection \<open>UTF-16\<close>

datatype endian = Little | Big

text \<open>\<open>char::encode_utf16\<close> and \<open>char::decode_utf16\<close>.\<close>

definition utf16_of :: "nat \<Rightarrow> nat list" where
  "utf16_of c =
     (if c < 0x10000 then [c]
      else [0xD800 + (c - 0x10000) div 1024, 0xDC00 + (c - 0x10000) mod 1024])"

definition encode_utf16 :: "string \<Rightarrow> nat list" where
  "encode_utf16 s = concat (map utf16_of (chars s))"

fun decode_utf16 :: "nat list \<Rightarrow> (nat + nat) list" where
  "decode_utf16 [] = []"
| "decode_utf16 (u # us) =
     (if u < 0xD800 \<or> 0xDFFF < u then Inr u # decode_utf16 us
      else if 0xDC00 \<le> u then Inl u # decode_utf16 us
      else case us of
          [] \<Rightarrow> [Inl u]
        | v # vs \<Rightarrow>
            if 0xDC00 \<le> v \<and> v \<le> 0xDFFF
            then Inr (0x10000 + (u - 0xD800) * 1024 + (v - 0xDC00)) # decode_utf16 vs
            else Inl u # decode_utf16 us)"

definition from_utf16_lossy :: "nat list \<Rightarrow> string" where
  "from_utf16_lossy us = string_of (map (case_sum (\<lambda>_. 0xFFFD) id) (decode_utf16 us))"

definition from_utf16 :: "nat list \<Rightarrow> string + string" where
  "from_utf16 us =
     (case collect_results (decode_utf16 us) of
        Inl _ \<Rightarrow> Inl ''invalid utf-16: lone surrogate found''
      | Inr cs \<Rightarrow> Inr (string_of cs))"

definition unit_of :: "endian \<Rightarrow> char \<Rightarrow> char \<Rightarrow> nat" where
  "unit_of e a b =
     (case e of Little \<Rightarrow> of_char a + 256 * of_char b | Big \<Rightarrow> 256 * of_char a + of_char b)"

fun units :: "endian \<Rightarrow> string \<Rightarrow> nat list" where
  "units e (a # b # rest) = unit_of e a b # units e rest"
| "units e _ = []"

definition bytes_of_unit :: "endian \<Rightarrow> nat \<Rightarrow> string" where
  "bytes_of_unit e u =
     (case e of Little \<Rightarrow> [char_of (u mod 256), char_of (u div 256)]
      | Big \<Rightarrow> [char_of (u div 256), char_of (u mod 256)])"

definition bytes_to_utf16_string :: "string \<Rightarrow> endian \<Rightarrow> bool \<Rightarrow> string + string" where
  "bytes_to_utf16_string bytes e lossy =
     (if \<not> lossy \<and> odd (length bytes) then Inl ''Input byte slice length must be even''
      else let data16 = units e bytes in
        (case (if lossy then Inr (from_utf16_lossy data16) else from_utf16 data16) of
           Inl err \<Rightarrow> Inl err
         | Inr result \<Rightarrow> Inr (if lossy \<and> odd (length bytes) then result @ utf8_of 0xFFFD else result)))"

subsection \<open>The conversions\<close>

text \<open>The text of \<open>FromUtf8Error\<close>: where the first ill-formed sequence is, and whether the bytes
  end within it.\<close>

function utf8_error :: "nat \<Rightarrow> string \<Rightarrow> string" where
  "utf8_error i s =
     (if s = [] then []
      else let (ok, n) = utf8_first s
           in if ok then utf8_error (i + n) (drop n s)
              else if utf8_need (of_char (hd s)) \<noteq> 0 \<and> n = length s
              then ''incomplete utf-8 byte sequence from index '' @ show_nat i
              else ''invalid utf-8 sequence of '' @ show_nat n @ '' bytes from index '' @ show_nat i)"
  by pat_completeness auto
termination
  by (relation "measure (\<lambda>(i, s). length s)")
    (auto simp: utf8_first_def Let_def split: if_splits)

declare utf8_error.simps [simp del]

definition bytes_to_utf8_string :: "string \<Rightarrow> bool \<Rightarrow> string + string" where
  "bytes_to_utf8_string bytes lossy =
     (if lossy then Inr (from_utf8_lossy bytes)
      else if utf8_valid bytes then Inr bytes else Inl (utf8_error 0 bytes))"

definition latin1_to_string :: "string \<Rightarrow> string" where
  "latin1_to_string bytes = string_of (map of_char bytes)"

fun encode_to_string :: "simd \<Rightarrow> encoder \<Rightarrow> string \<Rightarrow> bool \<Rightarrow> string + string" where
  "encode_to_string sd Hex bytes lossy = Inr (hex_encode sd bytes)"
| "encode_to_string sd Base64 bytes lossy = Inr (base64_standard sd bytes)"
| "encode_to_string sd Base64Url bytes lossy = Inr (base64_url_no_pad sd bytes)"
| "encode_to_string sd Utf8 bytes lossy = bytes_to_utf8_string bytes lossy"
| "encode_to_string sd Windows1252 bytes lossy = Inr (windows_1252_to_string bytes)"
| "encode_to_string sd Latin1 bytes lossy = Inr (latin1_to_string bytes)"
| "encode_to_string sd Ascii bytes lossy =
     Inr (string_of (map (\<lambda>c. unat (byte c AND 0x7F)) bytes))"
| "encode_to_string sd Utf16le bytes lossy = bytes_to_utf16_string bytes Little lossy"
| "encode_to_string sd Utf16be bytes lossy = bytes_to_utf16_string bytes Big lossy"

fun encode :: "simd \<Rightarrow> encoder \<Rightarrow> string \<Rightarrow> string + string" where
  "encode sd Hex bytes = Inr (hex_encode sd bytes)"
| "encode sd Base64 bytes = Inr (base64_standard sd bytes)"
| "encode sd Base64Url bytes = Inr (base64_url_no_pad sd bytes)"
| "encode sd e bytes = Inr bytes"

fun decode :: "encoder \<Rightarrow> string \<Rightarrow> string + string" where
  "decode Hex bytes = bytes_from_hex bytes"
| "decode Base64 bytes = Inr (bytes_from_b64_node bytes)"
| "decode Base64Url bytes = Inr (bytes_from_b64_node bytes)"
| "decode e bytes = Inr bytes"

fun decode_from_string :: "encoder \<Rightarrow> string \<Rightarrow> string + string" where
  "decode_from_string Hex s = bytes_from_hex s"
| "decode_from_string Base64 s = Inr (bytes_from_b64_node s)"
| "decode_from_string Base64Url s = Inr (bytes_from_b64_node s)"
| "decode_from_string Utf8 s = Inr s"
| "decode_from_string Windows1252 s = Inr (string_to_windows_1252 s)"
| "decode_from_string Latin1 s = Inr (map (\<lambda>c. of_byte (of_nat c)) (chars s))"
| "decode_from_string Ascii s = Inr (map (\<lambda>c. of_byte (of_nat c AND 0x7F)) (chars s))"
| "decode_from_string Utf16le s = Inr (concat (map (bytes_of_unit Little) (encode_utf16 s)))"
| "decode_from_string Utf16be s = Inr (concat (map (bytes_of_unit Big) (encode_utf16 s)))"

subsection \<open>The encoders of the crates\<close>

definition hex_alphabet :: string where
  "hex_alphabet = ''0123456789abcdef''"

fun rfc_hex :: "string \<Rightarrow> string" where
  "rfc_hex [] = []"
| "rfc_hex (c # cs) =
     hex_alphabet ! (of_char c div 16) # hex_alphabet ! (of_char c mod 16) # rfc_hex cs"

definition base64_alphabet :: string where
  "base64_alphabet = ''ABCDEFGHIJKLMNOPQRSTUVWXYZabcdefghijklmnopqrstuvwxyz0123456789+/''"

definition base64_url_alphabet :: string where
  "base64_url_alphabet = ''ABCDEFGHIJKLMNOPQRSTUVWXYZabcdefghijklmnopqrstuvwxyz0123456789-_''"

text \<open>The bits of three bytes, six at a time; a missing byte counts as zero bits.\<close>

definition sextets :: "byte \<Rightarrow> byte \<Rightarrow> byte \<Rightarrow> byte list" where
  "sextets a b c =
     [drop_bit 2 a, push_bit 4 (take_bit 2 a) OR drop_bit 4 b,
      push_bit 2 (take_bit 4 b) OR drop_bit 6 c, take_bit 6 c]"

fun rfc_base64 :: "string \<Rightarrow> string \<Rightarrow> string \<Rightarrow> string" where
  "rfc_base64 al pad (a # b # c # rest) =
     map (\<lambda>v. al ! unat v) (sextets (byte a) (byte b) (byte c)) @ rfc_base64 al pad rest"
| "rfc_base64 al pad [a, b] =
     map (\<lambda>v. al ! unat v) (butlast (sextets (byte a) (byte b) 0)) @ pad"
| "rfc_base64 al pad [a] =
     map (\<lambda>v. al ! unat v) (take 2 (sextets (byte a) 0 0)) @ pad @ pad"
| "rfc_base64 al pad [] = []"

definition simd_ok :: "simd \<Rightarrow> bool" where
  "simd_ok sd \<longleftrightarrow> (\<forall>bs. hex_encode sd bs = rfc_hex bs
      \<and> base64_standard sd bs = rfc_base64 base64_alphabet ''='' bs
      \<and> base64_url_no_pad sd bs = rfc_base64 base64_url_alphabet [] bs)"

lemma bit_halves: "push_bit n (drop_bit n x) OR take_bit n x = (x :: nat)"
  by (rule bit_eqI) (auto simp: bit_simps)

lemma hex_digits_ok:
  "to_digit16 (hex_alphabet ! (of_char c div 16)) = Some (of_char c div 16)"
  "to_digit16 (hex_alphabet ! (of_char c mod 16)) = Some (of_char c mod 16)"
  "push_bit 4 (of_char c div 16) OR (of_char c mod 16) = (of_char c :: nat)"
proof -
  have all: "list_all (\<lambda>k. to_digit16 (hex_alphabet ! k) = Some k) [0..<16]" by code_simp
  have "of_char c div 16 < (16 :: nat)" using nat_of_char_less_256 [of c] by (simp add: less_mult_imp_div_less)
  with all show "to_digit16 (hex_alphabet ! (of_char c div 16)) = Some (of_char c div 16)"
    "to_digit16 (hex_alphabet ! (of_char c mod 16)) = Some (of_char c mod 16)"
    by (auto simp: list_all_iff)
  show "push_bit 4 (of_char c div 16) OR (of_char c mod 16) = (of_char c :: nat)"
    using bit_halves [of 4 "of_char c"] by (simp add: drop_bit_eq_div take_bit_eq_mod)
qed

lemma hex_pairs_rfc: "hex_pairs (rfc_hex bs) = bs"
  by (induction bs) (simp_all add: hex_digits_ok)

lemma alphabets_ok:
  assumes "al = base64_alphabet \<or> al = base64_url_alphabet" "k < 64"
  shows "base64_value (al ! k) = Some (of_nat k)" "al ! k \<noteq> CHR ''=''"
    "of_char (al ! k) < (128 :: nat)"
proof -
  have "map base64_value base64_alphabet = map (\<lambda>k. Some (of_nat k)) [0..<64]"
    "map base64_value base64_url_alphabet = map (\<lambda>k. Some (of_nat k)) [0..<64]"
    and len: "length base64_alphabet = 64" "length base64_url_alphabet = 64"
    by (simp_all add: base64_alphabet_def base64_url_alphabet_def base64_value_def Let_def upt_rec)
  then have "map base64_value al ! k = Some (of_nat k)" "k < length al" using assms by auto
  then show v: "base64_value (al ! k) = Some (of_nat k)" by simp
  show "al ! k \<noteq> CHR ''=''"
  proof
    assume "al ! k = CHR ''=''"
    with v show False by (simp add: base64_value_def)
  qed
  show "of_char (al ! k) < (128 :: nat)" using v
    by (auto simp: base64_value_def Let_def split: if_splits)
qed

text \<open>Two bytes are equal when their eight bits are.\<close>

lemma byte_eqI:
  fixes v w :: byte
  assumes "bit v 0 = bit w 0" "bit v 1 = bit w 1" "bit v 2 = bit w 2" "bit v 3 = bit w 3"
    "bit v 4 = bit w 4" "bit v 5 = bit w 5" "bit v 6 = bit w 6" "bit v 7 = bit w 7"
  shows "v = w"
proof (rule bit_word_eqI)
  fix n
  assume "n < LENGTH(8)"
  then have "n \<in> {0, 1, 2, 3, 4, 5, 6, 7}" by auto
  with assms show "bit v n = bit w n" by auto
qed

lemma sextets_small:
  assumes "v \<in> set (sextets a b c)"
  shows "unat v < 64"
proof -
  have "take_bit 6 v = v" using assms
    by (auto simp: sextets_def bit_simps impossible_bit intro!: byte_eqI)
  then have "unat v = take_bit 6 (unat v)" by (metis unsigned_take_bit_eq)
  then show ?thesis using take_bit_nat_less_exp [of 6 "unat v"] by simp
qed

lemma sextets_join:
  "sextets a b c = [g0, g1, g2, g3] \<Longrightarrow>
     b64_first g0 g1 = of_byte a \<and> b64_second g1 g2 = of_byte b \<and> b64_third g2 g3 = of_byte c"
  unfolding b64_first_def b64_second_def b64_third_def sextets_def
  by (auto simp: bit_simps impossible_bit intro!: byte_eqI arg_cong [of _ _ of_byte])

subsection \<open>Round trips\<close>

lemma induct_list3 [case_names 1 2 3 4]:
  "P [] \<Longrightarrow> (\<And>a. P [a]) \<Longrightarrow> (\<And>a b. P [a, b]) \<Longrightarrow> (\<And>a b c rest. P rest \<Longrightarrow> P (a # b # c # rest)) \<Longrightarrow> P xs"
  by induction_schema (pat_completeness, lexicographic_order)

lemma b64_node_rfc:
  assumes "al = base64_alphabet \<or> al = base64_url_alphabet" "pad = [] \<or> pad = ''=''"
  shows "b64_node_loop [] (rfc_base64 al pad bs) = bs"
proof -
  have sext: "base64_value (al ! unat v) = Some v" "al ! unat v \<noteq> CHR ''=''"
    if "v \<in> set (sextets a b c)" for v a b c
    using alphabets_ok [OF assms(1) sextets_small [OF that]] by simp_all
  have group: "\<exists>g0 g1 g2 g3. sextets a b c = [g0, g1, g2, g3]
      \<and> (\<forall>v \<in> {g0, g1, g2, g3}. base64_value (al ! unat v) = Some v \<and> al ! unat v \<noteq> CHR ''='')
      \<and> b64_first g0 g1 = of_byte a \<and> b64_second g1 g2 = of_byte b \<and> b64_third g2 g3 = of_byte c" for a b c
    using sext [of _ a b c] sextets_join [of a b c] by (simp add: sextets_def)
  show ?thesis using assms(2)
  proof (induction bs rule: induct_list3)
    case (4 a b c rest)
    then show ?case using group [of "byte a" "byte b" "byte c"] by auto
  next
    case (3 a b)
    then show ?case using group [of "byte a" "byte b" 0] by auto
  next
    case (2 a)
    then show ?case using group [of "byte a" 0 0] by auto
  qed simp
qed

lemma scalar_byte [simp]: "scalar (of_char c)"
  using nat_of_char_less_256 [of c] unfolding scalar_def by linarith

lemma chars_latin1: "chars (string_of (map of_char bs)) = map of_char bs"
  by (rule chars_string_of) simp

lemma position_None_iff: "position x ys = None \<longleftrightarrow> x \<notin> set ys"
  by (induction ys) auto

lemma windows_1252_position: "k < 32 \<Longrightarrow> position (WINDOWS_1252_HIGH ! k) WINDOWS_1252_HIGH = Some k"
proof -
  assume "k < 32"
  moreover have "map (\<lambda>c. position c WINDOWS_1252_HIGH) WINDOWS_1252_HIGH = map Some [0..<32]"
    "length WINDOWS_1252_HIGH = 32"
    by (simp_all add: WINDOWS_1252_HIGH_def upt_rec)
  ultimately have "map (\<lambda>c. position c WINDOWS_1252_HIGH) WINDOWS_1252_HIGH ! k = Some k" by simp
  then show ?thesis using \<open>k < 32\<close> \<open>length WINDOWS_1252_HIGH = 32\<close> by simp
qed

lemma windows_1252_char_ok:
  "scalar (windows_1252_char c)" "char_to_windows_1252 (windows_1252_char c) = c"
proof -
  let ?b = "of_char c :: nat"
  have high: "\<forall>x \<in> set WINDOWS_1252_HIGH. scalar x \<and> (x < 256 \<longrightarrow> 0x80 \<le> x \<and> x \<le> 0x9F)"
    "length WINDOWS_1252_HIGH = 32"
    by (simp_all add: WINDOWS_1252_HIGH_def scalar_def)
  show "scalar (windows_1252_char c)"
    using high by (auto simp: windows_1252_char_def Let_def)
  show "char_to_windows_1252 (windows_1252_char c) = c"
  proof (cases "0x80 \<le> ?b \<and> ?b \<le> 0x9F")
    case True
    then have "?b - 0x80 < 32" by linarith
    with True have "position (windows_1252_char c) WINDOWS_1252_HIGH = Some (?b - 0x80)"
      by (simp add: windows_1252_char_def windows_1252_position)
    then show ?thesis using True by (simp add: char_to_windows_1252_def)
  next
    case False
    then have "windows_1252_char c = ?b" by (auto simp: windows_1252_char_def)
    moreover have "position ?b WINDOWS_1252_HIGH = None"
      using False high(1) by (auto simp: position_None_iff)
    ultimately show ?thesis by (simp add: char_to_windows_1252_def)
  qed
qed

lemma windows_1252_round_trip: "string_to_windows_1252 (windows_1252_to_string bs) = bs"
  by (simp add: string_to_windows_1252_def windows_1252_to_string_def chars_string_of
      windows_1252_char_ok o_def)

text \<open>UTF-16.\<close>

lemma decode_utf16_of: "scalar c \<Longrightarrow> decode_utf16 (utf16_of c @ us) = Inr c # decode_utf16 us"
proof (cases "c < 0x10000")
  case False
  assume "scalar c"
  define h l where "h = (c - 0x10000) div 1024" and "l = (c - 0x10000) mod 1024"
  have "c = 0x10000 + h * 1024 + l" "l < 1024" using False by (simp_all add: h_def l_def)
  moreover from this \<open>scalar c\<close> have "h < 1024" unfolding scalar_def by linarith
  moreover have "utf16_of c = [0xD800 + h, 0xDC00 + l]" using False by (simp add: utf16_of_def h_def l_def)
  ultimately show ?thesis by simp
qed (auto simp: utf16_of_def scalar_def)

lemma decode_encode_utf16: "\<forall>c \<in> set cs. scalar c \<Longrightarrow> decode_utf16 (concat (map utf16_of cs)) = map Inr cs"
  by (induction cs) (simp_all add: decode_utf16_of)

lemma utf16_of_small: "scalar c \<Longrightarrow> u \<in> set (utf16_of c) \<Longrightarrow> u < 0x10000"
  by (auto simp: utf16_of_def scalar_def split: if_splits)

lemma units_bytes: "\<forall>u \<in> set us. u < 0x10000 \<Longrightarrow> units e (concat (map (bytes_of_unit e) us)) = us"
  by (induction us; cases e) (auto simp: bytes_of_unit_def unit_of_def)

lemma bytes_of_units_length: "length (concat (map (bytes_of_unit e) us)) = 2 * length us"
  by (induction us; cases e) (auto simp: bytes_of_unit_def)

lemma utf16_round_trip:
  assumes "utf8_valid s"
  shows "bytes_to_utf16_string (concat (map (bytes_of_unit e) (encode_utf16 s))) e lossy = Inr s"
proof -
  let ?bytes = "concat (map (bytes_of_unit e) (encode_utf16 s))"
  note cs = chars_scalar [OF assms]
  have "units e ?bytes = encode_utf16 s"
    using cs utf16_of_small by (intro units_bytes) (auto simp: encode_utf16_def)
  moreover have "decode_utf16 (encode_utf16 s) = map Inr (chars s)"
    using decode_encode_utf16 [OF cs] by (simp add: encode_utf16_def)
  moreover have "even (length ?bytes)" unfolding bytes_of_units_length by simp
  ultimately show ?thesis
    by (simp add: bytes_to_utf16_string_def from_utf16_lossy_def from_utf16_def Let_def
        collect_results_map_Inr o_def string_of_chars [OF assms] del: length_concat)
qed

text \<open>What is decoded, and what is always text.\<close>

lemma latin1_decoded: "decode_from_string Latin1 (latin1_to_string bs) = Inr bs"
  by (simp add: latin1_to_string_def chars_latin1 del: of_nat_of_char)

lemma utf8_valid_ascii_map:
  "\<forall>x \<in> set xs. (of_char (f x) :: nat) < 128 \<Longrightarrow> utf8_valid (map f xs)"
  by (rule utf8_valid_ascii) (simp add: list_all_iff)

lemma from_utf8_lossy_text: "utf8_valid (from_utf8_lossy s)"
proof (induction s rule: from_utf8_lossy.induct)
  case (1 s)
  show ?case
  proof (cases "s = []")
    case False
    obtain ok n where first: "utf8_first s = (ok, n)" by force
    have "utf8_valid (if ok then take n s else [CHR 0xEF, CHR 0xBF, CHR 0xBD])"
    proof (cases ok)
      case True
      then obtain p where p: "scalar p" "s = utf8_of p @ drop n s" "n = length (utf8_of p)"
        using utf8_first_Some [of s n] first False by auto
      then have "take n s = utf8_of p" by (metis append_eq_conv_conj)
      then show ?thesis using True utf8_valid_utf8_of [OF p(1)] by simp
    next
      case ok: False
      have "utf8_of 0xFFFD = [CHR 0xEF, CHR 0xBF, CHR 0xBD]" by (simp add: utf8_of_def char_of_eq_iff)
      then show ?thesis using ok utf8_valid_utf8_of [of "0xFFFD"] by (simp add: scalar_def)
    qed
    then show ?thesis using utf8_valid_append "1.IH" [OF False first [symmetric] refl] first False
      by (simp add: from_utf8_lossy.simps [of s])
  qed (simp add: from_utf8_lossy.simps)
qed

lemma decode_utf16_scalar:
  "\<forall>u \<in> set us. u < 0x10000 \<Longrightarrow> Inr c \<in> set (decode_utf16 us) \<Longrightarrow> scalar c"
  by (induction us rule: decode_utf16.induct) (auto simp: scalar_def split: if_splits list.splits)

lemma units_small: "u \<in> set (units e s) \<Longrightarrow> u < 0x10000"
proof (induction e s rule: units.induct)
  case (1 e a b rest)
  have "unit_of e a b < 0x10000"
    by (cases e; simp only: unit_of_def endian.case;
        use nat_of_char_less_256 [of a] nat_of_char_less_256 [of b] in linarith)
  with 1 show ?case by auto
qed simp_all

lemma utf16_text: "bytes_to_utf16_string bs e lossy = Inr s \<Longrightarrow> utf8_valid s"
proof -
  assume run: "bytes_to_utf16_string bs e lossy = Inr s"
  have scalars: "Inr c \<in> set (decode_utf16 (units e bs)) \<Longrightarrow> scalar c" for c
    using decode_utf16_scalar units_small by blast
  have lossy: "utf8_valid (from_utf16_lossy (units e bs))"
    unfolding from_utf16_lossy_def using scalars
    by (intro utf8_valid_string_of) (auto simp: scalar_def split: sum.splits)
  have strict: "from_utf16 (units e bs) = Inr t \<Longrightarrow> utf8_valid t" for t
    using scalars unfolding from_utf16_def
    by (auto simp: collect_results_Inr_iff intro!: utf8_valid_string_of split: sum.splits)
  have "utf8_valid (utf8_of 0xFFFD)" by (intro utf8_valid_utf8_of) (simp add: scalar_def)
  then show ?thesis using run lossy strict
    by (auto simp: bytes_to_utf16_string_def Let_def intro: utf8_valid_append split: if_splits sum.splits)
qed

lemma windows_1252_text: "utf8_valid (windows_1252_to_string bs)"
  unfolding windows_1252_to_string_def by (rule utf8_valid_string_of) (simp add: windows_1252_char_ok)

lemma rfc_hex_ascii: "list_all (\<lambda>c. (of_char c :: nat) < 128) (rfc_hex bs)"
proof (induction bs)
  case (Cons c bs)
  have "list_all (\<lambda>k. of_char (hex_alphabet ! k) < (128 :: nat)) [0..<16]" by code_simp
  moreover have "of_char c div 16 < (16 :: nat)"
    using nat_of_char_less_256 [of c] by (simp add: less_mult_imp_div_less)
  ultimately show ?case using Cons by (auto simp: list_all_iff)
qed simp

lemma rfc_base64_ascii:
  assumes "al = base64_alphabet \<or> al = base64_url_alphabet" "pad = [] \<or> pad = ''=''"
  shows "list_all (\<lambda>c. (of_char c :: nat) < 128) (rfc_base64 al pad bs)"
proof -
  have sext: "of_char (al ! unat v) < (128 :: nat)" if "v \<in> set (sextets a b c)" for v a b c
    using alphabets_ok(3) [OF assms(1) sextets_small [OF that]] .
  have all: "\<forall>v \<in> set (sextets a b c). of_char (al ! unat v) < (128 :: nat)" for a b c
    using sext by blast
  show ?thesis using assms(2)
  proof (induction bs rule: induct_list3)
    case (4 a b c rest)
    then show ?case using all [of "byte a" "byte b" "byte c"] by (simp add: sextets_def)
  next
    case (3 a b)
    then show ?case using all [of "byte a" "byte b" 0] by (auto simp: sextets_def)
  next
    case (2 a)
    then show ?case using all [of "byte a" 0 0] by (auto simp: sextets_def)
  qed simp
qed

definition reference_simd :: simd where
  "reference_simd =
     \<lparr>hex_encode = rfc_hex, base64_standard = rfc_base64 base64_alphabet ''='',
      base64_url_no_pad = rfc_base64 base64_url_alphabet [],
      forgiving_decode = Inr \<circ> bytes_from_b64_node, standard_decode = Inr \<circ> bytes_from_b64_node,
      url_no_pad_decode = Inr \<circ> bytes_from_b64_node\<rparr>"

lemma simd_ok_reference: "simd_ok reference_simd"
  by (simp add: simd_ok_def reference_simd_def)

text \<open>C33 (round trip): bytes rendered as text in \<open>hex\<close>, \<open>base64\<close>, \<open>base64url\<close>, \<open>windows-1252\<close> or
  \<open>latin1\<close> are read back unchanged, whatever the bytes; and every text is read back unchanged from
  its bytes in UTF-8 and in UTF-16 of either order.\<close>

theorem encodings_round_trip:
  assumes "simd_ok sd" "utf8_valid t"
  shows "list_all (\<lambda>e. \<exists>s. encode_to_string sd e bs lossy = Inr s \<and> decode_from_string e s = Inr bs)
        [Hex, Base64, Base64Url, Windows1252, Latin1]
    \<and> list_all (\<lambda>e. \<exists>bs. decode_from_string e t = Inr bs \<and> encode_to_string sd e bs lossy = Inr t)
        [Utf8, Utf16le, Utf16be]"
proof -
  have "bytes_from_b64_node (rfc_base64 base64_alphabet ''='' bs) = bs"
    "bytes_from_b64_node (rfc_base64 base64_url_alphabet [] bs) = bs"
    unfolding bytes_from_b64_node_def by (rule b64_node_rfc; simp)+
  then show ?thesis
    using assms latin1_decoded [of bs]
    by (simp add: simd_ok_def bytes_from_hex_def hex_pairs_rfc windows_1252_round_trip utf16_round_trip
        bytes_to_utf8_string_def from_utf8_lossy_valid)
qed

theorem encodings_round_trip_witness:
  "list_all (\<lambda>e. \<exists>s. encode_to_string reference_simd e [CHR 0xFF, CHR 0x80] False = Inr s
          \<and> decode_from_string e s = Inr [CHR 0xFF, CHR 0x80])
        [Hex, Base64, Base64Url, Windows1252, Latin1]
    \<and> list_all (\<lambda>e. \<exists>bs. decode_from_string e (string_of [0x1F4D8, 0x41]) = Inr bs
          \<and> encode_to_string reference_simd e bs False = Inr (string_of [0x1F4D8, 0x41]))
        [Utf8, Utf16le, Utf16be]"
  by (rule encodings_round_trip [OF simd_ok_reference utf8_valid_string_of]) (simp add: scalar_def)

lemma ascii_mask_less: "unat (w AND 0x7F :: byte) < 128"
proof -
  have "w AND 0x7F = take_bit 7 w" by (simp add: take_bit_eq_mask mask_eq_exp_minus_1)
  then have "unat (w AND 0x7F) = take_bit 7 (unat w)" by (metis unsigned_take_bit_eq)
  then show ?thesis using take_bit_nat_less_exp [of 7 "unat w"] by simp
qed

text \<open>C34 (type): a lossy rendering never fails, and whatever is rendered, lossily or not, is
  well-formed UTF-8.\<close>

theorem rendered_is_text:
  assumes "simd_ok sd"
  shows "(\<exists>s. encode_to_string sd e bs True = Inr s)
    \<and> (\<forall>s. encode_to_string sd e bs lossy = Inr s \<longrightarrow> utf8_valid s)"
proof -
  have total: "\<exists>s. encode_to_string sd e bs True = Inr s"
    by (cases e) (auto simp: bytes_to_utf8_string_def bytes_to_utf16_string_def Let_def)
  have "scalar (unat (byte c AND 0x7F))" for c
    using ascii_mask_less [of "byte c"] unfolding scalar_def by linarith
  then have "utf8_valid (string_of (map (\<lambda>c. unat (byte c AND 0x7F)) bs))"
    by (intro utf8_valid_string_of) auto
  moreover have "utf8_valid (rfc_hex bs)" "utf8_valid (rfc_base64 base64_alphabet ''='' bs)"
    "utf8_valid (rfc_base64 base64_url_alphabet [] bs)" "utf8_valid (latin1_to_string bs)"
    by (auto intro!: utf8_valid_ascii rfc_hex_ascii rfc_base64_ascii utf8_valid_string_of simp: latin1_to_string_def)
  ultimately have "encode_to_string sd e bs lossy = Inr s \<Longrightarrow> utf8_valid s" for s
    using assms by (cases e)
      (auto simp: simd_ok_def bytes_to_utf8_string_def from_utf8_lossy_text windows_1252_text
        dest: utf16_text split: if_splits)
  with total show ?thesis by blast
qed

theorem rendered_is_text_witness:
  "\<exists>s. encode_to_string reference_simd Ascii [CHR 0xC1] True = Inr s \<and> utf8_valid s"
  using rendered_is_text [OF simd_ok_reference, of Ascii "[CHR 0xC1]" True] by blast

text \<open>A Node label names an encoding whose own label is a name of it, and likewise a Web label.\<close>

lemma labels_name_themselves:
  "from_str s = Inr e \<Longrightarrow> from_str (as_label e) = Inr e"
  "from_web_label s = Inr e \<Longrightarrow> from_web_label (as_label e) = Inr e"
proof -
  have "\<forall>e \<in> snd ` set NODE_ENCODING_MAP. from_str (as_label e) = Inr e"
    "\<forall>e \<in> snd ` set ENCODING_MAP. from_web_label (as_label e) = Inr e"
    by code_simp+
  then show "from_str s = Inr e \<Longrightarrow> from_str (as_label e) = Inr e"
    "from_web_label s = Inr e \<Longrightarrow> from_web_label (as_label e) = Inr e"
    by (auto simp: from_str_def [of s] from_web_label_def [of s] dest!: map_of_SomeD split: option.splits)
qed

text \<open>The tables list labels the standard does not: \<open>new TextDecoder("hex")\<close> is accepted.\<close>

lemma web_label_hex: "from_web_label ''hex'' = Inr Hex"
  by code_simp

subsection \<open>Node's base64 and the strict one\<close>

definition standard_char :: "char \<Rightarrow> char" where
  "standard_char c = (if c = CHR ''-'' then CHR ''+'' else if c = CHR ''_'' then CHR ''/'' else c)"

lemma rewrite_url_safe_map:
  "distinct ps \<Longrightarrow> \<forall>i \<in> set ps. i < length bs \<and> (bs ! i = CHR ''-'' \<or> bs ! i = CHR ''_'') \<Longrightarrow>
     length (rewrite_url_safe bs ps) = length bs \<and>
     (\<forall>i < length bs. rewrite_url_safe bs ps ! i = (if i \<in> set ps then standard_char (bs ! i) else bs ! i))"
proof (induction ps arbitrary: bs)
  case (Cons p ps)
  let ?bs = "bs[p := (if bs ! p = CHR ''-'' then CHR ''+'' else CHR ''/'')]"
  have "\<forall>i \<in> set ps. i < length ?bs \<and> (?bs ! i = CHR ''-'' \<or> ?bs ! i = CHR ''_'')"
    using Cons.prems by (auto simp: nth_list_update)
  with Cons.IH [of ?bs] Cons.prems show ?case
    by (auto simp: nth_list_update standard_char_def)
qed simp

text \<open>\<open>bytes_from_b64\<close> hands its decoder the input with every URL-safe character
  replaced by the standard one and nothing else changed, whichever of its two ways it takes.\<close>

theorem b64_rewrite_exact:
  "bytes_from_b64 sd bs = forgiving_decode sd (map standard_char bs)"
proof (cases "url_safe_positions bs = []")
  case True
  then have "\<forall>i < length bs. bs ! i \<noteq> CHR ''-'' \<and> bs ! i \<noteq> CHR ''_''"
    by (auto simp: url_safe_positions_def filter_empty_conv)
  then have "map standard_char bs = bs"
    by (intro nth_equalityI) (auto simp: standard_char_def)
  then show ?thesis using True by (simp add: bytes_from_b64_def)
next
  case False
  have "distinct (url_safe_positions bs)" by (simp add: url_safe_positions_def)
  note rewritten = rewrite_url_safe_map [OF this, of bs]
  have "rewrite_url_safe bs (url_safe_positions bs) = map standard_char bs"
    using rewritten by (intro nth_equalityI) (auto simp: url_safe_positions_def standard_char_def)
  then show ?thesis using False by (simp add: bytes_from_b64_def Let_def)
qed

text \<open>Node's decoder skips what is no base64 character and stops at the first \<open>=\<close>.\<close>

lemma b64_node_skips:
  "bytes_from_b64_node s = bytes_from_b64_node (filter (\<lambda>c. base64_value c \<noteq> None) (takeWhile (\<lambda>c. c \<noteq> CHR ''='') s))"
proof -
  have "b64_node_loop grp s
      = b64_node_loop grp (filter (\<lambda>c. base64_value c \<noteq> None) (takeWhile (\<lambda>c. c \<noteq> CHR ''='') s))" for grp
    by (induction grp s rule: b64_node_loop.induct) (auto split: option.splits list.splits)
  then show ?thesis by (simp add: bytes_from_b64_node_def)
qed

end
