(* ===== verification/Fs_Ops.thy ===== *)
theory Fs_Ops
  imports Container Encodings
begin

text \<open>
  The file operations of \<open>crates/ferrijs-std/src/fs/\<close> (\<open>access\<close>, \<open>appendFile\<close>, \<open>chmod\<close>, \<open>mkdir\<close>,
  \<open>mkdtemp\<close>, \<open>open\<close>, \<open>readdir\<close>, \<open>readFile\<close>, \<open>realpath\<close>, \<open>rename\<close>, \<open>rm\<close>, \<open>rmdir\<close>, \<open>stat\<close>, \<open>lstat\<close>,
  \<open>symlink\<close>, \<open>writeFile\<close>), the directory walker of \<open>utils/fs.rs\<close>, the path resolution of
  \<open>pathutil.rs\<close> and the errors of \<open>node/system_error.rs\<close>.

  An operation is a sequence of calls of the operating system. Its answers are the parameter
  \<open>files\<close>, a function of the calls made before, so that it may answer the same call differently
  each time; the calls are kept in the journal of the state, oldest first.
\<close>

subsection \<open>Calls, errors, state\<close>

type_synonym u32 = "32 word"

record open_options =
  oo_read :: bool
  oo_write :: bool
  oo_append :: bool
  oo_create :: bool
  oo_create_new :: bool
  oo_truncate :: bool
  oo_mode :: u32

definition open_options_new :: open_options where
  "open_options_new = \<lparr>oo_read = False, oo_write = False, oo_append = False, oo_create = False,
     oo_create_new = False, oo_truncate = False, oo_mode = 0x1B6\<rparr>"

datatype sys_call =
    Metadata string
  | SymlinkMetadata string
  | Canonicalize string
  | ReadWhole string
  | ReadDirectory string
  | PathExists string
  | OpenWith open_options string
  | CreateFile string
  | WriteOpened string string
  | FlushOpened string
  | SetOpenedPermissions string u32
  | WriteWhole string string
  | SetPermissions string u32
  | CreateDir string
  | CreateDirAll string
  | RemoveDir string
  | RemoveDirAll string
  | RemoveFile string
  | RenamePath string string
  | SymlinkTo string string

record io_error =
  raw_os_error :: "int option"
  already_exists :: bool
  io_display :: string

record metadata =
  md_readonly :: bool
  md_mode :: u32
  md_is_dir :: bool

record files =
  unit_reply :: "sys_call list \<Rightarrow> sys_call \<Rightarrow> io_error + unit"
  metadata_reply :: "sys_call list \<Rightarrow> sys_call \<Rightarrow> io_error + metadata"
  bytes_reply :: "sys_call list \<Rightarrow> sys_call \<Rightarrow> io_error + string"
  path_reply :: "sys_call list \<Rightarrow> sys_call \<Rightarrow> io_error + string"
  names_reply :: "sys_call list \<Rightarrow> sys_call \<Rightarrow> io_error + (io_error + string) list"
  exists_reply :: "sys_call list \<Rightarrow> sys_call \<Rightarrow> bool"
  current_dir :: "io_error + string"
  random_fill :: "sys_call list \<Rightarrow> nat \<Rightarrow> string"

datatype js_error =
    Denied_Thrown denied
  | System_Thrown string string "int option" string string
  | Message_Thrown string
  | Type_Thrown string
  | Io_Converted io_error

record fs_state =
  realm :: "container option"
  journal :: "sys_call list"

type_synonym ('e, 'a) act = "fs_state \<Rightarrow> ('e + 'a) \<times> fs_state"

definition ret :: "'a \<Rightarrow> ('e, 'a) act" where
  "ret x st = (Inr x, st)"

definition throw :: "'e \<Rightarrow> ('e, 'a) act" where
  "throw e st = (Inl e, st)"

definition and_then :: "('e, 'a) act \<Rightarrow> ('a \<Rightarrow> ('e, 'b) act) \<Rightarrow> ('e, 'b) act" where
  "and_then m k st =
     (case m st of (Inl e, st) \<Rightarrow> (Inl e, st) | (Inr x, st) \<Rightarrow> k x st)"

definition map_err :: "('e \<Rightarrow> 'f) \<Rightarrow> ('e, 'a) act \<Rightarrow> ('f, 'a) act" where
  "map_err g m st = (case m st of (Inl e, st) \<Rightarrow> (Inl (g e), st) | (Inr x, st) \<Rightarrow> (Inr x, st))"

definition lift_sum :: "'e + 'a \<Rightarrow> ('e, 'a) act" where
  "lift_sum r st = (r, st)"

definition sys :: "(sys_call list \<Rightarrow> sys_call \<Rightarrow> 'e + 'a) \<Rightarrow> sys_call \<Rightarrow> ('e, 'a) act" where
  "sys reply c st = (reply (journal st) c, st\<lparr>journal := journal st @ [c]\<rparr>)"

definition or_throw_msg :: "string \<Rightarrow> io_error \<Rightarrow> js_error" where
  "or_throw_msg msg e = Message_Thrown (msg @ ''. '' @ io_display e)"

definition or_throw :: "io_error \<Rightarrow> js_error" where
  "or_throw e = Message_Thrown (io_display e)"

definition quoted :: "string \<Rightarrow> string" where
  "quoted s = [CHR 0x22] @ s @ [CHR 0x22]"

text \<open>The values of \<open>libc\<close> on Linux.\<close>

definition error_code :: "io_error \<Rightarrow> string" where
  "error_code e =
     (if raw_os_error e = Some 2 then ''ENOENT''
      else if already_exists e then ''EEXIST''
      else if raw_os_error e = Some 20 then ''ENOTDIR''
      else if raw_os_error e = Some 21 then ''EISDIR''
      else if raw_os_error e = Some 13 then ''EACCES''
      else if raw_os_error e = Some 1 then ''EPERM''
      else if raw_os_error e = Some 40 then ''ELOOP''
      else if raw_os_error e = Some 36 then ''ENAMETOOLONG''
      else if raw_os_error e = Some 5 then ''EIO''
      else if raw_os_error e = Some 12 then ''ENOMEM''
      else ''UNKNOWN'')"

definition system_error_throw :: "string \<Rightarrow> string \<Rightarrow> io_error \<Rightarrow> js_error" where
  "system_error_throw syscall path e =
     System_Thrown (error_code e @ '': '' @ io_display e @ '', '' @ syscall @ '' '' @ [CHR 0x27] @ path @ [CHR 0x27])
       (error_code e) (map_option (\<lambda>errno. - \<bar>errno\<bar>) (raw_os_error e)) syscall path"

subsection \<open>access, chmod\<close>

definition CONSTANT_F_OK :: u32 where "CONSTANT_F_OK = 0"
definition CONSTANT_R_OK :: u32 where "CONSTANT_R_OK = 4"
definition CONSTANT_W_OK :: u32 where "CONSTANT_W_OK = 2"
definition CONSTANT_X_OK :: u32 where "CONSTANT_X_OK = 1"

definition unwrap_or :: "'a \<Rightarrow> 'a option \<Rightarrow> 'a" where
  "unwrap_or d v = (case v of Some x \<Rightarrow> x | None \<Rightarrow> d)"

definition verify_metadata :: "u32 option \<Rightarrow> metadata \<Rightarrow> js_error + unit" where
  "verify_metadata mode md =
     (let mode = unwrap_or CONSTANT_F_OK mode
      in if mode AND CONSTANT_W_OK \<noteq> 0 \<and> md_readonly md
         then Inl (Message_Thrown ''Permission denied. File not writable'')
         else if mode AND CONSTANT_X_OK \<noteq> 0 \<and> md_mode md AND 0x40 = 0
         then Inl (Message_Thrown ''Permission denied. File not executable'')
         else Inr ())"

definition access :: "files \<Rightarrow> string \<Rightarrow> u32 option \<Rightarrow> (js_error, unit) act" where
  "access f path mode =
     and_then (map_err (system_error_throw ''access'' path) (sys (metadata_reply f) (Metadata path)))
       (\<lambda>md. lift_sum (verify_metadata mode md))"

definition access_sync :: "files \<Rightarrow> string \<Rightarrow> u32 option \<Rightarrow> (js_error, unit) act" where
  "access_sync f path mode =
     and_then (map_err (system_error_throw ''access'' path) (sys (metadata_reply f) (Metadata path)))
       (\<lambda>md. lift_sum (verify_metadata mode md))"

definition chmod_error :: "string \<Rightarrow> string" where
  "chmod_error path = ''Can'' @ [CHR 0x27] @ ''t set permissions of '' @ quoted path"

definition set_mode :: "files \<Rightarrow> string \<Rightarrow> u32 \<Rightarrow> (js_error, unit) act" where
  "set_mode f path mode =
     map_err (or_throw_msg (chmod_error path)) (sys (unit_reply f) (SetPermissions path mode))"

definition set_mode_sync :: "files \<Rightarrow> string \<Rightarrow> u32 \<Rightarrow> (js_error, unit) act" where
  "set_mode_sync f path mode =
     map_err (or_throw_msg (chmod_error path)) (sys (unit_reply f) (SetPermissions path mode))"

definition chmod :: "files \<Rightarrow> string \<Rightarrow> u32 \<Rightarrow> (js_error, unit) act" where
  "chmod f path mode = set_mode f path mode"

definition chmod_sync :: "files \<Rightarrow> string \<Rightarrow> u32 \<Rightarrow> (js_error, unit) act" where
  "chmod_sync f path mode = set_mode_sync f path mode"

subsection \<open>appendFile, writeFile, readFile\<close>

text \<open>The options are a text, an encoding, or an object of which the mode is read. The bytes of a
  value may fail to be read, because it holds none or because its buffer is detached; \<open>append_file\<close>
  asks for the first before the file is opened and for the second after.\<close>

datatype write_options = WriteEncoding string | WriteMode "u32 option"

definition append_options :: "write_options option \<Rightarrow> open_options" where
  "append_options options =
     open_options_new\<lparr>oo_append := True, oo_create := True,
       oo_mode := (case options of Some (WriteMode m) \<Rightarrow> unwrap_or 0x1B6 m | _ \<Rightarrow> 0x1B6)\<rparr>"

definition append_file ::
  "files \<Rightarrow> string \<Rightarrow> js_error + (js_error + string) \<Rightarrow> write_options option \<Rightarrow> (js_error, unit) act" where
  "append_file f path data options =
     and_then (lift_sum data) (\<lambda>bytes.
     and_then (map_err (system_error_throw ''open'' path)
       (sys (unit_reply f) (OpenWith (append_options options) path))) (\<lambda>_.
     and_then (lift_sum bytes) (\<lambda>bytes.
     and_then (map_err (system_error_throw ''write'' path)
       (sys (unit_reply f) (WriteOpened path bytes))) (\<lambda>_.
     map_err (system_error_throw ''write'' path) (sys (unit_reply f) (FlushOpened path))))))"

definition append_file_sync :: "files \<Rightarrow> string \<Rightarrow> js_error + string \<Rightarrow> write_options option \<Rightarrow> (js_error, unit) act" where
  "append_file_sync f path data options =
     and_then (map_err (system_error_throw ''open'' path)
       (sys (unit_reply f) (OpenWith (append_options options) path))) (\<lambda>_.
     and_then (lift_sum data) (\<lambda>bytes.
     map_err (system_error_throw ''write'' path) (sys (unit_reply f) (WriteOpened path bytes))))"

definition write_file_error :: "string \<Rightarrow> string" where
  "write_file_error path = ''Can'' @ [CHR 0x27] @ ''t write file '' @ quoted path"

definition write_file :: "files \<Rightarrow> string \<Rightarrow> js_error + string \<Rightarrow> write_options option \<Rightarrow> (js_error, unit) act" where
  "write_file f path data options =
     (let err = or_throw_msg (write_file_error path) in
      and_then (map_err err (sys (unit_reply f) (CreateFile path))) (\<lambda>_.
      and_then (case options of
          Some (WriteMode m) \<Rightarrow>
            map_err err (sys (unit_reply f) (SetOpenedPermissions path (unwrap_or 0x1B6 m)))
        | _ \<Rightarrow> ret ()) (\<lambda>_.
      and_then (lift_sum data) (\<lambda>bytes.
      and_then (map_err err (sys (unit_reply f) (WriteOpened path bytes))) (\<lambda>_.
      map_err err (sys (unit_reply f) (FlushOpened path)))))))"

definition write_file_sync :: "files \<Rightarrow> string \<Rightarrow> js_error + string \<Rightarrow> write_options option \<Rightarrow> (js_error, unit) act" where
  "write_file_sync f path data options =
     (let err = or_throw_msg (write_file_error path) in
      and_then (lift_sum data) (\<lambda>bytes.
      and_then (map_err err (sys (unit_reply f) (WriteWhole path bytes))) (\<lambda>_.
      case options of
        Some (WriteMode m) \<Rightarrow> map_err err (sys (unit_reply f) (SetPermissions path (unwrap_or 0x1B6 m)))
      | _ \<Rightarrow> ret ())))"

datatype read_options = ReadEncoding string | ReadObject "string option"

datatype read_value = BufferValue string | TextValue string

definition read_error :: "string \<Rightarrow> io_error \<Rightarrow> js_error" where
  "read_error path e =
     system_error_throw (if raw_os_error e = Some 21 then ''read'' else ''open'') path e"

text \<open>\<open>Buffer::to_string\<close> renders in the encoding; its errors are thrown as messages.\<close>

definition handle_read_file_bytes :: "simd \<Rightarrow> read_options option \<Rightarrow> string \<Rightarrow> js_error + read_value" where
  "handle_read_file_bytes sd options bytes =
     (case (case options of None \<Rightarrow> None | Some (ReadEncoding e) \<Rightarrow> Some e | Some (ReadObject e) \<Rightarrow> e) of
        None \<Rightarrow> Inr (BufferValue bytes)
      | Some encoding \<Rightarrow>
          (case from_str encoding of
             Inl e \<Rightarrow> Inl (Message_Thrown e)
           | Inr enc \<Rightarrow> (case encode_to_string sd enc bytes True of
                          Inl e \<Rightarrow> Inl (Message_Thrown e)
                        | Inr t \<Rightarrow> Inr (TextValue t))))"

definition read_file :: "files \<Rightarrow> simd \<Rightarrow> string \<Rightarrow> read_options option \<Rightarrow> (js_error, read_value) act" where
  "read_file f sd path options =
     and_then (map_err (read_error path) (sys (bytes_reply f) (ReadWhole path)))
       (\<lambda>bytes. lift_sum (handle_read_file_bytes sd options bytes))"

definition read_file_sync :: "files \<Rightarrow> simd \<Rightarrow> string \<Rightarrow> read_options option \<Rightarrow> (js_error, read_value) act" where
  "read_file_sync f sd path options =
     and_then (map_err (read_error path) (sys (bytes_reply f) (ReadWhole path)))
       (\<lambda>bytes. lift_sum (handle_read_file_bytes sd options bytes))"

subsection \<open>open\<close>

record file_handle =
  handle_path :: string
  handle_append :: bool
  handle_options :: open_options

definition open_flags :: "string \<Rightarrow> open_options \<Rightarrow> open_options option" where
  "open_flags flags opts =
     (if flags = ''a'' then Some (opts\<lparr>oo_append := True, oo_create := True\<rparr>)
      else if flags = ''ax'' \<or> flags = ''xa'' then Some (opts\<lparr>oo_append := True, oo_create_new := True\<rparr>)
      else if flags = ''a+'' then Some (opts\<lparr>oo_append := True, oo_read := True, oo_create := True\<rparr>)
      else if flags = ''ax+'' \<or> flags = ''xa+''
        then Some (opts\<lparr>oo_append := True, oo_read := True, oo_create_new := True\<rparr>)
      else if flags = ''r'' then Some (opts\<lparr>oo_read := True\<rparr>)
      else if flags = ''r+'' then Some (opts\<lparr>oo_read := True, oo_write := True\<rparr>)
      else if flags = ''w'' then Some (opts\<lparr>oo_write := True, oo_create := True, oo_truncate := True\<rparr>)
      else if flags = ''wx'' \<or> flags = ''xw'' then Some (opts\<lparr>oo_write := True, oo_create_new := True\<rparr>)
      else if flags = ''w+''
        then Some (opts\<lparr>oo_write := True, oo_read := True, oo_create := True, oo_truncate := True\<rparr>)
      else if flags = ''wx+'' \<or> flags = ''xw+''
        then Some (opts\<lparr>oo_write := True, oo_read := True, oo_create_new := True\<rparr>)
      else None)"

definition open_file :: "files \<Rightarrow> string \<Rightarrow> string option \<Rightarrow> u32 option \<Rightarrow> (js_error, file_handle) act" where
  "open_file f path flags mode =
     (let flags = unwrap_or ''r'' flags in
      case open_flags flags open_options_new of
        None \<Rightarrow> throw (Message_Thrown (''Invalid flags '' @ [CHR 0x27] @ flags @ [CHR 0x27]))
      | Some opts \<Rightarrow>
          (let opts = opts\<lparr>oo_mode := unwrap_or 0x1B6 mode\<rparr> in
           and_then (map_err (system_error_throw ''open'' path) (sys (unit_reply f) (OpenWith opts path)))
             (\<lambda>_. ret \<lparr>handle_path = path, handle_append = CHR ''a'' \<in> set flags, handle_options = opts\<rparr>)))"

subsection \<open>realpath, rename, rm, rmdir, stat, lstat, symlink\<close>

text \<open>The encoding asked for, when it could be read.\<close>

definition refuse_buffer :: "string option \<Rightarrow> js_error + unit" where
  "refuse_buffer encoding =
     (if encoding = Some ''buffer'' then
        Inl (Type_Thrown (''realpath: the '' @ [CHR 0x27] @ ''buffer'' @ [CHR 0x27] @
          '' encoding is not supported, the path is returned as a string''))
      else Inr ())"

definition realpath :: "files \<Rightarrow> string \<Rightarrow> string option \<Rightarrow> (js_error, string) act" where
  "realpath f path encoding =
     and_then (lift_sum (refuse_buffer encoding)) (\<lambda>_.
     map_err (system_error_throw ''realpath'' path) (sys (path_reply f) (Canonicalize path)))"

definition realpath_sync :: "files \<Rightarrow> string \<Rightarrow> string option \<Rightarrow> (js_error, string) act" where
  "realpath_sync f path encoding =
     and_then (lift_sum (refuse_buffer encoding)) (\<lambda>_.
     map_err (system_error_throw ''lstat'' path) (sys (path_reply f) (Canonicalize path)))"

definition rename_error :: "string \<Rightarrow> string \<Rightarrow> string" where
  "rename_error f t = ''Can'' @ [CHR 0x27] @ ''t rename file/folder from '' @ quoted f @ '' to '' @ quoted t"

definition rename :: "files \<Rightarrow> string \<Rightarrow> string \<Rightarrow> (js_error, unit) act" where
  "rename f old_path new_path =
     map_err (or_throw_msg (rename_error old_path new_path)) (sys (unit_reply f) (RenamePath old_path new_path))"

definition rename_sync :: "files \<Rightarrow> string \<Rightarrow> string \<Rightarrow> (js_error, unit) act" where
  "rename_sync f old_path new_path =
     map_err (or_throw_msg (rename_error old_path new_path)) (sys (unit_reply f) (RenamePath old_path new_path))"

text \<open>What an options object says, \<open>None\<close> where it says nothing or what cannot be converted.\<close>

record rm_options =
  rm_recursive :: "bool option"
  rm_force :: "bool option"

definition get_params_rm_dir :: "rm_options option \<Rightarrow> bool" where
  "get_params_rm_dir options = (case options of None \<Rightarrow> False | Some p \<Rightarrow> unwrap_or False (rm_recursive p))"

definition get_params_rm :: "rm_options option \<Rightarrow> bool \<times> bool" where
  "get_params_rm options =
     (case options of None \<Rightarrow> (False, False)
      | Some p \<Rightarrow> (unwrap_or False (rm_recursive p), unwrap_or False (rm_force p)))"

definition remove_dir_error :: "string \<Rightarrow> string" where
  "remove_dir_error path = ''Can'' @ [CHR 0x27] @ ''t remove dir '' @ quoted path"

definition rmdir :: "files \<Rightarrow> string \<Rightarrow> rm_options option \<Rightarrow> (js_error, unit) act" where
  "rmdir f path options =
     map_err (or_throw_msg (remove_dir_error path))
       (sys (unit_reply f) (if get_params_rm_dir options then RemoveDirAll path else RemoveDir path))"

definition rmdir_sync :: "files \<Rightarrow> string \<Rightarrow> rm_options option \<Rightarrow> (js_error, unit) act" where
  "rmdir_sync f path options =
     map_err (or_throw_msg (remove_dir_error path))
       (sys (unit_reply f) (if get_params_rm_dir options then RemoveDirAll path else RemoveDir path))"

definition remove_call :: "bool \<Rightarrow> bool \<Rightarrow> string \<Rightarrow> sys_call" where
  "remove_call is_dir recursive path =
     (if is_dir \<and> recursive then RemoveDirAll path
      else if is_dir \<and> \<not> recursive then RemoveDir path else RemoveFile path)"

text \<open>\<open>if !force { return res; } Ok(())\<close>.\<close>

definition unless_forced :: "bool \<Rightarrow> (js_error, unit) act \<Rightarrow> (js_error, unit) act" where
  "unless_forced force res st = (if \<not> force then res st else (Inr (), snd (res st)))"

definition rmfile :: "files \<Rightarrow> string \<Rightarrow> rm_options option \<Rightarrow> (js_error, unit) act" where
  "rmfile f path options =
     (let (recursive, force) = get_params_rm options in
      unless_forced force
        (and_then (map_err or_throw (sys (metadata_reply f) (Metadata path))) (\<lambda>md.
         map_err (or_throw_msg (''Can'' @ [CHR 0x27] @ ''t remove file '' @ quoted path))
           (sys (unit_reply f) (remove_call (md_is_dir md) recursive path)))))"

definition rmfile_sync :: "files \<Rightarrow> string \<Rightarrow> rm_options option \<Rightarrow> (js_error, unit) act" where
  "rmfile_sync f path options =
     (let (recursive, force) = get_params_rm options in
      unless_forced force
        (and_then (map_err Io_Converted (sys (metadata_reply f) (Metadata path))) (\<lambda>md.
         map_err Io_Converted (sys (unit_reply f) (remove_call (md_is_dir md) recursive path)))))"

definition stat_fn :: "files \<Rightarrow> string \<Rightarrow> (js_error, metadata) act" where
  "stat_fn f path = map_err (system_error_throw ''stat'' path) (sys (metadata_reply f) (Metadata path))"

definition stat_fn_sync :: "files \<Rightarrow> string \<Rightarrow> (js_error, metadata) act" where
  "stat_fn_sync f path = map_err (system_error_throw ''stat'' path) (sys (metadata_reply f) (Metadata path))"

definition lstat_fn :: "files \<Rightarrow> string \<Rightarrow> (js_error, metadata) act" where
  "lstat_fn f path =
     map_err (system_error_throw ''lstat'' path) (sys (metadata_reply f) (SymlinkMetadata path))"

definition lstat_fn_sync :: "files \<Rightarrow> string \<Rightarrow> (js_error, metadata) act" where
  "lstat_fn_sync f path =
     map_err (system_error_throw ''lstat'' path) (sys (metadata_reply f) (SymlinkMetadata path))"

definition symlink_blocking :: "files \<Rightarrow> string \<Rightarrow> string \<Rightarrow> (io_error, unit) act" where
  "symlink_blocking f target path = sys (unit_reply f) (SymlinkTo target path)"

definition symlink_error :: "string \<Rightarrow> string" where
  "symlink_error path = ''Can'' @ [CHR 0x27] @ ''t create symlink '' @ quoted path"

definition symlink :: "files \<Rightarrow> string \<Rightarrow> string \<Rightarrow> (js_error, unit) act" where
  "symlink f target path = map_err (or_throw_msg (symlink_error path)) (symlink_blocking f target path)"

definition symlink_sync :: "files \<Rightarrow> string \<Rightarrow> string \<Rightarrow> (js_error, unit) act" where
  "symlink_sync f target path = map_err (or_throw_msg (symlink_error path)) (symlink_blocking f target path)"

subsection \<open>mkdir, mkdtemp\<close>

text \<open>\<open>pathutil::resolve_path\<close>: the buffer begins with the current directory; \<open>index_stack\<close> holds its
  lengths before the segments appended, the last one first; \<open>no_abs\<close>, the source's \<open>empty\<close>, says that no absolute part has
  been met.\<close>

definition ends_with_sep :: "string \<Rightarrow> bool" where
  "ends_with_sep p = (p \<noteq> [] \<and> last p = CHR ''/'')"

definition find_last_sep :: "string \<Rightarrow> nat option" where
  "find_last_sep p =
     (case split_once (CHR ''/'') (rev p) of None \<Rightarrow> None | Some (after, before) \<Rightarrow> Some (length before))"

definition resolve_segment :: "bool \<Rightarrow> string \<times> nat list \<Rightarrow> string \<Rightarrow> string \<times> nat list" where
  "resolve_segment no_abs s seg =
     (let (result, index_stack) = s
      in if seg = ''..'' then
           (case index_stack of
              last_index # rest \<Rightarrow> (take last_index result, rest)
            | [] \<Rightarrow>
                if no_abs then
                  (case find_last_sep result of
                     Some last_index \<Rightarrow> (take last_index result, [])
                   | None \<Rightarrow> (result, []))
                else (result, []))
         else if seg = [] \<or> seg = ''.'' then (result, index_stack)
         else ((if \<not> ends_with_sep result \<and> result \<noteq> [] then result @ ''/'' else result) @ seg @ ''/'',
               length result # index_stack))"

definition resolve_part :: "bool \<times> string \<times> nat list \<Rightarrow> string \<Rightarrow> bool \<times> string \<times> nat list" where
  "resolve_part s part =
     (let (no_abs, result, index_stack) = s;
          (no_abs, result, start) =
            (if prefix ''/'' part then (False, ''/'', 1) else (no_abs, result, 0))
      in (no_abs, foldl (resolve_segment no_abs) (result, index_stack) (split_char (CHR ''/'') (drop start part))))"

definition join_resolve_path :: "string list \<Rightarrow> string \<Rightarrow> string" where
  "join_resolve_path parts result =
     (let result = (if ends_with_sep result \<and> 1 < length result then butlast result else result);
          (no_abs, result, index_stack) = foldl resolve_part (True, result, []) parts
      in if 1 < length result \<and> ends_with_sep result then butlast result else result)"

definition resolve_path :: "files \<Rightarrow> string list \<Rightarrow> io_error + string" where
  "resolve_path f parts =
     (case current_dir f of
        Inl e \<Rightarrow> Inl e
      | Inr cwd \<Rightarrow> Inr (join_resolve_path parts (if ends_with_sep cwd then cwd else cwd @ ''/'')))"

record mkdir_options =
  mkdir_recursive :: "bool option"
  mkdir_mode :: "u32 option"

definition get_params :: "files \<Rightarrow> string \<Rightarrow> mkdir_options option \<Rightarrow> js_error + bool \<times> u32 \<times> string" where
  "get_params f path options =
     (let (recursive, mode) =
            (case options of
               None \<Rightarrow> (False, 0x1FF)
             | Some p \<Rightarrow> (unwrap_or False (mkdir_recursive p), unwrap_or 0x1FF (mkdir_mode p)))
      in case resolve_path f [path] of
           Inl e \<Rightarrow> Inl (Io_Converted e)
         | Inr path \<Rightarrow> Inr (recursive, mode, path))"

definition create_dir_error :: "string \<Rightarrow> string" where
  "create_dir_error path = ''Can'' @ [CHR 0x27] @ ''t create dir '' @ quoted path"

definition mkdir :: "files \<Rightarrow> string \<Rightarrow> mkdir_options option \<Rightarrow> (js_error, string) act" where
  "mkdir f path options =
     and_then (lift_sum (get_params f path options)) (\<lambda>(recursive, mode, path).
     and_then (map_err (or_throw_msg (create_dir_error path))
       (sys (unit_reply f) (if recursive then CreateDirAll path else CreateDir path))) (\<lambda>_.
     and_then (set_mode f path mode) (\<lambda>_. ret path)))"

definition mkdir_sync :: "files \<Rightarrow> string \<Rightarrow> mkdir_options option \<Rightarrow> (js_error, string) act" where
  "mkdir_sync f path options =
     and_then (lift_sum (get_params f path options)) (\<lambda>(recursive, mode, path).
     and_then (map_err (or_throw_msg (create_dir_error path))
       (sys (unit_reply f) (if recursive then CreateDirAll path else CreateDir path))) (\<lambda>_.
     and_then (set_mode_sync f path mode) (\<lambda>_. ret path)))"

definition CHARS :: string where
  "CHARS = ''abcdefghijklmnopqrstuvwxyzABCDEFGHIJKLMNOPQRSTUVWXYZ0123456789''"

definition random_chars :: "files \<Rightarrow> nat \<Rightarrow> fs_state \<Rightarrow> string" where
  "random_chars f len st = map (\<lambda>b. CHARS ! (of_char b mod length CHARS)) (random_fill f (journal st) len)"

definition mkdtemp :: "files \<Rightarrow> string \<Rightarrow> (js_error, string) act" where
  "mkdtemp f pre st =
     (let path = join_with '','' [pre, random_chars f 6 st]
      in and_then (map_err (or_throw_msg (create_dir_error path)) (sys (unit_reply f) (CreateDirAll path)))
           (\<lambda>_. ret path) st)"

definition mkdtemp_sync :: "files \<Rightarrow> string \<Rightarrow> (js_error, string) act" where
  "mkdtemp_sync f pre st =
     (let path = join_with '','' [pre, random_chars f 6 st]
      in and_then (map_err (or_throw_msg (create_dir_error path)) (sys (unit_reply f) (CreateDirAll path)))
           (\<lambda>_. ret path) st)"

subsection \<open>readdir\<close>

text \<open>The stack of a \<open>DirectoryWalker\<close>: paths with their metadata, the top at the head. Its filter lets
  every name through. \<open>child_path\<close> is \<open>DirEntry::path\<close>.\<close>

type_synonym walk_stack = "(string \<times> metadata) list"

definition child_path :: "string \<Rightarrow> string \<Rightarrow> string" where
  "child_path dir name = (if dir = [] \<or> ends_with_sep dir then dir @ name else dir @ ''/'' @ name)"

text \<open>What a directory stream yields is a name or an error. The flag chooses \<open>walk_sync\<close> and
  \<open>append_stack_sync\<close>, which pass over an error in the stream; \<open>append_stack\<close> stops at it.\<close>

fun push_entries :: "bool \<Rightarrow> files \<Rightarrow> string \<Rightarrow> (io_error + string) list \<Rightarrow> walk_stack \<Rightarrow> (io_error, walk_stack) act" where
  "push_entries sync f dir [] stack = ret stack"
| "push_entries sync f dir (Inl e # names) stack =
     (if sync then push_entries sync f dir names stack else throw e)"
| "push_entries sync f dir (Inr name # names) stack =
     and_then (sys (metadata_reply f) (SymlinkMetadata (child_path dir name)))
       (\<lambda>md. push_entries sync f dir names ((child_path dir name, md) # stack))"

definition append_stack :: "bool \<Rightarrow> files \<Rightarrow> string \<Rightarrow> walk_stack \<Rightarrow> (io_error, walk_stack) act" where
  "append_stack sync f dir stack =
     and_then (sys (names_reply f) (ReadDirectory dir)) (\<lambda>names. push_entries sync f dir names stack)"

text \<open>One turn of \<open>walk\<close> once the root has been read: the entry on top, its children pushed when the
  walk is recursive and it is a directory.\<close>

definition walk :: "bool \<Rightarrow> files \<Rightarrow> bool \<Rightarrow> walk_stack \<Rightarrow> (io_error, ((string \<times> metadata) \<times> walk_stack) option) act" where
  "walk sync f recursive stack =
     (case stack of
        [] \<Rightarrow> ret None
      | (entry, md) # stack \<Rightarrow>
          and_then (if recursive \<and> md_is_dir md then append_stack sync f entry stack else ret stack)
            (\<lambda>stack. ret (Some ((entry, md), stack))))"

record dir_options =
  with_file_types :: "bool option"
  dir_recursive :: "bool option"

definition walker_options :: "string \<Rightarrow> dir_options option \<Rightarrow> bool \<times> nat \<times> string \<times> bool" where
  "walker_options path options =
     (let (types, recursive) =
            (case options of
               None \<Rightarrow> (False, False)
             | Some p \<Rightarrow> (unwrap_or False (with_file_types p), unwrap_or False (dir_recursive p)));
          path = (if ends_with_sep path then butlast path else path);
          skip = (if path = ''.'' \<or> path = ''./'' then length path else length path + 1)
      in (types, skip, path, recursive))"

type_synonym dir_item = "string \<times> metadata option"

definition dir_item_of :: "bool \<Rightarrow> nat \<Rightarrow> string \<times> metadata \<Rightarrow> dir_item" where
  "dir_item_of types skip entry = (drop skip (fst entry), if types then Some (snd entry) else None)"

text \<open>The loop of \<open>read_dir\<close>. A tree may grow faster than it is walked, so the turns are bounded by
  \<open>n\<close>; \<open>None\<close> means that they did not suffice.\<close>

fun walk_loop :: "bool \<Rightarrow> files \<Rightarrow> bool \<Rightarrow> (string \<times> metadata \<Rightarrow> dir_item) \<Rightarrow> nat \<Rightarrow> walk_stack \<Rightarrow> dir_item list \<Rightarrow>
    (io_error, dir_item list option) act" where
  "walk_loop sync f recursive item 0 stack items = ret None"
| "walk_loop sync f recursive item (Suc n) stack items =
     and_then (walk sync f recursive stack) (\<lambda>r.
       case r of
         None \<Rightarrow> ret (Some items)
       | Some (entry, stack) \<Rightarrow> walk_loop sync f recursive item n stack (items @ [item entry]))"

definition read_dir :: "files \<Rightarrow> nat \<Rightarrow> string \<Rightarrow> dir_options option \<Rightarrow>
    (js_error, (dir_item list \<times> string) option) act" where
  "read_dir f n path options =
     (let (types, skip, path, recursive) = walker_options path options in
      map_err Io_Converted
        (and_then (append_stack False f path []) (\<lambda>stack.
         and_then (walk_loop False f recursive (dir_item_of types skip) n stack []) (\<lambda>items.
         ret (map_option (\<lambda>l. (sort_key fst l, path)) items)))))"

definition read_dir_sync :: "files \<Rightarrow> nat \<Rightarrow> string \<Rightarrow> dir_options option \<Rightarrow>
    (js_error, (dir_item list \<times> string) option) act" where
  "read_dir_sync f n path options =
     (let (types, skip, path, recursive) = walker_options path options in
      map_err Io_Converted
        (and_then (append_stack True f path []) (\<lambda>stack.
         and_then (walk_loop True f recursive (dir_item_of types skip) n stack []) (\<lambda>items.
         ret (map_option (\<lambda>l. (sort_key fst l, path)) items)))))"

end
