(* ===== verification/Fs_Guard.thy ===== *)
theory Fs_Guard
  imports Fs_Ops
begin

text \<open>
  The checks in front of every file operation: \<open>crates/ferrijs-std/src/fs/guard.rs\<close>, and the calls of
  \<open>crates/ferrijs-std/src/permissions.rs\<close> that meet the realm's container, \<open>check_*\<close>, \<open>has\<close> and \<open>drop\<close>.
  A realm without a container is unrestricted.
\<close>

subsection \<open>The realm's container\<close>

definition install :: "container \<Rightarrow> (js_error, unit) act" where
  "install c st = (Inr (), st\<lparr>realm := Some c\<rparr>)"

definition checked :: "(container \<Rightarrow> (denied + unit) \<times> container) \<Rightarrow> (js_error, unit) act" where
  "checked check st =
     (case realm st of
        Some c \<Rightarrow>
          (case check c of
             (Inl denied, c) \<Rightarrow> (Inl (Denied_Thrown denied), st\<lparr>realm := Some c\<rparr>)
           | (Inr _, c) \<Rightarrow> (Inr (), st\<lparr>realm := Some c\<rparr>))
      | None \<Rightarrow> (Inr (), st))"

definition realm_check_read :: "os \<Rightarrow> string \<Rightarrow> (js_error, unit) act" where
  "realm_check_read os path = checked (container_check_read os path)"

definition realm_check_write :: "os \<Rightarrow> string \<Rightarrow> (js_error, unit) act" where
  "realm_check_write os path = checked (container_check_write os path)"

definition realm_check_net :: "string \<Rightarrow> u16 option \<Rightarrow> (js_error, unit) act" where
  "realm_check_net host port = checked (container_check_net host port)"

definition realm_check_env :: "string \<Rightarrow> (js_error, unit) act" where
  "realm_check_env name = checked (container_check_env name)"

definition realm_check_sys :: "sys_info \<Rightarrow> (js_error, unit) act" where
  "realm_check_sys item = checked (container_check_sys item)"

definition realm_has :: "os \<Rightarrow> string \<Rightarrow> string option \<Rightarrow> (js_error, bool) act" where
  "realm_has os k resource st =
     (case kind_from_str k of
        Inl m \<Rightarrow> (Inl (Type_Thrown m), st)
      | Inr k \<Rightarrow>
          (case realm st of
             None \<Rightarrow> (Inr True, st)
           | Some c \<Rightarrow>
               (case container_has os c k resource of
                  Inl m \<Rightarrow> (Inl (Type_Thrown m), st)
                | Inr b \<Rightarrow> (Inr b, st))))"

fun without_kind :: "kind \<Rightarrow> permissions \<Rightarrow> permissions" where
  "without_kind Read p = p\<lparr>may_read := AllowNone\<rparr>"
| "without_kind Write p = p\<lparr>may_write := AllowNone\<rparr>"
| "without_kind Net p = p\<lparr>may_net := AllowNone\<rparr>"
| "without_kind Env p = p\<lparr>may_env := AllowNone\<rparr>"
| "without_kind Sys p = p\<lparr>may_sys := AllowNone\<rparr>"

definition realm_drop :: "os \<Rightarrow> string \<Rightarrow> string option \<Rightarrow> (js_error, unit) act" where
  "realm_drop os k resource st =
     (case kind_from_str k of
        Inl m \<Rightarrow> (Inl (Type_Thrown m), st)
      | Inr k \<Rightarrow>
          (case realm st of
             None \<Rightarrow> (Inr (), st)
           | Some c \<Rightarrow>
               (case resource of
                  Some r \<Rightarrow>
                    (case container_deny os k r c of
                       (Inl m, c) \<Rightarrow> (Inl (Type_Thrown m), st\<lparr>realm := Some c\<rparr>)
                     | (Inr _, c) \<Rightarrow> (Inr (), st\<lparr>realm := Some c\<rparr>))
                | None \<Rightarrow> (Inr (), st\<lparr>realm := Some (revoke (without_kind k (policy c)) c)\<rparr>))))"

subsection \<open>The guarded entry points\<close>

definition check_access_mode :: "os \<Rightarrow> string \<Rightarrow> u32 option \<Rightarrow> (js_error, unit) act" where
  "check_access_mode os path mode =
     (let mode = unwrap_or CONSTANT_F_OK mode in
      and_then (if mode AND CONSTANT_W_OK \<noteq> 0 then realm_check_write os path else ret ()) (\<lambda>_.
      if mode AND (CONSTANT_R_OK OR CONSTANT_X_OK) \<noteq> 0 \<or> mode AND CONSTANT_W_OK = 0
      then realm_check_read os path else ret ()))"

definition access_guarded :: "os \<Rightarrow> files \<Rightarrow> string \<Rightarrow> u32 option \<Rightarrow> (js_error, unit) act" where
  "access_guarded os f path mode =
     and_then (check_access_mode os path mode) (\<lambda>_.
     access f path mode)"

definition access_sync_guarded :: "os \<Rightarrow> files \<Rightarrow> string \<Rightarrow> u32 option \<Rightarrow> (js_error, unit) act" where
  "access_sync_guarded os f path mode =
     and_then (check_access_mode os path mode) (\<lambda>_.
     access_sync f path mode)"

definition append_file_guarded :: "os \<Rightarrow> files \<Rightarrow> string \<Rightarrow> js_error + (js_error + string) \<Rightarrow> write_options option \<Rightarrow> (js_error, unit) act" where
  "append_file_guarded os f path data options =
     and_then (realm_check_write os path) (\<lambda>_.
     append_file f path data options)"

definition append_file_sync_guarded :: "os \<Rightarrow> files \<Rightarrow> string \<Rightarrow> js_error + string \<Rightarrow> write_options option \<Rightarrow> (js_error, unit) act" where
  "append_file_sync_guarded os f path data options =
     and_then (realm_check_write os path) (\<lambda>_.
     append_file_sync f path data options)"

definition realpath_guarded :: "os \<Rightarrow> files \<Rightarrow> string \<Rightarrow> string option \<Rightarrow> (js_error, string) act" where
  "realpath_guarded os f path encoding =
     and_then (realm_check_read os path) (\<lambda>_.
     realpath f path encoding)"

definition realpath_sync_guarded :: "os \<Rightarrow> files \<Rightarrow> string \<Rightarrow> string option \<Rightarrow> (js_error, string) act" where
  "realpath_sync_guarded os f path encoding =
     and_then (realm_check_read os path) (\<lambda>_.
     realpath_sync f path encoding)"

definition chmod_guarded :: "os \<Rightarrow> files \<Rightarrow> string \<Rightarrow> u32 \<Rightarrow> (js_error, unit) act" where
  "chmod_guarded os f path mode =
     and_then (realm_check_write os path) (\<lambda>_.
     chmod f path mode)"

definition chmod_sync_guarded :: "os \<Rightarrow> files \<Rightarrow> string \<Rightarrow> u32 \<Rightarrow> (js_error, unit) act" where
  "chmod_sync_guarded os f path mode =
     and_then (realm_check_write os path) (\<lambda>_.
     chmod_sync f path mode)"

definition mkdir_guarded :: "os \<Rightarrow> files \<Rightarrow> string \<Rightarrow> mkdir_options option \<Rightarrow> (js_error, string) act" where
  "mkdir_guarded os f path options =
     and_then (realm_check_write os path) (\<lambda>_.
     mkdir f path options)"

definition mkdir_sync_guarded :: "os \<Rightarrow> files \<Rightarrow> string \<Rightarrow> mkdir_options option \<Rightarrow> (js_error, string) act" where
  "mkdir_sync_guarded os f path options =
     and_then (realm_check_write os path) (\<lambda>_.
     mkdir_sync f path options)"

definition mkdtemp_guarded :: "os \<Rightarrow> files \<Rightarrow> string \<Rightarrow> (js_error, string) act" where
  "mkdtemp_guarded os f pre =
     and_then (realm_check_write os pre) (\<lambda>_.
     mkdtemp f pre)"

definition mkdtemp_sync_guarded :: "os \<Rightarrow> files \<Rightarrow> string \<Rightarrow> (js_error, string) act" where
  "mkdtemp_sync_guarded os f pre =
     and_then (realm_check_write os pre) (\<lambda>_.
     mkdtemp_sync f pre)"

definition check_open_flags :: "os \<Rightarrow> string \<Rightarrow> string option \<Rightarrow> (js_error, unit) act" where
  "check_open_flags os path flags =
     (let flags = unwrap_or ''r'' flags
      in if flags \<in> {''r'', ''rs'', ''sr''} then realm_check_read os path
         else if flags \<in> {''r+'', ''rs+'', ''sr+'', ''w+'', ''wx+'', ''xw+'', ''a+'', ''ax+'', ''xa+'', ''as+'', ''sa+''}
         then and_then (realm_check_read os path) (\<lambda>_. realm_check_write os path)
         else realm_check_write os path)"

definition open_guarded :: "os \<Rightarrow> files \<Rightarrow> string \<Rightarrow> string option \<Rightarrow> u32 option \<Rightarrow> (js_error, file_handle) act" where
  "open_guarded os f path flags mode =
     and_then (check_open_flags os path flags) (\<lambda>_.
     open_file f path flags mode)"

definition read_dir_guarded :: "os \<Rightarrow> files \<Rightarrow> nat \<Rightarrow> string \<Rightarrow> dir_options option \<Rightarrow> (js_error, (dir_item list \<times> string) option) act" where
  "read_dir_guarded os f n path options =
     and_then (realm_check_read os path) (\<lambda>_.
     read_dir f n path options)"

definition read_dir_sync_guarded :: "os \<Rightarrow> files \<Rightarrow> nat \<Rightarrow> string \<Rightarrow> dir_options option \<Rightarrow> (js_error, (dir_item list \<times> string) option) act" where
  "read_dir_sync_guarded os f n path options =
     and_then (realm_check_read os path) (\<lambda>_.
     read_dir_sync f n path options)"

definition read_file_guarded :: "os \<Rightarrow> files \<Rightarrow> simd \<Rightarrow> string \<Rightarrow> read_options option \<Rightarrow> (js_error, read_value) act" where
  "read_file_guarded os f sd path options =
     and_then (realm_check_read os path) (\<lambda>_.
     read_file f sd path options)"

definition read_file_sync_guarded :: "os \<Rightarrow> files \<Rightarrow> simd \<Rightarrow> string \<Rightarrow> read_options option \<Rightarrow> (js_error, read_value) act" where
  "read_file_sync_guarded os f sd path options =
     and_then (realm_check_read os path) (\<lambda>_.
     read_file_sync f sd path options)"

text \<open>The exception of a refused check is caught; a refusal answers \<open>False\<close>. A call of \<open>Path::exists\<close>
  does not fail.\<close>

definition exists_sync_guarded :: "os \<Rightarrow> files \<Rightarrow> string \<Rightarrow> (js_error, bool) act" where
  "exists_sync_guarded os f path st =
     (case realm_check_read os path st of
        (Inl _, st) \<Rightarrow> (Inr False, st)
      | (Inr _, st) \<Rightarrow>
          (Inr (exists_reply f (journal st) (PathExists path)),
           st\<lparr>journal := journal st @ [PathExists path]\<rparr>))"

definition rename_guarded :: "os \<Rightarrow> files \<Rightarrow> string \<Rightarrow> string \<Rightarrow> (js_error, unit) act" where
  "rename_guarded os f old_path new_path =
     and_then (realm_check_write os old_path) (\<lambda>_.
     and_then (realm_check_write os new_path) (\<lambda>_.
     rename f old_path new_path))"

definition rename_sync_guarded :: "os \<Rightarrow> files \<Rightarrow> string \<Rightarrow> string \<Rightarrow> (js_error, unit) act" where
  "rename_sync_guarded os f old_path new_path =
     and_then (realm_check_write os old_path) (\<lambda>_.
     and_then (realm_check_write os new_path) (\<lambda>_.
     rename_sync f old_path new_path))"

definition rmdir_guarded :: "os \<Rightarrow> files \<Rightarrow> string \<Rightarrow> rm_options option \<Rightarrow> (js_error, unit) act" where
  "rmdir_guarded os f path options =
     and_then (realm_check_write os path) (\<lambda>_.
     rmdir f path options)"

definition rmdir_sync_guarded :: "os \<Rightarrow> files \<Rightarrow> string \<Rightarrow> rm_options option \<Rightarrow> (js_error, unit) act" where
  "rmdir_sync_guarded os f path options =
     and_then (realm_check_write os path) (\<lambda>_.
     rmdir_sync f path options)"

definition rmfile_guarded :: "os \<Rightarrow> files \<Rightarrow> string \<Rightarrow> rm_options option \<Rightarrow> (js_error, unit) act" where
  "rmfile_guarded os f path options =
     and_then (realm_check_write os path) (\<lambda>_.
     rmfile f path options)"

definition rmfile_sync_guarded :: "os \<Rightarrow> files \<Rightarrow> string \<Rightarrow> rm_options option \<Rightarrow> (js_error, unit) act" where
  "rmfile_sync_guarded os f path options =
     and_then (realm_check_write os path) (\<lambda>_.
     rmfile_sync f path options)"

definition stat_guarded :: "os \<Rightarrow> files \<Rightarrow> string \<Rightarrow> (js_error, metadata) act" where
  "stat_guarded os f path =
     and_then (realm_check_read os path) (\<lambda>_.
     stat_fn f path)"

definition stat_sync_guarded :: "os \<Rightarrow> files \<Rightarrow> string \<Rightarrow> (js_error, metadata) act" where
  "stat_sync_guarded os f path =
     and_then (realm_check_read os path) (\<lambda>_.
     stat_fn_sync f path)"

definition lstat_guarded :: "os \<Rightarrow> files \<Rightarrow> string \<Rightarrow> (js_error, metadata) act" where
  "lstat_guarded os f path =
     and_then (realm_check_read os path) (\<lambda>_.
     lstat_fn f path)"

definition lstat_sync_guarded :: "os \<Rightarrow> files \<Rightarrow> string \<Rightarrow> (js_error, metadata) act" where
  "lstat_sync_guarded os f path =
     and_then (realm_check_read os path) (\<lambda>_.
     lstat_fn_sync f path)"

definition symlink_guarded :: "os \<Rightarrow> files \<Rightarrow> string \<Rightarrow> string \<Rightarrow> (js_error, unit) act" where
  "symlink_guarded os f target path =
     and_then (realm_check_write os path) (\<lambda>_.
     symlink f target path)"

definition symlink_sync_guarded :: "os \<Rightarrow> files \<Rightarrow> string \<Rightarrow> string \<Rightarrow> (js_error, unit) act" where
  "symlink_sync_guarded os f target path =
     and_then (realm_check_write os path) (\<lambda>_.
     symlink_sync f target path)"

definition write_file_guarded :: "os \<Rightarrow> files \<Rightarrow> string \<Rightarrow> js_error + string \<Rightarrow> write_options option \<Rightarrow> (js_error, unit) act" where
  "write_file_guarded os f path data options =
     and_then (realm_check_write os path) (\<lambda>_.
     write_file f path data options)"

definition write_file_sync_guarded :: "os \<Rightarrow> files \<Rightarrow> string \<Rightarrow> js_error + string \<Rightarrow> write_options option \<Rightarrow> (js_error, unit) act" where
  "write_file_sync_guarded os f path data options =
     and_then (realm_check_write os path) (\<lambda>_.
     write_file_sync f path data options)"

end
