(* ===== verification/Fs_Runs.thy ===== *)
theory Fs_Runs
  imports Fs_Guard
begin

text \<open>
  What the guards of \<open>Fs_Guard\<close> give: every call of the operating system concerns a path whose
  kind of access was granted, a refused operation reaches the operating system with nothing, and
  none of this can be regained once it was dropped. And what they do not give.
\<close>

subsection \<open>One operation of a script\<close>

text \<open>The entry points by name; the flag chooses the synchronous one.\<close>

datatype entry =
    Access bool string "u32 option"
  | ChangeMode bool string u32
  | MakeDir bool string "mkdir_options option"
  | MakeTemp bool string
  | ReadDir bool nat string "dir_options option"
  | ReadFile bool simd string "read_options option"
  | RealPath bool string "string option"
  | Rename bool string string
  | RemoveDirectory bool string "rm_options option"
  | Remove bool string "rm_options option"
  | Stat bool string
  | Lstat bool string
  | MakeLink bool string string
  | WriteFile bool string "js_error + string" "write_options option"
  | AppendFile string "js_error + (js_error + string)" "write_options option"
  | AppendFileSync string "js_error + string" "write_options option"
  | OpenFile string "string option" "u32 option"
  | ExistsSync string

definition discard :: "('e, 'a) act \<Rightarrow> ('e, unit) act" where
  "discard m = and_then m (\<lambda>_. ret ())"

fun serve :: "os \<Rightarrow> files \<Rightarrow> entry \<Rightarrow> (js_error, unit) act" where
  "serve os f (Access False path mode) = discard (access_guarded os f path mode)"
| "serve os f (Access True path mode) = discard (access_sync_guarded os f path mode)"
| "serve os f (ChangeMode False path mode) = discard (chmod_guarded os f path mode)"
| "serve os f (ChangeMode True path mode) = discard (chmod_sync_guarded os f path mode)"
| "serve os f (MakeDir False path options) = discard (mkdir_guarded os f path options)"
| "serve os f (MakeDir True path options) = discard (mkdir_sync_guarded os f path options)"
| "serve os f (MakeTemp False pre) = discard (mkdtemp_guarded os f pre)"
| "serve os f (MakeTemp True pre) = discard (mkdtemp_sync_guarded os f pre)"
| "serve os f (ReadDir False n path options) = discard (read_dir_guarded os f n path options)"
| "serve os f (ReadDir True n path options) = discard (read_dir_sync_guarded os f n path options)"
| "serve os f (ReadFile False sd path options) = discard (read_file_guarded os f sd path options)"
| "serve os f (ReadFile True sd path options) = discard (read_file_sync_guarded os f sd path options)"
| "serve os f (RealPath False path encoding) = discard (realpath_guarded os f path encoding)"
| "serve os f (RealPath True path encoding) = discard (realpath_sync_guarded os f path encoding)"
| "serve os f (Rename False old_path new_path) = discard (rename_guarded os f old_path new_path)"
| "serve os f (Rename True old_path new_path) = discard (rename_sync_guarded os f old_path new_path)"
| "serve os f (RemoveDirectory False path options) = discard (rmdir_guarded os f path options)"
| "serve os f (RemoveDirectory True path options) = discard (rmdir_sync_guarded os f path options)"
| "serve os f (Remove False path options) = discard (rmfile_guarded os f path options)"
| "serve os f (Remove True path options) = discard (rmfile_sync_guarded os f path options)"
| "serve os f (Stat False path) = discard (stat_guarded os f path)"
| "serve os f (Stat True path) = discard (stat_sync_guarded os f path)"
| "serve os f (Lstat False path) = discard (lstat_guarded os f path)"
| "serve os f (Lstat True path) = discard (lstat_sync_guarded os f path)"
| "serve os f (MakeLink False target path) = discard (symlink_guarded os f target path)"
| "serve os f (MakeLink True target path) = discard (symlink_sync_guarded os f target path)"
| "serve os f (WriteFile False path data options) = discard (write_file_guarded os f path data options)"
| "serve os f (WriteFile True path data options) = discard (write_file_sync_guarded os f path data options)"
| "serve os f (AppendFile path data options) = discard (append_file_guarded os f path data options)"
| "serve os f (AppendFileSync path data options) = discard (append_file_sync_guarded os f path data options)"
| "serve os f (OpenFile path flags mode) = discard (open_guarded os f path flags mode)"
| "serve os f (ExistsSync path) = discard (exists_sync_guarded os f path)"

text \<open>An access the realm has: there is no container, the policy grants it, or there is a hook that
  allows this very request when it is asked.\<close>

definition request_of :: "access \<Rightarrow> request" where
  "request_of a = \<lparr>req_kind = access_kind a, req_resource = access_resource a\<rparr>"

definition hook_allows :: "container \<Rightarrow> access \<Rightarrow> bool" where
  "hook_allows c a \<longleftrightarrow> (\<exists>h n. hook c = Some h \<and> h n (request_of a) = Allow)"

definition covered :: "os \<Rightarrow> container option \<Rightarrow> access \<Rightarrow> bool" where
  "covered os r a =
     (case r of None \<Rightarrow> True | Some c \<Rightarrow> is_ok (static_check os (policy c) a) \<or> hook_allows c a)"

definition below_read :: "os \<Rightarrow> container option \<Rightarrow> string \<Rightarrow> bool" where
  "below_read os r p \<longleftrightarrow>
     (\<exists>base. covered os r (ReadPath base) \<and> prefix (if ends_with_sep base then butlast base else base) p)"

text \<open>The directories the script did not name: \<open>mkdir\<close> makes what its own resolution makes of the path
  checked, \<open>mkdtemp\<close> a sibling of the prefix checked, a comma and letters and digits after it.\<close>

definition resolved_from :: "os \<Rightarrow> files \<Rightarrow> container option \<Rightarrow> string \<Rightarrow> bool" where
  "resolved_from os f r p \<longleftrightarrow> (\<exists>q. covered os r (WritePath q) \<and> resolve_path f [q] = Inr p)"

definition tagged_from :: "os \<Rightarrow> container option \<Rightarrow> string \<Rightarrow> bool" where
  "tagged_from os r p \<longleftrightarrow>
     (\<exists>q tag. covered os r (WritePath q) \<and> set tag \<subseteq> set CHARS \<and> p = join_with '','' [q, tag])"

text \<open>What each call of the operating system needs: contents are read under a read grant, everything
  that changes is under a write grant, metadata under either; a walk stays below a path granted.\<close>

fun lawful :: "os \<Rightarrow> files \<Rightarrow> container option \<Rightarrow> sys_call \<Rightarrow> bool" where
  "lawful os f r (Metadata p) \<longleftrightarrow> covered os r (ReadPath p) \<or> covered os r (WritePath p)"
| "lawful os f r (SymlinkMetadata p) \<longleftrightarrow> below_read os r p"
| "lawful os f r (ReadDirectory p) \<longleftrightarrow> below_read os r p"
| "lawful os f r (Canonicalize p) \<longleftrightarrow> covered os r (ReadPath p)"
| "lawful os f r (ReadWhole p) \<longleftrightarrow> covered os r (ReadPath p)"
| "lawful os f r (PathExists p) \<longleftrightarrow> covered os r (ReadPath p)"
| "lawful os f r (OpenWith opts p) \<longleftrightarrow>
     (oo_read opts \<longrightarrow> covered os r (ReadPath p))
     \<and> (oo_write opts \<or> oo_append opts \<or> oo_create opts \<or> oo_create_new opts \<or> oo_truncate opts \<longrightarrow>
          covered os r (WritePath p))"
| "lawful os f r (CreateFile p) \<longleftrightarrow> covered os r (WritePath p)"
| "lawful os f r (WriteOpened p bytes) \<longleftrightarrow> covered os r (WritePath p)"
| "lawful os f r (FlushOpened p) \<longleftrightarrow> covered os r (WritePath p)"
| "lawful os f r (SetOpenedPermissions p mode) \<longleftrightarrow> covered os r (WritePath p)"
| "lawful os f r (WriteWhole p bytes) \<longleftrightarrow> covered os r (WritePath p)"
| "lawful os f r (SetPermissions p mode) \<longleftrightarrow> covered os r (WritePath p) \<or> resolved_from os f r p"
| "lawful os f r (CreateDir p) \<longleftrightarrow> resolved_from os f r p"
| "lawful os f r (CreateDirAll p) \<longleftrightarrow> resolved_from os f r p \<or> tagged_from os r p"
| "lawful os f r (RemoveDir p) \<longleftrightarrow> covered os r (WritePath p)"
| "lawful os f r (RemoveDirAll p) \<longleftrightarrow> covered os r (WritePath p)"
| "lawful os f r (RemoveFile p) \<longleftrightarrow> covered os r (WritePath p)"
| "lawful os f r (RenamePath p q) \<longleftrightarrow> covered os r (WritePath p) \<and> covered os r (WritePath q)"
| "lawful os f r (SymlinkTo target p) \<longleftrightarrow> covered os r (WritePath p)"

subsection \<open>Calls made by an operation\<close>

definition rights :: "container option \<Rightarrow> (permissions \<times> (nat \<Rightarrow> request \<Rightarrow> decision) option) option" where
  "rights r = map_option (\<lambda>c. (policy c, hook c)) r"

lemma covered_rights: "rights r = rights r' \<Longrightarrow> covered os r a = covered os r' a"
  by (cases r; cases r') (auto simp: rights_def covered_def hook_allows_def)

lemma lawful_mono:
  assumes mono: "\<And>a. access_kind a \<noteq> Net \<Longrightarrow> covered os r a \<Longrightarrow> covered os r' a" and "lawful os f r c"
  shows "lawful os f r' c"
proof -
  have rw: "covered os r (ReadPath p) \<Longrightarrow> covered os r' (ReadPath p)"
    "covered os r (WritePath p) \<Longrightarrow> covered os r' (WritePath p)" for p
    using mono [of "ReadPath p"] mono [of "WritePath p"] by simp_all
  then have "below_read os r p \<Longrightarrow> below_read os r' p" "resolved_from os f r p \<Longrightarrow> resolved_from os f r' p"
    "tagged_from os r p \<Longrightarrow> tagged_from os r' p" for p
    unfolding below_read_def resolved_from_def tagged_from_def by blast+
  then show ?thesis using rw assms(2) by (cases c) auto
qed

text \<open>Whenever the accesses \<open>A\<close> are covered, an operation makes lawful calls only and leaves the rights
  of the realm as they are.\<close>

definition safe_if :: "os \<Rightarrow> files \<Rightarrow> access set \<Rightarrow> ('e, 'a) act \<Rightarrow> bool" where
  "safe_if os f A m \<longleftrightarrow>
     (\<forall>st. (\<forall>a \<in> A. covered os (realm st) a) \<longrightarrow>
        rights (realm (snd (m st))) = rights (realm st)
        \<and> (\<exists>cs. journal (snd (m st)) = journal st @ cs \<and> list_all (lawful os f (realm st)) cs))"

named_theorems fs_safe \<open>operations that make lawful calls only\<close>

lemma safe_ret [fs_safe]: "safe_if os f A (ret x)"
  by (simp add: safe_if_def ret_def)

lemma safe_throw [fs_safe]: "safe_if os f A (throw e)"
  by (simp add: safe_if_def throw_def)

lemma safe_lift_sum [fs_safe]: "safe_if os f A (lift_sum r)"
  by (simp add: safe_if_def lift_sum_def)

lemma safe_map_err [fs_safe]: "safe_if os f A m \<Longrightarrow> safe_if os f A (map_err g m)"
  unfolding safe_if_def map_err_def by (simp split: prod.splits sum.splits) (metis snd_conv)

definition yields :: "('e, 'a) act \<Rightarrow> ('a \<Rightarrow> bool) \<Rightarrow> bool" where
  "yields m Q \<longleftrightarrow> (\<forall>st x. fst (m st) = Inr x \<longrightarrow> Q x)"

lemma result_yields_simps [simp]: "yields m (\<lambda>_. True)" "yields (ret x) Q \<longleftrightarrow> Q x"
  by (simp_all add: yields_def ret_def)

lemma yields_and_then:
  "yields m P \<Longrightarrow> (\<And>x. P x \<Longrightarrow> yields (k x) Q) \<Longrightarrow> yields (and_then m k) Q"
  unfolding yields_def and_then_def by (auto split: prod.splits sum.splits) (metis fst_conv)+

lemma safe_and_then_post:
  assumes "safe_if os f A m" "yields m Q" "\<And>x. Q x \<Longrightarrow> safe_if os f A (k x)"
  shows "safe_if os f A (and_then m k)"
  unfolding safe_if_def
proof (intro allI impI)
  fix st :: fs_state
  assume A: "\<forall>a \<in> A. covered os (realm st) a"
  obtain r st1 where m: "m st = (r, st1)" by force
  from assms(1) A m obtain cs where one: "rights (realm st1) = rights (realm st)"
    "journal st1 = journal st @ cs" "list_all (lawful os f (realm st)) cs"
    unfolding safe_if_def by (metis snd_conv)
  show "rights (realm (snd (and_then m k st))) = rights (realm st)
    \<and> (\<exists>cs. journal (snd (and_then m k st)) = journal st @ cs \<and> list_all (lawful os f (realm st)) cs)"
  proof (cases r)
    case (Inl e)
    with m one show ?thesis by (auto simp: and_then_def)
  next
    case (Inr x)
    have A1: "\<forall>a \<in> A. covered os (realm st1) a" using A covered_rights [OF one(1)] by blast
    have "Q x" using assms(2) m Inr by (metis fst_conv yields_def)
    from assms(3) [OF this] A1 obtain ds where two: "rights (realm (snd (k x st1))) = rights (realm st1)"
      "journal (snd (k x st1)) = journal st1 @ ds" "list_all (lawful os f (realm st1)) ds"
      unfolding safe_if_def by blast
    have "lawful os f (realm st) d" if "lawful os f (realm st1) d" for d
      using lawful_mono [OF _ that] covered_rights [OF one(1)] by blast
    with two(3) have "list_all (lawful os f (realm st)) ds" by (simp add: list_all_iff)
    with Inr m one two show ?thesis by (auto simp: and_then_def)
  qed
qed

lemma safe_and_then [fs_safe]:
  "safe_if os f A m \<Longrightarrow> (\<And>x. safe_if os f A (k x)) \<Longrightarrow> safe_if os f A (and_then m k)"
  by (rule safe_and_then_post [where Q = "\<lambda>_. True"]) simp_all

lemma safe_sys:
  "(\<And>r. \<forall>a \<in> A. covered os r a \<Longrightarrow> lawful os f r c) \<Longrightarrow> safe_if os f A (sys reply c)"
  by (auto simp: safe_if_def sys_def)

lemma checked_outcome:
  "realm (snd (checked (container_check os a) st)) = map_option (\<lambda>c. snd (container_check os a c)) (realm st)"
  "journal (snd (checked (container_check os a) st)) = journal st"
  "fst (checked (container_check os a) st) = Inr () \<Longrightarrow> covered os (realm st) a"
proof -
  show "realm (snd (checked (container_check os a) st)) = map_option (\<lambda>c. snd (container_check os a c)) (realm st)"
    "journal (snd (checked (container_check os a) st)) = journal st"
    by (auto simp: checked_def split: option.splits prod.splits sum.splits)
  assume ok: "fst (checked (container_check os a) st) = Inr ()"
  show "covered os (realm st) a"
  proof (cases "realm st")
    case (Some c)
    with ok have "is_ok (fst (container_check os a c))"
      by (auto simp: checked_def split: prod.splits sum.splits)
    with Some show ?thesis
      by (auto simp: covered_def container_check_eq decide_outcome hook_allows_def request_of_def)
  qed (simp add: covered_def)
qed

lemma checked_rights: "rights (realm (snd (checked (container_check os a) st))) = rights (realm st)"
  by (cases "realm st") (simp_all add: rights_def checked_outcome container_check_eq)

lemma safe_checked:
  assumes "safe_if os f (insert a A) m"
  shows "safe_if os f A (and_then (checked (container_check os a)) (\<lambda>_. m))"
  unfolding safe_if_def
proof (intro allI impI)
  fix st :: fs_state
  assume A: "\<forall>a \<in> A. covered os (realm st) a"
  let ?chk = "checked (container_check os a)"
  obtain r st1 where m: "?chk st = (r, st1)" by force
  have one: "rights (realm st1) = rights (realm st)" "journal st1 = journal st"
    using checked_rights [of os a st] checked_outcome(2) [of os a st] by (simp_all add: m)
  show "rights (realm (snd (and_then ?chk (\<lambda>_. m) st))) = rights (realm st)
    \<and> (\<exists>cs. journal (snd (and_then ?chk (\<lambda>_. m) st)) = journal st @ cs \<and> list_all (lawful os f (realm st)) cs)"
  proof (cases r)
    case (Inl e)
    with m one show ?thesis by (auto simp: and_then_def)
  next
    case (Inr u)
    then have "covered os (realm st) a" using checked_outcome(3) [of os a st] by (simp add: m)
    then have "\<forall>a \<in> insert a A. covered os (realm st1) a" using A covered_rights [OF one(1)] by blast
    then obtain cs where two: "rights (realm (snd (m st1))) = rights (realm st1)"
      "journal (snd (m st1)) = journal st1 @ cs" "list_all (lawful os f (realm st1)) cs"
      using assms unfolding safe_if_def by blast
    have "lawful os f (realm st) d" if "lawful os f (realm st1) d" for d
      using lawful_mono [OF _ that] covered_rights [OF one(1)] by blast
    with two(3) have "list_all (lawful os f (realm st)) cs" by (simp add: list_all_iff)
    with Inr m one two show ?thesis by (auto simp: and_then_def)
  qed
qed

lemma safe_unless_forced [fs_safe]: "safe_if os f A m \<Longrightarrow> safe_if os f A (unless_forced force m)"
  by (simp add: safe_if_def unless_forced_def)

lemma safe_if_cases [fs_safe]:
  "(b \<Longrightarrow> safe_if os f A m) \<Longrightarrow> (\<not> b \<Longrightarrow> safe_if os f A n) \<Longrightarrow> safe_if os f A (if b then m else n)"
  by simp

lemma safe_weaken: "safe_if os f A m \<Longrightarrow> A \<subseteq> B \<Longrightarrow> safe_if os f B m"
  unfolding safe_if_def by blast

lemma safe_check [fs_safe]: "safe_if os f A (checked (container_check os a))"
  unfolding safe_if_def using checked_rights checked_outcome(2) by auto

lemmas check_acts = realm_check_read_def realm_check_write_def

lemma check_act_eqs:
  "container_check_read os path = container_check os (ReadPath path)"
  "container_check_write os path = container_check os (WritePath path)"
  by (simp_all add: fun_eq_iff)

subsection \<open>A walk stays below its root\<close>

lemma prefix_child: "prefix b dir \<Longrightarrow> prefix b (child_path dir name)"
  by (auto simp: child_path_def prefix_def)

definition all_below :: "string \<Rightarrow> walk_stack \<Rightarrow> bool" where
  "all_below b stack \<longleftrightarrow> list_all (\<lambda>(p, md). prefix b p) stack"

lemma push_entries_below:
  assumes "prefix b dir" "all_below b stack"
  shows "yields (push_entries sync f dir names stack) (all_below b)"
  using assms(2)
proof (induction names arbitrary: stack)
  case (Cons e names)
  show ?case
  proof (cases e)
    case (Inl err)
    then show ?thesis using Cons by (simp add: yields_def throw_def)
  next
    case (Inr name)
    show ?thesis
      unfolding push_entries.simps Inr
      by (rule yields_and_then [of _ "\<lambda>_. True"], simp, rule Cons.IH)
        (use Cons.prems assms(1) in \<open>simp add: all_below_def prefix_child\<close>)
  qed
qed simp

lemma append_stack_below:
  "prefix b dir \<Longrightarrow> all_below b stack \<Longrightarrow> yields (append_stack sync f dir stack) (all_below b)"
  unfolding append_stack_def by (rule yields_and_then [of _ "\<lambda>_. True"]) (simp_all add: push_entries_below)

definition base_of :: "string \<Rightarrow> string" where
  "base_of base = (if ends_with_sep base then butlast base else base)"

lemma push_entries_safe:
  "prefix (base_of base) dir \<Longrightarrow> ReadPath base \<in> A \<Longrightarrow> safe_if os f A (push_entries sync f dir names stack)"
proof (induction names arbitrary: stack)
  case (Cons e names)
  have "safe_if os f A (sys (metadata_reply f) (SymlinkMetadata (child_path dir name)))" for name
    using Cons.prems prefix_child by (intro safe_sys) (auto simp: below_read_def base_of_def [symmetric])
  with Cons show ?case by (cases e) (auto intro: safe_and_then safe_throw)
qed (simp add: safe_ret)

lemma append_stack_safe:
  assumes "prefix (base_of base) dir" "ReadPath base \<in> A"
  shows "safe_if os f A (append_stack sync f dir stack)"
proof -
  have "safe_if os f A (sys (names_reply f) (ReadDirectory dir))"
    using assms by (intro safe_sys) (auto simp: below_read_def base_of_def [symmetric])
  with push_entries_safe [OF assms] show ?thesis unfolding append_stack_def by (intro safe_and_then)
qed

lemma walk_safe:
  assumes "all_below (base_of base) stack" "ReadPath base \<in> A"
  shows "safe_if os f A (walk sync f recursive stack)"
  using assms append_stack_safe [of base _ A os f]
  by (cases stack) (auto simp: walk_def all_below_def intro!: safe_and_then safe_ret)

lemma walk_below:
  assumes "all_below b stack"
  shows "yields (walk sync f recursive stack) (\<lambda>r. case r of None \<Rightarrow> True | Some (e, stack) \<Rightarrow> all_below b stack)"
proof (cases stack)
  case (Cons e rest)
  obtain entry md where e: "e = (entry, md)" by force
  have below: "prefix b entry" "all_below b rest" using assms by (simp_all add: Cons e all_below_def)
  show ?thesis unfolding Cons e walk_def
    using append_stack_below [OF below] below(2)
    by (auto intro!: yields_and_then [of _ "all_below b"])
qed (simp add: walk_def)

lemma walk_loop_safe:
  assumes "ReadPath base \<in> A" "all_below (base_of base) stack"
  shows "safe_if os f A (walk_loop sync f recursive item n stack items)"
  using assms(2)
proof (induction n arbitrary: stack items)
  case (Suc n)
  show ?case
    unfolding walk_loop.simps
  proof (rule safe_and_then_post [OF walk_safe [OF Suc.prems assms(1)] walk_below [OF Suc.prems]])
    fix r :: "((string \<times> metadata) \<times> walk_stack) option"
    assume "case r of None \<Rightarrow> True | Some (e, stack) \<Rightarrow> all_below (base_of base) stack"
    then show "safe_if os f A (case r of None \<Rightarrow> ret (Some items)
        | Some (entry, stack) \<Rightarrow> walk_loop sync f recursive item n stack (items @ [item entry]))"
      using Suc.IH by (auto simp: safe_ret split: option.splits)
  qed
qed (simp add: safe_ret)

lemma read_dir_safe:
  assumes "ReadPath path \<in> A"
  shows "safe_if os f A (read_dir f n path options)" "safe_if os f A (read_dir_sync f n path options)"
proof -
  have "fst (snd (snd (walker_options path options))) = base_of path"
    by (simp add: walker_options_def base_of_def Let_def split: prod.splits)
  then obtain types skip recursive where opts: "walker_options path options = (types, skip, base_of path, recursive)"
    by (metis prod.collapse)
  have below: "all_below (base_of path) []" by (simp add: all_below_def)
  have "safe_if os f A (and_then (append_stack sync f (base_of path) []) (\<lambda>stack.
      and_then (walk_loop sync f recursive (dir_item_of types skip) n stack []) (\<lambda>items.
      ret (map_option (\<lambda>l. (sort_key fst l, base_of path)) items))))" for sync
    by (rule safe_and_then_post [OF append_stack_safe [OF _ assms] append_stack_below [OF _ below]])
      (auto intro!: safe_and_then walk_loop_safe [OF assms] safe_ret)
  then show "safe_if os f A (read_dir f n path options)" "safe_if os f A (read_dir_sync f n path options)"
    unfolding read_dir_def read_dir_sync_def opts by (simp_all add: safe_map_err)
qed

subsection \<open>Every entry point\<close>

lemmas op_defs = access_def access_sync_def chmod_def chmod_sync_def set_mode_def set_mode_sync_def
  append_file_def append_file_sync_def write_file_def write_file_sync_def read_file_def read_file_sync_def
  realpath_def realpath_sync_def rename_def rename_sync_def rmdir_def rmdir_sync_def rmfile_def
  rmfile_sync_def stat_fn_def stat_fn_sync_def lstat_fn_def lstat_fn_sync_def symlink_def
  symlink_sync_def symlink_blocking_def Let_def

lemma covered_self: "\<forall>a \<in> A. covered os r a \<Longrightarrow> ReadPath p \<in> A \<Longrightarrow> below_read os r p"
proof -
  assume "\<forall>a \<in> A. covered os r a" "ReadPath p \<in> A"
  moreover have "prefix (if ends_with_sep p then butlast p else p) p"
    by (cases p rule: rev_cases) simp_all
  ultimately show ?thesis unfolding below_read_def by blast
qed

lemma write_ops_safe:
  assumes "WritePath path \<in> A"
  shows "safe_if os f A (chmod f path mode)" "safe_if os f A (chmod_sync f path mode)"
    "safe_if os f A (append_file f path data1 options)" "safe_if os f A (append_file_sync f path data options)"
    "safe_if os f A (write_file f path data options)" "safe_if os f A (write_file_sync f path data options)"
    "safe_if os f A (rmdir f path ropts)" "safe_if os f A (rmdir_sync f path ropts)"
    "safe_if os f A (rmfile f path ropts)" "safe_if os f A (rmfile_sync f path ropts)"
    "safe_if os f A (symlink f target path)" "safe_if os f A (symlink_sync f target path)"
  using assms
  by (auto simp: op_defs remove_call_def append_options_def open_options_new_def
      split: option.splits write_options.splits prod.splits intro!: fs_safe safe_sys)

lemma read_ops_safe:
  assumes "ReadPath path \<in> A"
  shows "safe_if os f A (access f path mode)" "safe_if os f A (access_sync f path mode)"
    "safe_if os f A (read_file f sd path ropts)" "safe_if os f A (read_file_sync f sd path ropts)"
    "safe_if os f A (realpath f path encoding)" "safe_if os f A (realpath_sync f path encoding)"
    "safe_if os f A (stat_fn f path)" "safe_if os f A (stat_fn_sync f path)"
    "safe_if os f A (lstat_fn f path)" "safe_if os f A (lstat_fn_sync f path)"
  using assms covered_self [of A os _ path]
  by (auto simp: op_defs intro!: fs_safe safe_sys)

lemma access_safe:
  assumes "ReadPath path \<in> A \<or> WritePath path \<in> A"
  shows "safe_if os f A (access f path mode)" "safe_if os f A (access_sync f path mode)"
  using assms by (auto simp: op_defs intro!: fs_safe safe_sys)

lemma rename_safe:
  assumes "WritePath p \<in> A" "WritePath q \<in> A"
  shows "safe_if os f A (rename f p q)" "safe_if os f A (rename_sync f p q)"
  using assms by (auto simp: op_defs intro!: fs_safe safe_sys)

text \<open>What the flags let \<open>open\<close> do was checked.\<close>

lemma open_file_safe:
  assumes "ReadPath path \<in> A \<or> (\<forall>opts. open_flags (unwrap_or ''r'' flags) open_options_new = Some opts \<longrightarrow> \<not> oo_read opts)"
    "WritePath path \<in> A \<or> (\<forall>opts. open_flags (unwrap_or ''r'' flags) open_options_new = Some opts \<longrightarrow>
        \<not> (oo_write opts \<or> oo_append opts \<or> oo_create opts \<or> oo_create_new opts \<or> oo_truncate opts))"
  shows "safe_if os f A (open_file f path flags mode)"
  unfolding open_file_def Let_def
  using assms by (auto split: option.splits intro!: fs_safe safe_sys)

lemma open_flags_read_only:
  "open_flags fl open_options_new = Some opts \<Longrightarrow> fl \<in> {''r'', ''rs'', ''sr''} \<Longrightarrow>
     \<not> (oo_write opts \<or> oo_append opts \<or> oo_create opts \<or> oo_create_new opts \<or> oo_truncate opts)"
  by (auto simp: open_flags_def open_options_new_def)

lemma open_flags_write_only:
  assumes "open_flags fl open_options_new = Some opts" "oo_read opts"
  shows "fl \<in> {''r'', ''rs'', ''sr''} \<or>
     fl \<in> {''r+'', ''rs+'', ''sr+'', ''w+'', ''wx+'', ''xw+'', ''a+'', ''ax+'', ''xa+'', ''as+'', ''sa+''}"
proof -
  have "fl = ''a+'' \<or> fl = ''ax+'' \<or> fl = ''xa+'' \<or> fl = ''r'' \<or> fl = ''r+'' \<or> fl = ''w+'' \<or> fl = ''wx+'' \<or> fl = ''xw+''"
  proof (rule ccontr)
    assume no: "\<not> ?thesis"
    then have eq: "open_flags fl open_options_new =
        (if fl = ''a'' then Some (open_options_new\<lparr>oo_append := True, oo_create := True\<rparr>)
         else if fl = ''ax'' \<or> fl = ''xa'' then Some (open_options_new\<lparr>oo_append := True, oo_create_new := True\<rparr>)
         else if fl = ''w'' then Some (open_options_new\<lparr>oo_write := True, oo_create := True, oo_truncate := True\<rparr>)
         else if fl = ''wx'' \<or> fl = ''xw'' then Some (open_options_new\<lparr>oo_write := True, oo_create_new := True\<rparr>)
         else None)" by (simp only: open_flags_def de_Morgan_disj if_False simp_thms)
    from assms(1) [unfolded eq] have "\<not> oo_read opts"
      by (auto simp: open_options_new_def split: if_split_asm)
    with assms(2) show False by simp
  qed
  then show ?thesis by (elim disjE) simp_all
qed

lemma check_open_flags_safe:
  "safe_if os f A (and_then (check_open_flags os path flags) (\<lambda>_. open_file f path flags mode))"
proof -
  have assoc: "and_then (and_then m k) l = and_then m (\<lambda>x. and_then (k x) l)"
    for m :: "(js_error, unit) act" and k :: "unit \<Rightarrow> (js_error, unit) act" and l :: "unit \<Rightarrow> (js_error, file_handle) act"
    by (auto simp: and_then_def fun_eq_iff split: prod.splits sum.splits)
  show ?thesis
  proof (cases "unwrap_or ''r'' flags \<in> {''r'', ''rs'', ''sr''}")
    case True
    then have "check_open_flags os path flags = checked (container_check os (ReadPath path))"
      by (auto simp: check_open_flags_def check_acts check_act_eqs Let_def)
    with open_flags_read_only True show ?thesis by (auto intro!: safe_checked open_file_safe)
  next
    case no_read: False
    show ?thesis
    proof (cases "unwrap_or ''r'' flags \<in> {''r+'', ''rs+'', ''sr+'', ''w+'', ''wx+'', ''xw+'', ''a+'', ''ax+'', ''xa+'', ''as+'', ''sa+''}")
      case True
      with no_read have "check_open_flags os path flags = and_then (checked (container_check os (ReadPath path)))
          (\<lambda>_. checked (container_check os (WritePath path)))"
        by (simp only: check_open_flags_def check_acts check_act_eqs Let_def if_True if_False)
      then show ?thesis by (auto simp: assoc intro!: safe_checked open_file_safe)
    next
      case False
      with no_read have "check_open_flags os path flags = checked (container_check os (WritePath path))"
        by (simp only: check_open_flags_def check_acts check_act_eqs Let_def if_False)
      moreover have "\<not> oo_read opts" if "open_flags (unwrap_or ''r'' flags) open_options_new = Some opts" for opts
        using open_flags_write_only [OF that] no_read False by blast
      ultimately show ?thesis by (auto intro!: safe_checked open_file_safe)
    qed
  qed
qed

lemma safe_discard [fs_safe]: "safe_if os f A m \<Longrightarrow> safe_if os f A (discard m)"
  by (simp add: discard_def safe_and_then safe_ret)

lemma and_then_ret [simp]: "and_then (ret x) k = k x"
  by (simp add: and_then_def ret_def fun_eq_iff)

lemma and_then_assoc: "and_then (and_then m k) l = and_then m (\<lambda>x. and_then (k x) l)"
  by (auto simp: and_then_def fun_eq_iff split: prod.splits sum.splits)

lemma check_access_mode_eq:
  "check_access_mode os path mode =
     (let m = unwrap_or CONSTANT_F_OK mode in
      if m AND CONSTANT_W_OK \<noteq> 0
      then and_then (checked (container_check os (WritePath path))) (\<lambda>_.
             if m AND (CONSTANT_R_OK OR CONSTANT_X_OK) \<noteq> 0 then checked (container_check os (ReadPath path)) else ret ())
      else checked (container_check os (ReadPath path)))"
  by (auto simp: check_access_mode_def check_acts check_act_eqs Let_def)

lemma access_guarded_safe:
  "safe_if os f A (access_guarded os f path mode)" "safe_if os f A (access_sync_guarded os f path mode)"
  by (auto simp: access_guarded_def access_sync_guarded_def check_access_mode_eq Let_def and_then_assoc
      intro!: safe_checked access_safe)

lemma exists_sync_guarded_safe: "safe_if os f A (exists_sync_guarded os f path)"
  unfolding safe_if_def
proof (intro allI impI)
  fix st :: fs_state
  let ?chk = "checked (container_check os (ReadPath path))"
  obtain r st1 where m: "?chk st = (r, st1)" by force
  have one: "rights (realm st1) = rights (realm st)" "journal st1 = journal st"
    "r = Inr () \<Longrightarrow> covered os (realm st) (ReadPath path)"
    using checked_rights [of os "ReadPath path" st] checked_outcome(2,3) [of os "ReadPath path" st]
    by (simp_all add: m)
  show "rights (realm (snd (exists_sync_guarded os f path st))) = rights (realm st)
    \<and> (\<exists>cs. journal (snd (exists_sync_guarded os f path st)) = journal st @ cs
        \<and> list_all (lawful os f (realm st)) cs)"
    using one by (cases r) (auto simp: exists_sync_guarded_def check_acts check_act_eqs m)
qed

lemma mkdir_safe:
  assumes "WritePath path \<in> A"
  shows "safe_if os f A (mkdir f path options)" "safe_if os f A (mkdir_sync f path options)"
proof -
  have post: "yields (lift_sum (get_params f path options)) (\<lambda>(recursive, mode, p). resolve_path f [path] = Inr p)"
    by (auto simp: yields_def lift_sum_def get_params_def Let_def split: sum.splits prod.splits)
  have rest: "safe_if os f A (and_then (map_err (or_throw_msg (create_dir_error p))
        (sys (unit_reply f) (if recursive then CreateDirAll p else CreateDir p)))
        (\<lambda>_. and_then (map_err (or_throw_msg (chmod_error p)) (sys (unit_reply f) (SetPermissions p m))) (\<lambda>_. ret p)))"
    if "resolve_path f [path] = Inr p" for recursive m p
  proof -
    have from_path: "resolved_from os f r p" if "\<forall>a \<in> A. covered os r a" for r
      using that \<open>resolve_path f [path] = Inr p\<close> assms by (auto simp: resolved_from_def)
    have "safe_if os f A (sys (unit_reply f) (if recursive then CreateDirAll p else CreateDir p))"
      using from_path by (intro safe_sys) simp
    moreover have "safe_if os f A (sys (unit_reply f) (SetPermissions p m))"
      using from_path by (intro safe_sys) simp
    ultimately show ?thesis by (intro safe_and_then safe_map_err safe_ret)
  qed
  have "safe_if os f A (and_then (lift_sum (get_params f path options)) (\<lambda>(recursive, m, p).
      and_then (map_err (or_throw_msg (create_dir_error p))
        (sys (unit_reply f) (if recursive then CreateDirAll p else CreateDir p)))
        (\<lambda>_. and_then (map_err (or_throw_msg (chmod_error p)) (sys (unit_reply f) (SetPermissions p m))) (\<lambda>_. ret p))))"
  proof (rule safe_and_then_post [OF safe_lift_sum post], goal_cases)
    case (1 x)
    then show ?case by (cases x) (simp only: prod.case rest)
  qed
  then show "safe_if os f A (mkdir f path options)" "safe_if os f A (mkdir_sync f path options)"
    unfolding mkdir_def mkdir_sync_def set_mode_def set_mode_sync_def by assumption+
qed

lemma random_chars_set: "set (random_chars f len st) \<subseteq> set CHARS"
proof -
  have "0 < length CHARS" by (simp add: CHARS_def)
  then show ?thesis by (auto simp: random_chars_def)
qed

lemma mkdtemp_safe:
  assumes "WritePath pre \<in> A"
  shows "safe_if os f A (mkdtemp f pre)" "safe_if os f A (mkdtemp_sync f pre)"
proof -
  have one: "safe_if os f A (and_then (map_err (or_throw_msg (create_dir_error path))
      (sys (unit_reply f) (CreateDirAll path))) (\<lambda>_. ret path))"
    if "path = join_with '','' [pre, tag]" "set tag \<subseteq> set CHARS" for path tag
    using assms that by (intro safe_and_then safe_map_err safe_sys safe_ret) (auto simp: tagged_from_def)
  show "safe_if os f A (mkdtemp f pre)" "safe_if os f A (mkdtemp_sync f pre)"
    using one [OF refl random_chars_set] unfolding safe_if_def mkdtemp_def mkdtemp_sync_def Let_def by blast+
qed

lemmas guard_defs = append_file_guarded_def append_file_sync_guarded_def realpath_guarded_def
  realpath_sync_guarded_def chmod_guarded_def chmod_sync_guarded_def mkdir_guarded_def
  mkdir_sync_guarded_def open_guarded_def read_dir_guarded_def read_dir_sync_guarded_def
  read_file_guarded_def read_file_sync_guarded_def rename_guarded_def rename_sync_guarded_def
  rmdir_guarded_def rmdir_sync_guarded_def rmfile_guarded_def rmfile_sync_guarded_def
  stat_guarded_def stat_sync_guarded_def lstat_guarded_def lstat_sync_guarded_def
  symlink_guarded_def symlink_sync_guarded_def write_file_guarded_def write_file_sync_guarded_def
  check_acts check_act_eqs

lemma serve_safe: "safe_if os f {} (serve os f e)"
proof (cases e)
  case (Access sync path mode)
  then show ?thesis by (cases sync) (simp_all add: safe_discard access_guarded_safe)
next
  case (MakeDir sync path options)
  then show ?thesis by (cases sync) (auto simp: guard_defs intro!: safe_discard safe_checked mkdir_safe)
next
  case (MakeTemp sync pre)
  then show ?thesis
    by (cases sync) (auto simp: guard_defs mkdtemp_guarded_def mkdtemp_sync_guarded_def
        intro!: safe_discard safe_checked mkdtemp_safe)
next
  case (OpenFile path flags mode)
  then show ?thesis by (simp add: open_guarded_def safe_discard check_open_flags_safe)
next
  case (ExistsSync path)
  then show ?thesis by (simp add: safe_discard exists_sync_guarded_safe)
next
  case (ReadDir sync n path options)
  then show ?thesis by (cases sync) (auto simp: guard_defs intro!: safe_discard safe_checked read_dir_safe)
next
  case (Rename sync p q)
  then show ?thesis by (cases sync) (auto simp: guard_defs intro!: safe_discard safe_checked rename_safe)
next
  case (ChangeMode sync path mode)
  then show ?thesis by (cases sync) (auto simp: guard_defs intro!: safe_discard safe_checked write_ops_safe)
next
  case (RemoveDirectory sync path options)
  then show ?thesis by (cases sync) (auto simp: guard_defs intro!: safe_discard safe_checked write_ops_safe)
next
  case (Remove sync path options)
  then show ?thesis by (cases sync) (auto simp: guard_defs intro!: safe_discard safe_checked write_ops_safe)
next
  case (MakeLink sync target path)
  then show ?thesis by (cases sync) (auto simp: guard_defs intro!: safe_discard safe_checked write_ops_safe)
next
  case (WriteFile sync path data options)
  then show ?thesis by (cases sync) (auto simp: guard_defs intro!: safe_discard safe_checked write_ops_safe)
next
  case (ReadFile sync sd path options)
  then show ?thesis by (cases sync) (auto simp: guard_defs intro!: safe_discard safe_checked read_ops_safe)
next
  case (RealPath sync path encoding)
  then show ?thesis by (cases sync) (auto simp: guard_defs intro!: safe_discard safe_checked read_ops_safe)
next
  case (Stat sync path)
  then show ?thesis by (cases sync) (auto simp: guard_defs intro!: safe_discard safe_checked read_ops_safe)
next
  case (Lstat sync path)
  then show ?thesis by (cases sync) (auto simp: guard_defs intro!: safe_discard safe_checked read_ops_safe)
next
  case (AppendFile path data options)
  then show ?thesis by (auto simp: guard_defs intro!: safe_discard safe_checked write_ops_safe)
next
  case (AppendFileSync path data options)
  then show ?thesis by (auto simp: guard_defs intro!: safe_discard safe_checked write_ops_safe)
qed

subsection \<open>Scripts\<close>

text \<open>A script calls file operations and drops rights. The file system may change between two of its
  actions, so each comes with the system its checks see. \<open>fs_run\<close> lists the calls made.\<close>

datatype action = Operate entry | DropRight string "string option"

fun act_step :: "os \<Rightarrow> files \<Rightarrow> action \<Rightarrow> fs_state \<Rightarrow> fs_state" where
  "act_step os f (Operate e) st = snd (serve os f e st)"
| "act_step os f (DropRight k r) st = snd (realm_drop os k r st)"

fun fs_run :: "files \<Rightarrow> (os \<times> action) list \<Rightarrow> fs_state \<Rightarrow> (os \<times> sys_call) list" where
  "fs_run f [] st = []"
| "fs_run f ((os, a) # script) st =
     (let st' = act_step os f a st
      in map (Pair os) (drop (length (journal st)) (journal st')) @ fs_run f script st')"

text \<open>What a realm may still do with files, against a policy and a hook it once had.\<close>

definition within :: "container \<Rightarrow> container option \<Rightarrow> bool" where
  "within c0 r \<longleftrightarrow>
     (\<exists>c. r = Some c \<and> hook c = hook c0
        \<and> (\<forall>os a. access_kind a \<noteq> Net \<longrightarrow> is_ok (static_check os (policy c) a) \<longrightarrow> is_ok (static_check os (policy c0) a)))"

lemma within_rights: "rights r = rights r' \<Longrightarrow> within c0 r \<Longrightarrow> within c0 r'"
  unfolding within_def by (cases r; cases r') (auto simp: rights_def)

lemma within_covered: "within c0 r \<Longrightarrow> access_kind a \<noteq> Net \<Longrightarrow> covered os r a \<Longrightarrow> covered os (Some c0) a"
  by (auto simp: within_def covered_def hook_allows_def)

lemma container_deny_hook [simp]: "hook (snd (container_deny os k r c)) = hook c"
  by (auto simp: container_deny_def split: sum.splits)

lemma within_step:
  assumes "within c0 (Some c)" "hook (container_step call c) = hook c"
  shows "within c0 (Some (container_step call c))"
  using assms step_narrows [where c = c and call = call] unfolding within_def by auto

lemma within_drop:
  assumes "within c0 (realm st)"
  shows "within c0 (realm (snd (realm_drop os k r st)))" "journal (snd (realm_drop os k r st)) = journal st"
proof -
  obtain c where c: "realm st = Some c" using assms by (auto simp: within_def)
  show "within c0 (realm (snd (realm_drop os k r st)))"
  proof (cases "kind_from_str k")
    case (Inl m)
    with assms show ?thesis by (simp add: realm_drop_def)
  next
    case (Inr kd)
    show ?thesis
    proof (cases r)
      case None
      have "within c0 (Some (container_step (Revoke (without_kind kd (policy c))) c))"
        using assms c by (intro within_step) (auto simp: revoke_def)
      with Inr None c show ?thesis by (simp add: realm_drop_def)
    next
      case (Some res)
      have "within c0 (Some (container_step (DenyMore os kd res) c))"
        using assms c by (intro within_step) auto
      with Inr Some c show ?thesis
        by (auto simp: realm_drop_def split: prod.splits sum.splits)
    qed
  qed
  show "journal (snd (realm_drop os k r st)) = journal st"
    by (auto simp: realm_drop_def split: sum.splits option.splits prod.splits)
qed

lemma fs_run_within:
  assumes "within c0 (realm st)"
  shows "list_all (\<lambda>(os, call). lawful os f (Some c0) call) (fs_run f script st)"
  using assms
proof (induction script arbitrary: st)
  case (Cons x script)
  obtain os a where x: "x = (os, a)" by force
  let ?st = "act_step os f a st"
  have "within c0 (realm ?st)
    \<and> (\<exists>cs. journal ?st = journal st @ cs \<and> list_all (lawful os f (Some c0)) cs)"
  proof (cases a)
    case (Operate e)
    then obtain cs where new: "rights (realm ?st) = rights (realm st)" "journal ?st = journal st @ cs"
      "list_all (lawful os f (realm st)) cs"
      using serve_safe [of os f e] by (auto simp: safe_if_def)
    have "lawful os f (Some c0) d" if "lawful os f (realm st) d" for d
      using lawful_mono [OF within_covered [OF Cons.prems] that] by blast
    with new(3) have "list_all (lawful os f (Some c0)) cs" by (simp add: list_all_iff)
    with new Cons.prems(1) show ?thesis using within_rights by metis
  next
    case (DropRight k r)
    with within_drop [OF Cons.prems(1)] show ?thesis by simp
  qed
  with Cons.IH [of ?st] show ?case by (auto simp: x Let_def list_all_iff)
qed simp


text \<open>The answers of an operating system that never fails, for examples.\<close>

definition calm :: files where
  "calm = \<lparr>unit_reply = (\<lambda>_ _. Inr ()),
     metadata_reply = (\<lambda>_ _. Inr \<lparr>md_readonly = False, md_mode = 0, md_is_dir = False\<rparr>),
     bytes_reply = (\<lambda>_ _. Inr ''contents''), path_reply = (\<lambda>_ _. Inr ''/''), names_reply = (\<lambda>_ _. Inr []),
     exists_reply = (\<lambda>_ _. True), current_dir = Inr ''/'', random_fill = (\<lambda>_ n. replicate n (CHR ''a''))\<rparr>"

definition plain_os :: os where
  "plain_os = \<lparr>os_cwd = Some [RootDir], os_canonicalize = (\<lambda>p. if abs_normal p then Some p else None), os_vars = []\<rparr>"

subsection \<open>Refusals\<close>

text \<open>What an entry point asks for, in its order.\<close>

fun asks :: "entry \<Rightarrow> access list" where
  "asks (Access sync path mode) =
     (let m = unwrap_or CONSTANT_F_OK mode in
      (if m AND CONSTANT_W_OK \<noteq> 0
       then WritePath path # (if m AND (CONSTANT_R_OK OR CONSTANT_X_OK) \<noteq> 0 then [ReadPath path] else [])
       else [ReadPath path]))"
| "asks (ChangeMode sync path mode) = [WritePath path]"
| "asks (MakeDir sync path options) = [WritePath path]"
| "asks (MakeTemp sync pre) = [WritePath pre]"
| "asks (ReadDir sync n path options) = [ReadPath path]"
| "asks (ReadFile sync sd path options) = [ReadPath path]"
| "asks (RealPath sync path encoding) = [ReadPath path]"
| "asks (Rename sync p q) = [WritePath p, WritePath q]"
| "asks (RemoveDirectory sync path options) = [WritePath path]"
| "asks (Remove sync path options) = [WritePath path]"
| "asks (Stat sync path) = [ReadPath path]"
| "asks (Lstat sync path) = [ReadPath path]"
| "asks (MakeLink sync target path) = [WritePath path]"
| "asks (WriteFile sync path data options) = [WritePath path]"
| "asks (AppendFile path data options) = [WritePath path]"
| "asks (AppendFileSync path data options) = [WritePath path]"
| "asks (OpenFile path flags mode) =
     (let fl = unwrap_or ''r'' flags in
      if fl \<in> {''r'', ''rs'', ''sr''} then [ReadPath path]
      else if fl \<in> {''r+'', ''rs+'', ''sr+'', ''w+'', ''wx+'', ''xw+'', ''a+'', ''ax+'', ''xa+'', ''as+'', ''sa+''}
      then [ReadPath path, WritePath path] else [WritePath path])"
| "asks (ExistsSync path) = [ReadPath path]"

fun check_all :: "os \<Rightarrow> access list \<Rightarrow> (js_error, unit) act" where
  "check_all os [] = ret ()"
| "check_all os (a # as) = and_then (checked (container_check os a)) (\<lambda>_. check_all os as)"

lemma discard_and_then: "discard (and_then m k) = and_then m (\<lambda>x. discard (k x))"
  by (simp add: discard_def and_then_assoc)

lemma serve_shape:
  assumes "\<And>path. e \<noteq> ExistsSync path"
  shows "\<exists>m. serve os f e = and_then (check_all os (asks e)) (\<lambda>_. m)"
proof -
  have one: "\<exists>m. discard (and_then (checked (container_check os a)) (\<lambda>_. k)) = and_then (check_all os [a]) (\<lambda>_. m)"
    for a and k :: "(js_error, 'x) act"
    by (rule exI [of _ "discard k"]) (simp add: discard_and_then and_then_assoc)
  have two: "\<exists>m. discard (and_then (checked (container_check os a))
      (\<lambda>_. and_then (checked (container_check os b)) (\<lambda>_. k))) = and_then (check_all os [a, b]) (\<lambda>_. m)"
    for a b and k :: "(js_error, 'x) act"
    by (rule exI [of _ "discard k"]) (simp add: discard_and_then and_then_assoc)
  show ?thesis
    by (cases "(os, f, e)" rule: serve.cases)
      (use assms in \<open>auto simp: guard_defs access_guarded_def access_sync_guarded_def check_access_mode_eq
        open_guarded_def check_open_flags_def mkdtemp_guarded_def mkdtemp_sync_guarded_def Let_def and_then_assoc
        simp del: check_all.simps insert_iff intro: one two\<close>)
qed

text \<open>A refusal names the path and the kind of access.\<close>

definition refusal :: "access \<Rightarrow> js_error" where
  "refusal a = Denied_Thrown \<lparr>denied_kind = access_kind a, denied_resource = access_resource a\<rparr>"

definition refused :: "os \<Rightarrow> container \<Rightarrow> access \<Rightarrow> bool" where
  "refused os c a \<longleftrightarrow> \<not> is_ok (static_check os (policy c) a) \<and> \<not> hook_allows c a"

lemma static_check_denied:
  "static_check os p a = Inl d \<Longrightarrow> access_kind a \<in> {Read, Write} \<Longrightarrow>
     d = \<lparr>denied_kind = access_kind a, denied_resource = access_resource a\<rparr>"
  by (cases a) (auto simp: check_read_def check_write_def check_path_def Let_def split: if_splits)

lemma decide_Inl: "fst (decide k r s c) = Inl d \<Longrightarrow> s = Inl d"
  by (cases s) (auto simp: decide_def Let_def split: option.splits if_splits)

lemma checked_cases:
  assumes "realm st = Some c" "access_kind a \<in> {Read, Write}"
  shows "\<exists>c'. policy c' = policy c \<and> hook c' = hook c \<and>
    (if refused os c a
     then checked (container_check os a) st = (Inl (refusal a), st\<lparr>realm := Some c'\<rparr>)
     else checked (container_check os a) st = (Inr (), st\<lparr>realm := Some c'\<rparr>)
       \<or> \<not> is_ok (static_check os (policy c) a)
         \<and> checked (container_check os a) st = (Inl (refusal a), st\<lparr>realm := Some c'\<rparr>))"
proof -
  obtain r c' where r: "container_check os a c = (r, c')" by force
  then have keep: "policy c' = policy c" "hook c' = hook c"
    by (auto simp: container_check_eq dest: arg_cong [of _ _ "\<lambda>x. policy (snd x)"]
        arg_cong [of _ _ "\<lambda>x. hook (snd x)"])
  have ok: "is_ok r \<longleftrightarrow> is_ok (static_check os (policy c) a) \<or>
      (\<exists>h. hook c = Some h \<and> h (asked c) (request_of a) = Allow)"
    using r decide_outcome by (metis container_check_eq fst_conv request_of_def)
  have "r = Inr () \<or> r = Inl \<lparr>denied_kind = access_kind a, denied_resource = access_resource a\<rparr>"
    using r assms(2) static_check_denied decide_Inl by (cases r) (metis container_check_eq fst_conv, simp)
  then show ?thesis
  proof
    assume "r = Inr ()"
    then show ?thesis using keep r ok assms(1)
      by (intro exI [of _ c']) (auto simp: checked_def refused_def hook_allows_def)
  next
    assume "r = Inl \<lparr>denied_kind = access_kind a, denied_resource = access_resource a\<rparr>"
    then show ?thesis using keep r ok assms(1)
      by (intro exI [of _ c']) (auto simp: checked_def refusal_def)
  qed
qed

lemma check_all_refuses:
  assumes "realm st = Some c" "\<forall>a \<in> set as. access_kind a \<in> {Read, Write}" "\<exists>a \<in> set as. refused os c a"
  shows "\<exists>c'. \<exists>a \<in> set as. \<not> is_ok (static_check os (policy c) a)
    \<and> check_all os as st = (Inl (refusal a), st\<lparr>realm := Some c'\<rparr>)"
  using assms
proof (induction as arbitrary: st c)
  case (Cons a as)
  have "access_kind a \<in> {Read, Write}" using Cons.prems(2) by simp
  from checked_cases [OF Cons.prems(1) this, of os] obtain c' where c': "policy c' = policy c" "hook c' = hook c"
    "if refused os c a
     then checked (container_check os a) st = (Inl (refusal a), st\<lparr>realm := Some c'\<rparr>)
     else checked (container_check os a) st = (Inr (), st\<lparr>realm := Some c'\<rparr>)
       \<or> \<not> is_ok (static_check os (policy c) a)
         \<and> checked (container_check os a) st = (Inl (refusal a), st\<lparr>realm := Some c'\<rparr>)" by blast
  show ?case
  proof (cases "checked (container_check os a) st = (Inr (), st\<lparr>realm := Some c'\<rparr>)")
    case True
    then have "\<not> refused os c a" using c'(3) by auto
    then have "\<exists>b \<in> set as. refused os c' b"
      using Cons.prems(3) c'(1,2) by (auto simp: refused_def hook_allows_def)
    with Cons.IH [of "st\<lparr>realm := Some c'\<rparr>" c'] Cons.prems(2) c'(1) True show ?thesis
      by (auto simp: and_then_def)
  next
    case False
    with c'(3) have "checked (container_check os a) st = (Inl (refusal a), st\<lparr>realm := Some c'\<rparr>)"
      "\<not> is_ok (static_check os (policy c) a)" by (auto simp: refused_def split: if_splits)
    then show ?thesis by (auto simp: and_then_def)
  qed
qed simp

lemma asks_files: "a \<in> set (asks e) \<Longrightarrow> access_kind a \<in> {Read, Write}"
  by (cases e) (auto simp: Let_def split: if_splits)

text \<open>C10 (error): when an access an operation asks for is refused by the policy, and the realm has no hook
  that ever allows that request, no call reaches the operating system, whatever else the operation asks
  for and also when the path does not exist or the arguments are bad. The script gets an exception that
  names an access the policy refuses, by its kind and path; only \<open>existsSync\<close> throws nothing and answers
  that the path does not exist.\<close>

theorem refused_reaches_nothing:
  assumes "realm st = Some c" "\<exists>a \<in> set (asks e). refused os c a"
  shows "journal (snd (serve os f e st)) = journal st
     \<and> (case e of
          ExistsSync path \<Rightarrow> fst (exists_sync_guarded os f path st) = Inr False
        | _ \<Rightarrow> \<exists>a \<in> set (asks e). \<not> is_ok (static_check os (policy c) a) \<and> fst (serve os f e st) = Inl (refusal a))"
proof (cases "\<exists>path. e = ExistsSync path")
  case True
  then obtain path where e: "e = ExistsSync path" by blast
  have "refused os c (ReadPath path)" using assms(2) by (simp add: e)
  with checked_cases [OF assms(1), of "ReadPath path" os] obtain c' where
    "checked (container_check os (ReadPath path)) st = (Inl (refusal (ReadPath path)), st\<lparr>realm := Some c'\<rparr>)" by auto
  then show ?thesis
    by (simp add: e exists_sync_guarded_def check_acts check_act_eqs discard_def and_then_def ret_def)
next
  case False
  then obtain m where m: "serve os f e = and_then (check_all os (asks e)) (\<lambda>_. m)"
    using serve_shape [of e os f] by blast
  from check_all_refuses [OF assms(1) _ assms(2)] asks_files obtain c' a where
    a: "a \<in> set (asks e)" "\<not> is_ok (static_check os (policy c) a)"
      "check_all os (asks e) st = (Inl (refusal a), st\<lparr>realm := Some c'\<rparr>)" by blast
  have "journal (snd (serve os f e st)) = journal st" "fst (serve os f e st) = Inl (refusal a)"
    by (simp_all add: m and_then_def a(3))
  then show ?thesis using a(1,2) False by (auto simp del: serve.simps asks.simps split: entry.split)
qed

text \<open>C10: a renaming out of the only writable directory, in a realm whose hook allows the rest.\<close>

theorem refused_reaches_nothing_witness:
  "let c = with_hook (\<lambda>_ r. if req_resource r = ''/etc/a'' then Deny else Allow)
         (container_new (allow_write plain_os [''/data''] permissions_none));
       st = \<lparr>realm = Some c, journal = []\<rparr>; e = Rename True ''/data/a'' ''/etc/a''
   in journal (snd (serve plain_os calm e st)) = []"
proof -
  let ?c = "with_hook (\<lambda>_ r. if req_resource r = ''/etc/a'' then Deny else Allow)
         (container_new (allow_write plain_os [''/data''] permissions_none))"
  let ?e = "Rename True ''/data/a'' ''/etc/a''"
  have "\<not> is_ok (static_check plain_os (policy ?c) (WritePath ''/etc/a''))" by code_simp
  then have "\<exists>a \<in> set (asks ?e). refused plain_os ?c a"
    by (simp add: refused_def hook_allows_def with_hook_def request_of_def)
  from refused_reaches_nothing [of "\<lparr>realm = Some ?c, journal = []\<rparr>" ?c ?e plain_os calm, OF _ this]
  show ?thesis by (simp add: Let_def del: serve.simps asks.simps)
qed

subsection \<open>Where the checks see another path\<close>

text \<open>
  How an operating system resolves a path (POSIX, 4.13): link by link, and \<open>..\<close> leads to the parent of
  the directory reached, not of the name written before it. A file system is the list of what its
  absolute paths name; \<open>n\<close> bounds the links followed.
\<close>

datatype node = Plain | Link path

fun posix_walk :: "(path \<times> node) list \<Rightarrow> nat \<Rightarrow> path \<Rightarrow> path \<Rightarrow> path option" where
  "posix_walk tree n at [] = Some at"
| "posix_walk tree n at (RootDir # rest) = posix_walk tree n [RootDir] rest"
| "posix_walk tree n at (CurDir # rest) = posix_walk tree n at rest"
| "posix_walk tree n at (ParentDir # rest) =
     posix_walk tree n (if at = [RootDir] then at else butlast at) rest"
| "posix_walk tree 0 at (Normal x # rest) =
     (if map_of tree (at @ [Normal x]) = Some Plain then posix_walk tree 0 (at @ [Normal x]) rest else None)"
| "posix_walk tree (Suc n) at (Normal x # rest) =
     (case map_of tree (at @ [Normal x]) of
        None \<Rightarrow> None
      | Some Plain \<Rightarrow> posix_walk tree (Suc n) (at @ [Normal x]) rest
      | Some (Link target) \<Rightarrow> posix_walk tree n at (target @ rest))"

definition posix_os :: "(path \<times> node) list \<Rightarrow> path \<Rightarrow> os" where
  "posix_os tree cwd =
     \<lparr>os_cwd = Some cwd, os_canonicalize = (\<lambda>p. posix_walk tree 40 cwd p), os_vars = []\<rparr>"

lemma abs_normal_parent: "abs_normal p \<Longrightarrow> p \<noteq> [RootDir] \<Longrightarrow> abs_normal (butlast p)"
  by (cases p rule: rev_cases) (auto simp: abs_normal_append split: if_splits)

lemma abs_normal_snoc: "abs_normal p \<Longrightarrow> abs_normal (p @ [Normal x])"
  using abs_normal_names [of p "[x]"] by simp

lemma posix_walk_abs_normal:
  "posix_walk tree n at p = Some q \<Longrightarrow> abs_normal at \<Longrightarrow> abs_normal q"
  by (induction tree n at p rule: posix_walk.induct)
    (auto simp: abs_normal_snoc abs_normal_parent split: option.splits node.splits if_splits)

lemma posix_os_ok: "abs_normal cwd \<Longrightarrow> os_ok (posix_os tree cwd)"
  by (auto simp: os_ok_def posix_os_def abs_normal_absolute posix_walk_abs_normal)

text \<open>The checks take \<open>..\<close> away before they look at links, the operating system after. A link out of
  the granted directory, which the script may make itself because the target of a link is not
  checked, followed by \<open>..\<close> leads to any file beside the target: the check sees a path below the
  root, and the call opens a file outside it.\<close>

definition linked_tree :: "(path \<times> node) list" where
  "linked_tree = [([RootDir, Normal ''data''], Plain), ([RootDir, Normal ''etc''], Plain),
     ([RootDir, Normal ''etc'', Normal ''ssl''], Plain), ([RootDir, Normal ''etc'', Normal ''passwd''], Plain),
     ([RootDir, Normal ''data'', Normal ''l''], Link [RootDir, Normal ''etc'', Normal ''ssl''])]"

lemma parent_of_link_escapes:
  defines "os \<equiv> posix_os linked_tree [RootDir]"
  defines "c \<equiv> container_new (allow_write os [''/data''] (allow_read os [''/data''] permissions_none))"
  shows "map snd (fs_run calm [(os, Operate (MakeLink True ''/etc/ssl'' ''/data/m'')),
           (os, Operate (ReadFile True reference_simd ''/data/l/../passwd'' None))]
         \<lparr>realm = Some c, journal = []\<rparr>)
       = [SymlinkTo ''/etc/ssl'' ''/data/m'', ReadWhole ''/data/l/../passwd'']
     \<and> os_canonicalize os (components ''/data/l/../passwd'') = Some [RootDir, Normal ''etc'', Normal ''passwd'']"
  unfolding os_def c_def by code_simp

subsection \<open>What a read opens\<close>

text \<open>Documented behaviour of the operating system: a relative path is resolved from the current
  directory, which has no \<open>.\<close>, no \<open>..\<close> and no links in it.\<close>

definition resolves_from_cwd :: "os \<Rightarrow> bool" where
  "resolves_from_cwd os \<longleftrightarrow>
     (\<forall>cwd. os_cwd os = Some cwd \<longrightarrow> abs_normal cwd)
     \<and> (\<forall>p. os_canonicalize os p = os_canonicalize os (absolute os p))"

lemma components_body:
  assumes "c \<in> set (List.map_filter component_of segs)" "c \<noteq> ParentDir"
  shows "is_normal c"
  using assms by (auto simp: List.map_filter_def split: if_splits)

lemma absolute_plain:
  assumes "os_ok os" "resolves_from_cwd os" "ParentDir \<notin> set (components s)"
  shows "abs_normal (absolute os (components s))"
proof -
  obtain cwd where cwd: "os_cwd os = Some cwd" "abs_normal cwd"
    using assms(1,2) by (auto simp: os_ok_def resolves_from_cwd_def)
  define body where "body = List.map_filter component_of (split_char (CHR ''/'') s)"
  have comps: "components s = RootDir # body \<or> components s = CurDir # body \<or> components s = body"
    by (simp add: components_def body_def Let_def)
  then have "ParentDir \<notin> set body" using assms(3) by auto
  then have normal: "list_all is_normal body"
    using components_body by (auto simp: body_def list_all_iff)
  then have keep: "filter (\<lambda>c. c \<noteq> CurDir) body = body" "\<not> is_absolute body"
    by (auto simp: filter_id_conv list_all_iff is_absolute_def is_normal_iff) (cases body; force)
  then have abs: "\<not> is_absolute (CurDir # body)" by (simp add: is_absolute_def)
  have "cwd \<noteq> []" using cwd(2) by auto
  then have "abs_normal (cwd @ body)" using normal cwd(2) by (simp add: abs_normal_append)
  with comps keep abs normal cwd \<open>cwd \<noteq> []\<close> show ?thesis
    by (auto simp: absolute_def path_join_def is_absolute_def)
qed

text \<open>The calls that give a script the contents of a file: reading it whole and opening it for reading.\<close>

fun reads_path :: "sys_call \<Rightarrow> string \<Rightarrow> bool" where
  "reads_path (ReadWhole p) s = (p = s)"
| "reads_path (OpenWith opts p) s = (p = s \<and> oo_read opts)"
| "reads_path _ s = False"

lemma lawful_reads: "lawful os f r call \<Longrightarrow> reads_path call s \<Longrightarrow> covered os r (ReadPath s)"
  by (cases "(call, s)" rule: reads_path.cases) auto

text \<open>C8 (safety): a realm's policy at first grants reading below some directories. When its script reads
  a file with \<open>readFile\<close> or opens one for reading, by a path without \<open>..\<close>, the file the operating system
  finds there, links followed, lies below one of those directories, whatever the script did before and
  however the file system changed; or the realm has a hook that allows reading that path when asked.
  (With \<open>..\<close> in the path it need not: \<open>parent_of_link_escapes\<close>.) The operating system
  resolves a relative path from the current directory, and the file system is taken not to change
  between an operation's check and its call.\<close>

theorem script_reads_inside:
  assumes "may_read (policy c) = Only (map (path_rule_new os0) roots)" "os_ok os0"
    and "(os, call) \<in> set (fs_run f script (st\<lparr>realm := Some c\<rparr>))" "reads_path call s"
    and "os_ok os" "resolves_from_cwd os" "ParentDir \<notin> set (components s)"
    and "os_canonicalize os (components s) = Some real"
  shows "(\<exists>root \<in> set roots. \<exists>names. real = resolved (path_rule_new os0 root) @ map Normal names)
    \<or> hook_allows c (ReadPath s)"
proof -
  have "within c (realm (st\<lparr>realm := Some c\<rparr>))" by (simp add: within_def)
  from fs_run_within [OF this, of f script] assms(3) have "lawful os f (Some c) call"
    by (auto simp: list_all_iff)
  then have "covered os (Some c) (ReadPath s)" using assms(4) by (rule lawful_reads)
  then consider "hook_allows c (ReadPath s)" | "is_ok (check_read os (policy c) s)"
    by (auto simp: covered_def)
  then show ?thesis
  proof cases
    case 2
    then obtain root where root: "root \<in> set roots" "path_covers (path_rule_new os0 root) (checked_path_new os s)"
      using assms(1) by (auto simp: check_read_def check_path_ok_iff list_ex_iff)
    have plain: "abs_normal (absolute os (components s))" using absolute_plain assms(5-7) by blast
    have "os_canonicalize os (normalize (absolute os (components s))) = Some real"
      using normalize_abs_normal [OF plain] assms(6,8) by (simp add: resolves_from_cwd_def)
    then have "cand_resolved (checked_path_new os s) = real"
      by (simp add: checked_path_new_def Let_def resolve_existing_canonical)
    moreover have "abs_normal (cand_resolved (checked_path_new os s))" "abs_normal (resolved (path_rule_new os0 root))"
      using checked_path_new_normal [OF assms(5)] path_rule_new_normal [OF assms(2)] by blast+
    ultimately have "\<exists>names. real = resolved (path_rule_new os0 root) @ map Normal names"
      using root(2) by (intro prefix_below) (auto simp: path_covers_def)
    with root(1) show ?thesis by blast
  qed simp
qed

text \<open>On the file systems of \<open>posix_walk\<close>, as long as the current directory is the root.\<close>

lemma posix_walk_CurDirs: "\<forall>c \<in> set p. c = CurDir \<Longrightarrow> posix_walk tree n at (p @ q) = posix_walk tree n at q"
  by (induction p) auto

lemma posix_walk_head:
  assumes "filter (\<lambda>c. c \<noteq> CurDir) q = x # r"
  shows "\<exists>v. filter (\<lambda>c. c \<noteq> CurDir) v = r \<and> (\<forall>tree n at. posix_walk tree n at q = posix_walk tree n at (x # v))"
proof -
  from assms obtain u v where "q = u @ x # v" "\<forall>c \<in> set u. c = CurDir" "filter (\<lambda>c. c \<noteq> CurDir) v = r"
    by (auto simp: filter_eq_Cons_iff)
  then show ?thesis by (auto simp: posix_walk_CurDirs)
qed

lemma posix_walk_skip:
  "filter (\<lambda>c. c \<noteq> CurDir) p = filter (\<lambda>c. c \<noteq> CurDir) q \<Longrightarrow> posix_walk tree n at p = posix_walk tree n at q"
proof (induction tree n at p arbitrary: q rule: posix_walk.induct)
  case (1 tree n at)
  then have "\<forall>c \<in> set q. c = CurDir" by (auto dest!: sym [of "[]"] simp: filter_empty_conv)
  then show ?case using posix_walk_CurDirs [of q tree n at "[]"] by simp
next
  case (2 tree n at rest)
  then have "filter (\<lambda>c. c \<noteq> CurDir) q = RootDir # filter (\<lambda>c. c \<noteq> CurDir) rest" by simp
  from posix_walk_head [OF this] obtain v where "filter (\<lambda>c. c \<noteq> CurDir) v = filter (\<lambda>c. c \<noteq> CurDir) rest"
    "posix_walk tree n at q = posix_walk tree n at (RootDir # v)" by blast
  with "2.IH" [of v] show ?case by simp
next
  case (3 tree n at rest)
  then show ?case by simp
next
  case (4 tree n at rest)
  then have "filter (\<lambda>c. c \<noteq> CurDir) q = ParentDir # filter (\<lambda>c. c \<noteq> CurDir) rest" by simp
  from posix_walk_head [OF this] obtain v where "filter (\<lambda>c. c \<noteq> CurDir) v = filter (\<lambda>c. c \<noteq> CurDir) rest"
    "posix_walk tree n at q = posix_walk tree n at (ParentDir # v)" by blast
  with "4.IH" [of v] show ?case by simp
next
  case (5 tree at x rest)
  then have "filter (\<lambda>c. c \<noteq> CurDir) q = Normal x # filter (\<lambda>c. c \<noteq> CurDir) rest" by simp
  from posix_walk_head [OF this] obtain v where "filter (\<lambda>c. c \<noteq> CurDir) v = filter (\<lambda>c. c \<noteq> CurDir) rest"
    "posix_walk tree 0 at q = posix_walk tree 0 at (Normal x # v)" by blast
  with "5.IH" [of v] show ?case by simp
next
  case (6 tree n at x rest)
  then have "filter (\<lambda>c. c \<noteq> CurDir) q = Normal x # filter (\<lambda>c. c \<noteq> CurDir) rest" by simp
  from posix_walk_head [OF this] obtain v where v: "filter (\<lambda>c. c \<noteq> CurDir) v = filter (\<lambda>c. c \<noteq> CurDir) rest"
    "posix_walk tree (Suc n) at q = posix_walk tree (Suc n) at (Normal x # v)" by blast
  show ?case
  proof (cases "map_of tree (at @ [Normal x])")
    case (Some nd)
    show ?thesis
    proof (cases nd)
      case Plain
      with Some v "6.IH"(1) [OF Some Plain, of v] show ?thesis by simp
    next
      case (Link t)
      with Some v "6.IH"(2) [OF Some Link, of "t @ v"] show ?thesis by simp
    qed
  qed (simp add: v)
qed

lemma posix_resolves_from_root: "resolves_from_cwd (posix_os tree [RootDir])"
proof -
  have skip: "posix_walk tree n at (filter (\<lambda>c. c \<noteq> CurDir) p) = posix_walk tree n at p" for n at p
    by (rule posix_walk_skip) simp
  have "posix_walk tree n at (RootDir # p) = posix_walk tree n [RootDir] p" for n at p by (cases n) simp_all
  then show ?thesis
    by (auto simp: resolves_from_cwd_def posix_os_def absolute_def path_join_def skip)
qed

text \<open>C1: a file below a granted directory that is itself a link.\<close>

definition moved_tree :: "(path \<times> node) list" where
  "moved_tree = [([RootDir, Normal ''data''], Link [RootDir, Normal ''disk'']), ([RootDir, Normal ''disk''], Plain),
     ([RootDir, Normal ''disk'', Normal ''a''], Plain)]"

theorem script_reads_inside_witness:
  "\<exists>root \<in> set [''/data'']. \<exists>names. [RootDir, Normal ''disk'', Normal ''a''] =
     resolved (path_rule_new (posix_os moved_tree [RootDir]) root) @ map Normal names"
proof -
  let ?os = "posix_os moved_tree [RootDir]"
  let ?c = "container_new (allow_read ?os [''/data''] permissions_none)"
  let ?script = "[(?os, Operate (ReadFile True reference_simd ''/data/a'' None))]"
  let ?st = "\<lparr>realm = None, journal = []\<rparr>"
  have read: "may_read (policy ?c) = Only (map (path_rule_new ?os) [''/data''])"
    by (simp add: container_new_def allow_read_def)
  have "is_ok (check_read ?os (policy ?c) ''/data/a'')" by code_simp
  then have "fst (checked (container_check ?os (ReadPath ''/data/a'')) (?st\<lparr>realm := Some ?c\<rparr>)) = Inr ()"
    by (cases "check_read ?os (policy ?c) ''/data/a''")
      (simp_all add: checked_def container_check_read_def decide_def container_new_def)
  then have "(?os, ReadWhole ''/data/a'') \<in> set (fs_run calm ?script (?st\<lparr>realm := Some ?c\<rparr>))"
    using checked_outcome(2) [of ?os "ReadPath ''/data/a''" "?st\<lparr>realm := Some ?c\<rparr>"]
    by (auto simp: guard_defs discard_def and_then_def op_defs map_err_def sys_def lift_sum_def ret_def
        split: prod.splits sum.splits)
  moreover have "ParentDir \<notin> set (components ''/data/a'')"
    "os_canonicalize ?os (components ''/data/a'') = Some [RootDir, Normal ''disk'', Normal ''a'']" by code_simp+
  moreover have "\<not> hook_allows ?c (ReadPath ''/data/a'')" by (simp add: hook_allows_def container_new_def)
  ultimately show ?thesis
    using script_reads_inside [OF read, of ?os "ReadWhole ''/data/a''" calm ?script ?st "''/data/a''"
        "[RootDir, Normal ''disk'', Normal ''a'']"] posix_os_ok [of "[RootDir]" moved_tree] posix_resolves_from_root
    by simp
qed

subsection \<open>Operations that act on another path\<close>

text \<open>\<open>mkdtemp\<close> checks the prefix and creates another path, with a comma and six characters after it: a
  directory beside the one granted.\<close>

lemma mkdtemp_leaves_root:
  "let os = posix_os [([RootDir, Normal ''data''], Plain)] [RootDir];
       c = container_new (allow_write os [''/data/x''] permissions_none)
   in map snd (fs_run calm [(os, Operate (MakeTemp True ''/data/x''))] \<lparr>realm = Some c, journal = []\<rparr>)
        = [CreateDirAll ''/data/x,JJJJJJ'']
      \<and> \<not> is_ok (check_write os (policy c) ''/data/x,JJJJJJ'')"
  by code_simp

text \<open>\<open>mkdir\<close> resolves its path itself, and \<open>..\<close> above the root leaves an empty buffer to which the rest
  is appended without a slash: the directory is made below the current directory, not below the
  root that was checked.\<close>

lemma mkdir_climbs_to_relative:
  "let os = posix_os [] [RootDir, Normal ''home''];
       f = calm\<lparr>current_dir := Inr ''/home''\<rparr>;
       c = container_new (allow_write os [''/tmp''] permissions_none)
   in map snd (fs_run f [(os, Operate (MakeDir True ''../tmp/a'' None))] \<lparr>realm = Some c, journal = []\<rparr>)
        = [CreateDir ''tmp/a'', SetPermissions ''tmp/a'' 0x1FF]
      \<and> \<not> is_ok (check_write os (policy c) ''tmp/a'')"
  by code_simp

text \<open>A recursive \<open>readdir\<close> asks for its root only and lists a directory below it that is denied.\<close>

definition secret_files :: files where
  "secret_files = calm\<lparr>
     names_reply := (\<lambda>_ call. Inr (if call = ReadDirectory ''/data'' then [Inr ''secret'']
       else if call = ReadDirectory ''/data/secret'' then [Inr ''key''] else [])),
     metadata_reply := (\<lambda>_ call. Inr \<lparr>md_readonly = False, md_mode = 0,
       md_is_dir = (call = SymlinkMetadata ''/data/secret'')\<rparr>)\<rparr>"

lemma recursive_listing_ignores_denials:
  "let os = posix_os [] [RootDir];
       c = container_new (deny_read os [''/data/secret''] (allow_read os [''/data''] permissions_none));
       opts = Some \<lparr>with_file_types = None, dir_recursive = Some True\<rparr>
   in fst (read_dir_sync_guarded os secret_files 9 ''/data'' opts \<lparr>realm = Some c, journal = []\<rparr>)
        = Inr (Some ([(''secret'', None), (''secret/key'', None)], ''/data''))
      \<and> \<not> is_ok (check_read os (policy c) ''/data/secret'')"
  by code_simp

text \<open>Listing the root directory reads the empty path; names in the current directory keep a slash.\<close>

lemma root_listing_reads_nothing:
  "map snd (fs_run calm [(plain_os, Operate (ReadDir True 9 ''/'' None))] \<lparr>realm = None, journal = []\<rparr>)
     = [ReadDirectory []]"
  by code_simp

lemma current_listing_has_slash:
  "fst (read_dir_sync (calm\<lparr>names_reply := (\<lambda>_ _. Inr [Inr ''a''])\<rparr>) 9 ''.'' None \<lparr>realm = None, journal = []\<rparr>)
     = Inr (Some ([(''/a'', None)], ''.''))"
  by code_simp

end
