(* ===== verification/Dir_Walk.thy ===== *)
theory Dir_Walk
  imports Fs_Runs "HOL-Library.Multiset"
begin

text \<open>
  The directory walker of \<open>crates/ferrijs-std/src/utils/fs.rs\<close> on a finite tree: a recursive \<open>readdir\<close>
  ends after one turn for each entry and one more, and lists each of them once, in order.
\<close>

datatype dir_tree = File | Branch "(string \<times> dir_tree) list"


fun below :: "string \<Rightarrow> dir_tree \<Rightarrow> string list" where
  "below p File = []"
| "below p (Branch kids) =
     concat (map (\<lambda>(name, t). child_path p name # below (child_path p name) t) kids)"



definition entries :: "(string \<times> dir_tree) list \<Rightarrow> string list" where
  "entries ts = concat (map (\<lambda>(p, t). p # below p t) ts)"

lemma entries_simps [simp]:
  "entries [] = []" "entries ((p, t) # ts) = p # below p t @ entries ts"
  "entries (ts @ us) = entries ts @ entries us"
  by (simp_all add: entries_def)














text \<open>A slash that is left at the end of the path is counted twice: names lose their first letter.\<close>

lemma double_slash_cuts_names:
  "fst (read_dir_sync (calm\<lparr>names_reply := (\<lambda>_ _. Inr [Inr ''abc''])\<rparr>) 9 ''d//'' None \<lparr>realm = None, journal = []\<rparr>)
     = Inr (Some ([(''bc'', None)], ''d/''))"
  by code_simp

end
