(* ===== verification/Header_List.thy ===== *)
theory Header_List
  imports Prelude "HOL-Library.Char_ord" "HOL-Library.List_Lexorder"
begin

text \<open>
  The WHATWG header list, \<open>crates/ferrijs-fetch/src/headers.rs\<close>: an ordered list of name and
  value with case-insensitive lookup, and the syntax of names and values. The locale
  \<open>header_map\<close> is what the fetch engine relies on.
\<close>

type_synonym headers = "(string \<times> string) list"

subsection \<open>Names and values\<close>

definition token_char :: "char \<Rightarrow> bool" where
  "token_char c =
     (let n = of_char c :: nat
      in c \<in> set ''!#$%&*+-.^_|~'' \<or> n = 39 \<or> n = 96
         \<or> (48 \<le> n \<and> n \<le> 57) \<or> (65 \<le> n \<and> n \<le> 90) \<or> (97 \<le> n \<and> n \<le> 122))"

definition is_valid_name :: "string \<Rightarrow> bool" where
  "is_valid_name name = (name \<noteq> [] \<and> list_all token_char name)"

text \<open>
  \<open>is_valid_value\<close> looks at characters: a tab, a form feed, the visible ASCII range with the
  space, or U+00A0, which is the two bytes C2 A0.
\<close>

fun is_valid_value :: "string \<Rightarrow> bool" where
  "is_valid_value [] = True"
| "is_valid_value (c # cs) =
     (let n = of_char c :: nat
      in if n = 9 \<or> n = 12 \<or> (32 \<le> n \<and> n \<le> 126) then is_valid_value cs
         else if n = 0xC2 \<and> cs \<noteq> [] \<and> hd cs = CHR 0xA0 then is_valid_value (tl cs)
         else False)"

definition is_blank :: "char \<Rightarrow> bool" where
  "is_blank c = (c = CHR 0x20 \<or> c = CHR 0x09)"

text \<open>
  The loop of \<open>normalize_value\<close>: \<open>out\<close> is what has been written, \<open>pending\<close> the white space
  read and not yet written. Only ASCII bytes are dropped or moved, so the final
  \<open>from_utf8_lossy\<close> changes nothing.
\<close>

function normalize_loop :: "string \<Rightarrow> char option \<Rightarrow> string \<Rightarrow> string" where
  "normalize_loop out pending [] = out"
| "normalize_loop out pending (c # cs) =
     (if c = CHR 0x0D \<and> 2 \<le> length cs \<and> cs ! 0 = CHR 0x0A \<and> is_blank (cs ! 1)
      then normalize_loop out (Some (cs ! 1)) (drop 2 cs)
      else if c = CHR 0x0D \<or> c = CHR 0x0A then normalize_loop out pending cs
      else if is_blank c then normalize_loop out (Some c) cs
      else normalize_loop
             ((case pending of Some ws \<Rightarrow> if out \<noteq> [] then out @ [ws] else out | None \<Rightarrow> out) @ [c])
             None cs)"
  by pat_completeness auto
termination
  by (relation "measure (\<lambda>(out, pending, s). length s)") auto

definition trim_blank_end :: "string \<Rightarrow> string" where
  "trim_blank_end s = rev (dropWhile is_blank (rev s))"

definition normalize_value :: "string \<Rightarrow> string" where
  "normalize_value text = trim_blank_end (normalize_loop [] None (dropWhile is_blank text))"

subsection \<open>The list\<close>

fun position_of :: "string \<Rightarrow> headers \<Rightarrow> nat option" where
  "position_of name [] = None"
| "position_of name ((k, v) # es) =
     (if eq_ignore_ascii_case k name then Some 0 else map_option Suc (position_of name es))"

definition get_all :: "string \<Rightarrow> headers \<Rightarrow> string list" where
  "get_all name h = map snd (filter (\<lambda>(k, _). eq_ignore_ascii_case k name) h)"

definition get_combined :: "string \<Rightarrow> headers \<Rightarrow> string option" where
  "get_combined name h =
     (let values = get_all name h
      in if values = [] then None
         else Some (join_with
                (if eq_ignore_ascii_case name ''set-cookie'' then [CHR 0x0A] else '', '') values))"

definition get_first :: "string \<Rightarrow> headers \<Rightarrow> string option" where
  "get_first name h = map_option (\<lambda>i. snd (h ! i)) (position_of name h)"

definition get_set_cookie :: "headers \<Rightarrow> string list" where
  "get_set_cookie h = get_all ''set-cookie'' h"

definition contains :: "string \<Rightarrow> headers \<Rightarrow> bool" where
  "contains name h = (position_of name h \<noteq> None)"

text \<open>The \<open>retain\<close> of \<open>set\<close> keeps the first entry of the name.\<close>

fun retain_first :: "string \<Rightarrow> bool \<Rightarrow> headers \<Rightarrow> headers" where
  "retain_first name seen [] = []"
| "retain_first name seen ((k, v) # es) =
     (if eq_ignore_ascii_case k name
      then (if seen then retain_first name True es else (k, v) # retain_first name True es)
      else (k, v) # retain_first name seen es)"

definition set_header :: "string \<Rightarrow> string \<Rightarrow> headers \<Rightarrow> headers" where
  "set_header name value h =
     (case position_of name h of
        Some i \<Rightarrow> retain_first (to_ascii_lowercase name) False (h[i := (fst (h ! i), value)])
      | None \<Rightarrow> h @ [(name, value)])"

definition set_if_absent :: "string \<Rightarrow> string \<Rightarrow> headers \<Rightarrow> headers" where
  "set_if_absent name value h = (if contains name h then h else h @ [(name, value)])"

definition append_header :: "string \<Rightarrow> string \<Rightarrow> headers \<Rightarrow> headers" where
  "append_header name value h = h @ [(name, value)]"

definition append_combined :: "string \<Rightarrow> string \<Rightarrow> headers \<Rightarrow> headers" where
  "append_combined name_lc value h =
     (if name_lc = ''set-cookie'' then h @ [(name_lc, value)]
      else (case position_of name_lc h of
              Some i \<Rightarrow> h[i := (fst (h ! i), snd (h ! i) @ '', '' @ value)]
            | None \<Rightarrow> h @ [(name_lc, value)]))"

definition get_joined :: "string \<Rightarrow> headers \<Rightarrow> string option" where
  "get_joined name h =
     (let values = get_all name h in if values \<noteq> [] then Some (join_with '', '' values) else None)"

definition sorted_entries :: "headers \<Rightarrow> headers" where
  "sorted_entries h = sort_key fst h"

definition remove_header :: "string \<Rightarrow> headers \<Rightarrow> headers" where
  "remove_header name h = filter (\<lambda>(k, _). \<not> eq_ignore_ascii_case k name) h"

fun to_object_loop :: "headers \<Rightarrow> headers \<Rightarrow> headers \<Rightarrow> headers" where
  "to_object_loop h out [] = out"
| "to_object_loop h out ((name, v) # es) =
     (let lower = to_ascii_lowercase name
      in if list_ex (\<lambda>(k, _). k = lower) out then to_object_loop h out es
         else to_object_loop h
                (out @ [(lower, case get_combined lower h of Some c \<Rightarrow> c | None \<Rightarrow> [])]) es)"

definition to_object :: "headers \<Rightarrow> headers" where
  "to_object h = to_object_loop h [] h"

subsection \<open>The contract\<close>

text \<open>
  A multimap with names compared up to ASCII case: what a lookup returns after each operation.
\<close>

locale header_map =
  fixes all_of :: "string \<Rightarrow> 'h \<Rightarrow> string list"
    and has :: "string \<Rightarrow> 'h \<Rightarrow> bool"
    and put :: "string \<Rightarrow> string \<Rightarrow> 'h \<Rightarrow> 'h"
    and del :: "string \<Rightarrow> 'h \<Rightarrow> 'h"
  assumes has_iff: "has n h \<longleftrightarrow> all_of n h \<noteq> []"
    and all_of_put: "all_of m (put n v h) = (if eq_ignore_ascii_case n m then [v] else all_of m h)"
    and all_of_del: "all_of m (del n h) = (if eq_ignore_ascii_case n m then [] else all_of m h)"
begin

lemma has_put: "has m (put n v h) \<longleftrightarrow> eq_ignore_ascii_case n m \<or> has m h"
  by (simp add: has_iff all_of_put)

lemma has_del: "has m (del n h) \<longleftrightarrow> \<not> eq_ignore_ascii_case n m \<and> has m h"
  by (simp add: has_iff all_of_del)

lemma put_put: "all_of m (put n v (put n w h)) = all_of m (put n v h)"
  by (simp add: all_of_put)

lemma del_put: "all_of m (del n (put n v h)) = all_of m (del n h)"
  by (simp add: all_of_put all_of_del)

text \<open>Removing a list of names.\<close>

lemma all_of_foldl_del:
  "all_of m (foldl (\<lambda>h n. del n h) h ns)
     = (if \<exists>n \<in> set ns. eq_ignore_ascii_case n m then [] else all_of m h)"
  by (induction ns arbitrary: h) (auto simp: all_of_del)

end

lemma position_of_None: "position_of name h = None \<longleftrightarrow> get_all name h = []"
  by (induction name h rule: position_of.induct) (auto simp: get_all_def)

lemma contains_iff: "contains name h \<longleftrightarrow> get_all name h \<noteq> []"
  by (simp add: contains_def position_of_None)

lemma position_of_Some:
  "position_of name h = Some i \<Longrightarrow>
     i < length h \<and> eq_ignore_ascii_case (fst (h ! i)) name
     \<and> (\<forall>j < i. \<not> eq_ignore_ascii_case (fst (h ! j)) name)"
proof (induction name h arbitrary: i rule: position_of.induct)
  case (2 name k v es)
  then show ?case by (cases i) (auto simp: less_Suc_eq_0_disj split: if_splits)
qed simp

lemma position_of_split:
  assumes "position_of name h = Some i"
  obtains pre k v post where "h = pre @ (k, v) # post" "i = length pre"
    "eq_ignore_ascii_case k name" "get_all name pre = []"
  using assms
proof (induction name h arbitrary: i thesis rule: position_of.induct)
  case (2 name k v es)
  show ?case
  proof (cases "eq_ignore_ascii_case k name")
    case True
    with "2.prems" show ?thesis by (auto simp: get_all_def intro: "2.prems"(1) [of "[]"])
  next
    case False
    with "2.prems"(2) obtain j where j: "position_of name es = Some j" "i = Suc j"
      by auto
    from "2.IH" [OF False _ j(1)] obtain pre k' v' post where
      "es = pre @ (k', v') # post" "j = length pre" "eq_ignore_ascii_case k' name"
      "get_all name pre = []" by metis
    with False j(2) show ?thesis
      by (intro "2.prems"(1) [of "(k, v) # pre" k' v' post]) (auto simp: get_all_def)
  qed
qed simp

lemma retain_first_seen: "retain_first name True h = remove_header name h"
  by (induction h) (auto simp: remove_header_def)

lemma retain_first_absent: "get_all name h = [] \<Longrightarrow> retain_first name b h = h"
  by (induction name b h rule: retain_first.induct) (auto simp: get_all_def split: if_splits)

lemma retain_first_append:
  "get_all name pre = [] \<Longrightarrow> retain_first name b (pre @ h) = pre @ retain_first name b h"
  by (induction pre) (auto simp: get_all_def split: if_splits)

lemma get_all_lower [simp]: "get_all (to_ascii_lowercase n) h = get_all n h"
  by (simp add: get_all_def)

lemma set_header_present:
  assumes "h = pre @ (k, v) # post" "eq_ignore_ascii_case k name" "get_all name pre = []"
  shows "set_header name value h = pre @ (k, value) # remove_header name post"
proof -
  have "position_of name h = Some (length pre)"
    using assms by (induction pre arbitrary: h) (auto simp: get_all_def split: if_splits prod.splits)
  then show ?thesis
    using assms(2,3)
    by (simp add: set_header_def assms(1) retain_first_append retain_first_seen nth_append
        remove_header_def)
qed

lemma set_header_absent: "get_all name h = [] \<Longrightarrow> set_header name value h = h @ [(name, value)]"
  by (simp add: set_header_def position_of_None [symmetric])

lemma get_all_append [simp]: "get_all m (a @ b) = get_all m a @ get_all m b"
  by (simp add: get_all_def)

lemma get_all_remove:
  "get_all m (remove_header n h) = (if eq_ignore_ascii_case n m then [] else get_all m h)"
  by (induction h) (auto simp: get_all_def remove_header_def eq_ignore_ascii_case_def)

lemma get_all_eq_name: "eq_ignore_ascii_case n m \<Longrightarrow> get_all m h = get_all n h"
  by (auto simp: get_all_def eq_ignore_ascii_case_def)

lemma get_all_Cons:
  "get_all m ((k, v) # h) = (if eq_ignore_ascii_case k m then v # get_all m h else get_all m h)"
  by (simp add: get_all_def)

lemma get_all_Nil [simp]: "get_all m [] = []"
  by (simp add: get_all_def)

lemma get_all_set:
  "get_all m (set_header n v h) = (if eq_ignore_ascii_case n m then [v] else get_all m h)"
proof (cases "position_of n h")
  case None
  then have "get_all n h = []" by (simp add: position_of_None)
  then show ?thesis
    using get_all_eq_name [of n m h] by (auto simp: set_header_absent get_all_Cons)
next
  case (Some i)
  then obtain pre k w post where h: "h = pre @ (k, w) # post" "eq_ignore_ascii_case k n"
    "get_all n pre = []" by (rule position_of_split)
  then have "eq_ignore_ascii_case k m \<longleftrightarrow> eq_ignore_ascii_case n m"
    by (auto simp: eq_ignore_ascii_case_def)
  moreover have "eq_ignore_ascii_case n m \<Longrightarrow> get_all m pre = []"
    using h(3) get_all_eq_name by simp
  ultimately show ?thesis
    using set_header_present [OF h, of v] h(1) by (auto simp: get_all_Cons get_all_remove)
qed

interpretation hdrs: header_map get_all contains set_header remove_header
  by unfold_locales (auto simp: contains_iff get_all_set get_all_remove)

subsection \<open>Normalised values\<close>

definition no_crlf :: "string \<Rightarrow> bool" where
  "no_crlf s = (CHR 0x0D \<notin> set s \<and> CHR 0x0A \<notin> set s)"

lemma normalize_loop_no_crlf:
  "no_crlf out \<Longrightarrow> (\<forall>w. pending = Some w \<longrightarrow> is_blank w) \<Longrightarrow> no_crlf (normalize_loop out pending s)"
proof (induction out pending s rule: normalize_loop.induct)
  case (2 out pending c cs)
  have "no_crlf ((case pending of Some ws \<Rightarrow> if out \<noteq> [] then out @ [ws] else out | None \<Rightarrow> out) @ [c])"
    if "c \<noteq> CHR 0x0D" "c \<noteq> CHR 0x0A"
    using "2.prems" that by (cases pending) (auto simp: no_crlf_def is_blank_def)
  with "2" show ?case by simp
qed simp

lemma set_trim_blank_end: "set (trim_blank_end s) \<subseteq> set s"
proof
  fix x assume "x \<in> set (trim_blank_end s)"
  then have "x \<in> set (dropWhile is_blank (rev s))" by (simp add: trim_blank_end_def)
  then show "x \<in> set s" by (auto dest: set_dropWhileD)
qed

lemma normalize_value_no_crlf: "no_crlf (normalize_value s)"
proof -
  have "no_crlf (normalize_loop [] None (dropWhile is_blank s))"
    by (rule normalize_loop_no_crlf) (auto simp: no_crlf_def)
  then show ?thesis
    unfolding normalize_value_def no_crlf_def using set_trim_blank_end by blast
qed

text \<open>
  What the loop writes: it starts with no blank and no two blanks are adjacent, so a second
  normalisation finds nothing to do.
\<close>

fun single_blanks :: "string \<Rightarrow> bool" where
  "single_blanks [] = True"
| "single_blanks [c] = True"
| "single_blanks (c # d # cs) = (\<not> (is_blank c \<and> is_blank d) \<and> single_blanks (d # cs))"

lemma single_blanks_snoc:
  "single_blanks (s @ [c]) \<longleftrightarrow> single_blanks s \<and> (s \<noteq> [] \<longrightarrow> \<not> (is_blank (last s) \<and> is_blank c))"
  by (induction s rule: single_blanks.induct) auto

definition normal_text :: "string \<Rightarrow> bool" where
  "normal_text s \<longleftrightarrow>
     no_crlf s \<and> single_blanks s \<and> (s \<noteq> [] \<longrightarrow> \<not> is_blank (hd s) \<and> \<not> is_blank (last s))"

lemma normal_text_push:
  assumes "normal_text out" "\<not> is_blank c" "c \<noteq> CHR 0x0D" "c \<noteq> CHR 0x0A"
  shows "normal_text (out @ [c])"
    and "is_blank w \<Longrightarrow> out \<noteq> [] \<Longrightarrow> normal_text (out @ [w, c])"
proof -
  have "single_blanks (out @ [c])"
    using assms by (simp add: normal_text_def single_blanks_snoc)
  with assms show "normal_text (out @ [c])"
    by (cases out) (auto simp: normal_text_def no_crlf_def)
  assume "is_blank w" "out \<noteq> []"
  then have "single_blanks (out @ [w])"
    using assms(1) by (simp add: normal_text_def single_blanks_snoc)
  then have "single_blanks ((out @ [w]) @ [c])"
    using assms(2) by (subst single_blanks_snoc) simp
  with assms \<open>out \<noteq> []\<close> \<open>is_blank w\<close> show "normal_text (out @ [w, c])"
    by (auto simp: normal_text_def no_crlf_def is_blank_def)
qed

lemma normalize_loop_normal:
  "normal_text out \<Longrightarrow> (\<forall>w. pending = Some w \<longrightarrow> is_blank w) \<Longrightarrow>
     normal_text (normalize_loop out pending s)"
proof (induction out pending s rule: normalize_loop.induct)
  case (2 out pending c cs)
  let ?out = "(case pending of Some ws \<Rightarrow> if out \<noteq> [] then out @ [ws] else out | None \<Rightarrow> out) @ [c]"
  have push: "normal_text ?out" if "\<not> is_blank c" "c \<noteq> CHR 0x0D" "c \<noteq> CHR 0x0A"
    using normal_text_push [OF "2.prems"(1) that] "2.prems"(2)
    by (cases pending) auto
  with "2" show ?case by simp
qed simp

lemma trim_blank_end_normal: "normal_text s \<Longrightarrow> trim_blank_end s = s"
  by (cases s rule: rev_cases) (auto simp: normal_text_def trim_blank_end_def)

lemma normal_text_normalize_value: "normal_text (normalize_value s)"
proof -
  have "normal_text (normalize_loop [] None (dropWhile is_blank s))"
    by (rule normalize_loop_normal) (auto simp: normal_text_def no_crlf_def)
  then show ?thesis by (simp add: normalize_value_def trim_blank_end_normal)
qed

lemma single_blanks_append: "single_blanks (a @ b) \<Longrightarrow> single_blanks b"
proof (induction a)
  case (Cons c a)
  then show ?case by (cases "a @ b") auto
qed simp

lemma normalize_loop_id:
  assumes "single_blanks s" "no_crlf s" "out \<noteq> []" "s \<noteq> [] \<longrightarrow> \<not> is_blank (last s)"
  shows "normalize_loop out None s = out @ s"
  using assms
proof (induction "length s" arbitrary: out s rule: less_induct)
  case less
  show ?case
  proof (cases s)
    case (Cons c cs)
    then have cr: "c \<noteq> CHR 0x0D" "c \<noteq> CHR 0x0A" and cs: "no_crlf cs" "single_blanks cs"
      using less.prems single_blanks_append [of "[c]" cs] by (auto simp: no_crlf_def)
    show ?thesis
    proof (cases "is_blank c")
      case False
      with Cons cr cs less.prems(4) less.hyps [of cs "out @ [c]"] show ?thesis
        by (auto split: if_splits)
    next
      case True
      then obtain d ds where d: "cs = d # ds" "\<not> is_blank d"
        using Cons less.prems(1,4) by (cases cs) auto
      then have "d \<noteq> CHR 0x0D" "d \<noteq> CHR 0x0A" "no_crlf ds" "single_blanks ds"
        using cs single_blanks_append [of "[d]" ds] by (auto simp: no_crlf_def)
      with Cons cr True d less.prems(3,4) less.hyps [of ds "out @ [c, d]"] show ?thesis
        by (auto split: if_splits)
    qed
  qed simp
qed

lemma normalize_value_id: "normal_text s \<Longrightarrow> normalize_value s = s"
proof (cases s)
  case (Cons c cs)
  assume n: "normal_text s"
  then have c: "\<not> is_blank c" "c \<noteq> CHR 0x0D" "c \<noteq> CHR 0x0A" "no_crlf cs" "single_blanks cs"
    using Cons single_blanks_append [of "[c]" cs] by (auto simp: normal_text_def no_crlf_def)
  then have "normalize_loop [] None (c # cs) = [c] @ cs"
    using normalize_loop_id [of cs "[c]"] n Cons by (auto simp: normal_text_def split: if_splits)
  with c n Cons show ?thesis by (simp add: normalize_value_def trim_blank_end_normal)
qed (simp add: normalize_value_def trim_blank_end_def)

subsection \<open>Combining\<close>

text \<open>A list in which every name but \<open>set-cookie\<close> occurs once, with lower-case names.\<close>

definition combined :: "headers \<Rightarrow> bool" where
  "combined h \<longleftrightarrow>
     list_all (\<lambda>(k, _). to_ascii_lowercase k = k) h
     \<and> distinct (filter (\<lambda>k. k \<noteq> ''set-cookie'') (map fst h))"

lemma lower_name_absent:
  "list_all (\<lambda>(k, _). to_ascii_lowercase k = k) h \<Longrightarrow> to_ascii_lowercase n = n \<Longrightarrow>
     position_of n h = None \<longleftrightarrow> n \<notin> fst ` set h"
proof (induction h)
  case (Cons e h)
  then show ?case by (cases e) (auto simp: eq_ignore_ascii_case_def)
qed simp

lemma combined_append_combined:
  assumes "combined h" "to_ascii_lowercase n = n"
  shows "combined (append_combined n v h)"
proof (cases "n = ''set-cookie'' \<or> position_of n h = None")
  case True
  with assms show ?thesis
    using lower_name_absent [of h n]
    by (auto simp: combined_def append_combined_def)
next
  case False
  then obtain i where i: "position_of n h = Some i" by auto
  then have "i < length h" by (simp add: position_of_Some)
  moreover from this have names: "map fst (h[i := (fst (h ! i), w)]) = map fst h" for w
    by (metis list_update_id map_update nth_map fst_conv)
  moreover have "list_all (\<lambda>(k, _). to_ascii_lowercase k = k) (h[i := (fst (h ! i), w)])
      \<longleftrightarrow> list_all (\<lambda>k. to_ascii_lowercase k = k) (map fst (h[i := (fst (h ! i), w)]))" for w
    by (simp add: list.pred_map case_prod_unfold comp_def)
  ultimately show ?thesis
    using False assms(1) i
    by (auto simp: combined_def append_combined_def list.pred_map case_prod_unfold comp_def)
qed

text \<open>\<open>to_object\<close>: the distinct lower-cased names in order of first appearance.\<close>

lemma to_object_loop_distinct:
  "distinct (map fst out) \<Longrightarrow> distinct (map fst (to_object_loop h out es))"
proof (induction h out es rule: to_object_loop.induct)
  case (2 h out name v es)
  then show ?case by (force simp: Let_def list_ex_iff)
qed simp

lemma to_object_loop_set:
  "fst ` set (to_object_loop h out es) = fst ` set out \<union> (to_ascii_lowercase \<circ> fst) ` set es"
proof (induction h out es rule: to_object_loop.induct)
  case (2 h out name v es)
  have "list_ex (\<lambda>(k, _). k = to_ascii_lowercase name) out \<longleftrightarrow> to_ascii_lowercase name \<in> fst ` set out"
    by (force simp: list_ex_iff)
  with "2" show ?case by (auto simp: Let_def)
qed simp

lemma to_object_loop_value:
  "(\<forall>(k, v) \<in> set out. get_combined k h = Some v) \<Longrightarrow> set es \<subseteq> set h \<Longrightarrow>
     (k, v) \<in> set (to_object_loop h out es) \<Longrightarrow> get_combined k h = Some v"
proof (induction h out es rule: to_object_loop.induct)
  case (2 h out name w es)
  have "get_all (to_ascii_lowercase name) h \<noteq> []"
    using "2.prems"(2) by (auto simp: get_all_def filter_empty_conv intro!: bexI [of _ "(name, w)"])
  then have "\<exists>c. get_combined (to_ascii_lowercase name) h = Some c"
    by (auto simp: get_combined_def Let_def)
  with "2" show ?case by (auto simp: Let_def split: if_splits option.splits)
qed auto

lemma get_first_get_all: "get_first n h = (case get_all n h of [] \<Rightarrow> None | v # _ \<Rightarrow> Some v)"
proof (cases "position_of n h")
  case None
  then show ?thesis by (simp add: get_first_def position_of_None)
next
  case (Some i)
  then obtain pre k v post where "h = pre @ (k, v) # post" "i = length pre" "eq_ignore_ascii_case k n"
    "get_all n pre = []" by (rule position_of_split)
  with Some show ?thesis by (simp add: get_first_def get_all_Cons)
qed

lemma get_all_update:
  assumes "position_of n h = Some i"
  shows "get_all m (h[i := (fst (h ! i), w)])
    = (if eq_ignore_ascii_case n m then w # tl (get_all m h) else get_all m h)"
proof -
  from assms obtain pre k v post where h: "h = pre @ (k, v) # post" "eq_ignore_ascii_case k n"
    "get_all n pre = []" "length pre = i" by (rule position_of_split) auto
  then have "eq_ignore_ascii_case k m \<longleftrightarrow> eq_ignore_ascii_case n m"
    by (auto simp: eq_ignore_ascii_case_def)
  moreover have "eq_ignore_ascii_case n m \<Longrightarrow> get_all m pre = []"
    using h(3) get_all_eq_name by simp
  ultimately show ?thesis using h(1,4) by (auto simp: get_all_Cons list_update_append)
qed

subsection \<open>Properties\<close>

text \<open>C38 (replacing and removing): after \<open>set\<close> a name has the one value set and after \<open>remove\<close>
  none, whatever the case it is written in, and no other name's values change; \<open>append\<close> adds a
  value after the others.\<close>

theorem headers_set_remove_append:
  "get_all m (set_header n v h) = (if eq_ignore_ascii_case n m then [v] else get_all m h)
   \<and> get_all m (remove_header n h) = (if eq_ignore_ascii_case n m then [] else get_all m h)
   \<and> get_all m (append_header n v h)
       = (if eq_ignore_ascii_case n m then get_all m h @ [v] else get_all m h)
   \<and> get_all m (set_if_absent n v h)
       = (if eq_ignore_ascii_case n m \<and> get_all m h = [] then [v] else get_all m h)"
  using get_all_eq_name [of n m h]
  by (auto simp: get_all_set get_all_remove append_header_def set_if_absent_def contains_iff get_all_Cons)

text \<open>A normalised value has no line break left, so a header value cannot split
  a message, no run of blanks and no blank at its end; normalising it again changes nothing.\<close>

theorem normalize_value_stable:
  "no_crlf (normalize_value v) \<and> single_blanks (normalize_value v)
   \<and> normalize_value (normalize_value v) = normalize_value v"
  using normal_text_normalize_value [of v] normalize_value_id [OF normal_text_normalize_value [of v]]
  by (simp add: normal_text_def)

text \<open>Appending a value combines it with the name's one entry, and a list in which
  each name but \<open>set-cookie\<close> has one entry stays so; cookies stay apart, in order.\<close>

theorem append_combined_combines:
  assumes "combined h" "to_ascii_lowercase n = n"
  shows "combined (append_combined n v h)
    \<and> get_set_cookie (append_combined n v h)
        = (if n = ''set-cookie'' then get_set_cookie h @ [v] else get_set_cookie h)
    \<and> (if n = ''set-cookie'' then True
       else get_first n (append_combined n v h)
         = Some (case get_first n h of None \<Rightarrow> v | Some w \<Rightarrow> w @ '', '' @ v))"
proof -
  have sc: "to_ascii_lowercase ''set-cookie'' = ''set-cookie''"
    by (simp add: eval_simps)
  have names: "eq_ignore_ascii_case n ''set-cookie'' \<longleftrightarrow> n = ''set-cookie''"
    using assms(2) sc by (simp add: eq_ignore_ascii_case_def)
  show ?thesis
  proof (cases "position_of n h")
    case None
    then have "get_all n h = []" by (simp add: position_of_None)
    with None names combined_append_combined [OF assms] show ?thesis
      by (auto simp: append_combined_def get_set_cookie_def get_first_get_all get_all_Cons)
  next
    case (Some i)
    have "get_first n h = Some (snd (h ! i))" by (simp add: get_first_def Some)
    moreover have "get_first n (h[i := (fst (h ! i), w)]) = Some w" for w
      by (simp add: get_first_get_all get_all_update [OF Some])
    ultimately show ?thesis
      using Some names combined_append_combined [OF assms, of v]
      by (simp add: append_combined_def get_set_cookie_def get_all_update get_all_Cons)
  qed
qed

theorem append_combined_combines_witness:
  "get_first ''vary'' (append_combined ''vary'' ''origin'' [(''accept'', ''a''), (''vary'', ''accept'')])
     = Some ''accept, origin''"
proof -
  have "combined [(''accept'', ''a''), (''vary'', ''accept'')]" "to_ascii_lowercase ''vary'' = ''vary''"
    by (simp_all add: combined_def eval_simps)
  moreover have "get_first ''vary'' [(''accept'', ''a''), (''vary'', ''accept'')] = Some ''accept''"
    by (simp add: get_first_def get_all_def eq_ignore_ascii_case_def eval_simps)
  ultimately show ?thesis
    using append_combined_combines [of "[(''accept'', ''a''), (''vary'', ''accept'')]" "''vary''" "''origin''"]
    by simp
qed

text \<open>The object of a header list has each lower-cased name once and no other name, and
  under it the values of that name combined.\<close>

theorem to_object_faithful:
  "distinct (map fst (to_object h))
   \<and> fst ` set (to_object h) = (\<lambda>(k, _). to_ascii_lowercase k) ` set h
   \<and> set (to_object h) \<subseteq> {(k, v). get_combined k h = Some v}"
  using to_object_loop_distinct [of "[]" h h] to_object_loop_set [of h "[]" h]
    to_object_loop_value [of "[]" h h]
  by (auto simp: to_object_def case_prod_unfold comp_def)

end
