(* ===== verification/Ip_Addr.thy ===== *)
theory Ip_Addr
  imports Prelude
begin

text \<open>
  Internet addresses: the address classes of \<open>crates/ferrijs-permissions/src/lib.rs\<close>
  (\<open>is_metadata_ip\<close>, \<open>is_private_ip\<close>, \<open>canon_ip\<close>) and the reading of an address from text
  as \<open>std::net\<close> does it (\<open>IpAddr::from_str\<close>), which the network guard uses on a URL's host.
\<close>

unbundle bit_operations_syntax

type_synonym u8 = "8 word"
type_synonym u16 = "16 word"

datatype ipv4 = Ipv4 u8 u8 u8 u8
datatype ipv6 = Ipv6 u16 u16 u16 u16 u16 u16 u16 u16
datatype ip_addr = V4 ipv4 | V6 ipv6

subsection \<open>The standard library's address tests\<close>

fun v4_is_loopback :: "ipv4 \<Rightarrow> bool" where
  "v4_is_loopback (Ipv4 a b c d) = (a = 127)"

fun v4_is_private :: "ipv4 \<Rightarrow> bool" where
  "v4_is_private (Ipv4 a b c d) =
     (a = 10 \<or> (a = 172 \<and> 16 \<le> b \<and> b \<le> 31) \<or> (a = 192 \<and> b = 168))"

fun v4_is_link_local :: "ipv4 \<Rightarrow> bool" where
  "v4_is_link_local (Ipv4 a b c d) = (a = 169 \<and> b = 254)"

fun v4_is_unspecified :: "ipv4 \<Rightarrow> bool" where
  "v4_is_unspecified v = (v = Ipv4 0 0 0 0)"

fun v4_is_broadcast :: "ipv4 \<Rightarrow> bool" where
  "v4_is_broadcast v = (v = Ipv4 255 255 255 255)"

fun v6_is_loopback :: "ipv6 \<Rightarrow> bool" where
  "v6_is_loopback v = (v = Ipv6 0 0 0 0 0 0 0 1)"

fun v6_is_unspecified :: "ipv6 \<Rightarrow> bool" where
  "v6_is_unspecified v = (v = Ipv6 0 0 0 0 0 0 0 0)"

definition hi_byte :: "u16 \<Rightarrow> u8" where
  "hi_byte w = ucast (drop_bit 8 w)"

definition lo_byte :: "u16 \<Rightarrow> u8" where
  "lo_byte w = ucast w"

definition be_bytes :: "u8 \<Rightarrow> u8 \<Rightarrow> u16" where
  "be_bytes h l = push_bit 8 (ucast h) OR ucast l"

fun to_ipv4_mapped :: "ipv6 \<Rightarrow> ipv4 option" where
  "to_ipv4_mapped (Ipv6 s0 s1 s2 s3 s4 s5 s6 s7) =
     (if s0 = 0 \<and> s1 = 0 \<and> s2 = 0 \<and> s3 = 0 \<and> s4 = 0 \<and> s5 = 0xFFFF
      then Some (Ipv4 (hi_byte s6) (lo_byte s6) (hi_byte s7) (lo_byte s7)) else None)"

text \<open>\<open>Ipv4Addr::to_ipv6_mapped\<close>: the address \<open>::ffff:a.b.c.d\<close>.\<close>

fun to_ipv6_mapped :: "ipv4 \<Rightarrow> ipv6" where
  "to_ipv6_mapped (Ipv4 a b c d) = Ipv6 0 0 0 0 0 0xFFFF (be_bytes a b) (be_bytes c d)"

subsection \<open>The address classes\<close>

fun canon_ip :: "ip_addr \<Rightarrow> ip_addr" where
  "canon_ip (V6 v6) = (case to_ipv4_mapped v6 of None \<Rightarrow> V6 v6 | Some v4 \<Rightarrow> V4 v4)"
| "canon_ip (V4 v4) = V4 v4"

fun octet0 :: "ipv4 \<Rightarrow> u8" where "octet0 (Ipv4 a b c d) = a"
fun octet1 :: "ipv4 \<Rightarrow> u8" where "octet1 (Ipv4 a b c d) = b"
fun segment0 :: "ipv6 \<Rightarrow> u16" where "segment0 (Ipv6 s0 s1 s2 s3 s4 s5 s6 s7) = s0"

definition is_metadata_ip :: "ip_addr \<Rightarrow> bool" where
  "is_metadata_ip ip =
     (case canon_ip ip of
        V4 v4 \<Rightarrow> v4 = Ipv4 169 254 169 254
      | V6 v6 \<Rightarrow> v6 = Ipv6 0xFD00 0x0EC2 0 0 0 0 0 0x0254)"

definition is_private_ip :: "ip_addr \<Rightarrow> bool" where
  "is_private_ip ip =
     (case canon_ip ip of
        V4 v4 \<Rightarrow>
          v4_is_loopback v4 \<or> v4_is_private v4 \<or> v4_is_link_local v4 \<or> v4_is_unspecified v4
          \<or> v4_is_broadcast v4 \<or> octet0 v4 = 0
          \<or> (octet0 v4 = 100 \<and> 64 \<le> octet1 v4 \<and> octet1 v4 \<le> 127)
      | V6 v6 \<Rightarrow>
          v6_is_loopback v6 \<or> v6_is_unspecified v6
          \<or> segment0 v6 AND 0xFE00 = 0xFC00 \<or> segment0 v6 AND 0xFFC0 = 0xFE80)"

lemma hi_byte_be_bytes [simp]: "hi_byte (be_bytes h l) = h"
  unfolding hi_byte_def be_bytes_def
  by (rule bit_word_eqI) (auto simp: bit_simps dest: bit_imp_le_length)

lemma lo_byte_be_bytes [simp]: "lo_byte (be_bytes h l) = l"
  unfolding lo_byte_def be_bytes_def
  by (rule bit_word_eqI) (auto simp: bit_simps)

lemma to_ipv4_mapped_to_ipv6_mapped [simp]: "to_ipv4_mapped (to_ipv6_mapped v4) = Some v4"
  by (cases v4) simp

lemma canon_ip_mapped [simp]: "canon_ip (V6 (to_ipv6_mapped v4)) = V4 v4"
  by simp

lemma canon_ip_idem: "canon_ip (canon_ip ip) = canon_ip ip"
  by (cases ip) (auto split: option.splits)

lemma metadata_is_private: "is_metadata_ip ip \<Longrightarrow> is_private_ip ip"
  by (auto simp: is_metadata_ip_def is_private_ip_def split: ip_addr.splits)

subsection \<open>Reading an address\<close>

text \<open>
  The parser of \<open>std::net\<close>: each reader returns what it read and the rest, or nothing and then
  consumes nothing (\<open>read_atomically\<close>). A number has at most \<open>maxd\<close> digits; a leading zero is
  refused in an IPv4 part.
\<close>

definition hex_value :: "char \<Rightarrow> nat option" where
  "hex_value c =
     (let n = of_char c :: nat
      in if 48 \<le> n \<and> n \<le> 57 then Some (n - 48)
         else if 97 \<le> n \<and> n \<le> 102 then Some (n - 87)
         else if 65 \<le> n \<and> n \<le> 70 then Some (n - 55) else None)"

fun read_digits :: "(char \<Rightarrow> nat option) \<Rightarrow> nat \<Rightarrow> string \<Rightarrow> nat list \<times> string" where
  "read_digits dv radix [] = ([], [])"
| "read_digits dv radix (c # cs) =
     (case dv c of
        None \<Rightarrow> ([], c # cs)
      | Some d \<Rightarrow> (let (ds, r) = read_digits dv radix cs in (d # ds, r)))"

definition read_number ::
  "(char \<Rightarrow> nat option) \<Rightarrow> nat \<Rightarrow> nat \<Rightarrow> nat \<Rightarrow> bool \<Rightarrow> string \<Rightarrow> (nat \<times> string) option" where
  "read_number dv radix maxd lim allow_zero s =
     (let (ds, r) = read_digits dv radix s; n = foldl (\<lambda>a d. a * radix + d) 0 ds
      in if length ds > maxd \<or> ds = [] then None
         else if \<not> allow_zero \<and> hd ds = 0 \<and> length ds > 1 then None
         else if n < lim then Some (n, r) else None)"

fun read_char :: "char \<Rightarrow> string \<Rightarrow> string option" where
  "read_char c [] = None"
| "read_char c (x # xs) = (if x = c then Some xs else None)"

text \<open>\<open>read_separator\<close>: from the second element on, the separator first.\<close>

definition read_sep :: "char \<Rightarrow> nat \<Rightarrow> (string \<Rightarrow> ('a \<times> string) option) \<Rightarrow> string \<Rightarrow> ('a \<times> string) option" where
  "read_sep c i p s =
     (if i = 0 then p s else (case read_char c s of None \<Rightarrow> None | Some r \<Rightarrow> p r))"

definition read_octet :: "nat \<Rightarrow> string \<Rightarrow> (nat \<times> string) option" where
  "read_octet i = read_sep (CHR ''.'') i (read_number digit_value 10 3 256 False)"

definition read_ipv4 :: "string \<Rightarrow> (ipv4 \<times> string) option" where
  "read_ipv4 s =
     (case read_octet 0 s of None \<Rightarrow> None | Some (a, r0) \<Rightarrow>
     (case read_octet 1 r0 of None \<Rightarrow> None | Some (b, r1) \<Rightarrow>
     (case read_octet 2 r1 of None \<Rightarrow> None | Some (c, r2) \<Rightarrow>
     (case read_octet 3 r2 of None \<Rightarrow> None | Some (d, r3) \<Rightarrow>
        Some (Ipv4 (of_nat a) (of_nat b) (of_nat c) (of_nat d), r3)))))"

text \<open>
  \<open>read_groups\<close> fills up to \<open>limit\<close> groups from index \<open>i\<close>; an embedded IPv4 address counts for
  two and ends the address (the flag). The groups read are returned in order.
\<close>

fun ipv4_groups :: "ipv4 \<Rightarrow> u16 list" where
  "ipv4_groups (Ipv4 a b c d) = [be_bytes a b, be_bytes c d]"

function read_groups :: "nat \<Rightarrow> nat \<Rightarrow> string \<Rightarrow> u16 list \<times> bool \<times> string" where
  "read_groups i limit s =
     (if limit \<le> i then ([], False, s)
      else case (if i + 1 < limit then read_sep (CHR '':'') i read_ipv4 s else None) of
        Some (v4, r) \<Rightarrow> (ipv4_groups v4, True, r)
      | None \<Rightarrow>
          (case read_sep (CHR '':'') i (read_number hex_value 16 4 65536 True) s of
             None \<Rightarrow> ([], False, s)
           | Some (g, r) \<Rightarrow>
               (let (gs, v4, r') = read_groups (Suc i) limit r in (of_nat g # gs, v4, r'))))"
  by pat_completeness auto
termination
  by (relation "measure (\<lambda>(i, limit, s). limit - i)") auto

declare read_groups.simps [simp del]

definition ipv6_of_groups :: "u16 list \<Rightarrow> ipv6" where
  "ipv6_of_groups gs =
     Ipv6 (gs ! 0) (gs ! 1) (gs ! 2) (gs ! 3) (gs ! 4) (gs ! 5) (gs ! 6) (gs ! 7)"

definition read_ipv6 :: "string \<Rightarrow> (ipv6 \<times> string) option" where
  "read_ipv6 s =
     (let (head, head_v4, r) = read_groups 0 8 s
      in if length head = 8 then Some (ipv6_of_groups head, r)
         else if head_v4 then None
         else (case read_char (CHR '':'') r of None \<Rightarrow> None | Some r1 \<Rightarrow>
              (case read_char (CHR '':'') r1 of None \<Rightarrow> None | Some r2 \<Rightarrow>
                (let (tail, _, r3) = read_groups 0 (8 - (length head + 1)) r2
                 in Some (ipv6_of_groups
                      (head @ replicate (8 - length head - length tail) 0 @ tail), r3)))))"

definition parse_ip :: "string \<Rightarrow> ip_addr option" where
  "parse_ip s =
     (case (case read_ipv4 s of
              Some (v4, r) \<Rightarrow> Some (V4 v4, r)
            | None \<Rightarrow> (case read_ipv6 s of None \<Rightarrow> None | Some (v6, r) \<Rightarrow> Some (V6 v6, r))) of
        None \<Rightarrow> None
      | Some (ip, r) \<Rightarrow> if r = [] then Some ip else None)"

lemma parse_ip_v4_example: "parse_ip ''169.254.169.254'' = Some (V4 (Ipv4 169 254 169 254))"
  by code_simp

text \<open>A text that begins with neither a digit, hexadecimal or not, nor a colon is no address;
  brackets are no part of one.\<close>

lemma parse_ip_no_address:
  assumes "hex_value c = None" "c \<noteq> CHR '':''"
  shows "parse_ip (c # s) = None"
proof -
  have dv: "digit_value c = None"
    using assms(1) by (auto simp: digit_value_def hex_value_def Let_def split: if_splits)
  have num: "v c = None \<Longrightarrow> read_number v radix maxd lim z (c # s) = None" for v radix maxd lim z
    by (simp add: read_number_def)
  have v4: "read_ipv4 (c # s) = None"
    by (simp add: read_ipv4_def read_octet_def read_sep_def num dv)
  then have "read_groups 0 8 (c # s) = ([], False, c # s)"
    by (simp add: read_groups.simps [of 0] read_sep_def num assms(1))
  then have "read_ipv6 (c # s) = None"
    using assms(2) by (simp add: read_ipv6_def)
  with v4 show ?thesis by (simp add: parse_ip_def)
qed

lemma parse_ip_bracket: "parse_ip (CHR ''['' # s) = None"
  by (rule parse_ip_no_address) (simp_all add: hex_value_def)

text \<open>\<open>Ipv4Addr\<close> as \<open>Display\<close> and the URL parser write it, and that it is read back.\<close>

fun show_ipv4 :: "ipv4 \<Rightarrow> string" where
  "show_ipv4 (Ipv4 a b c d) =
     show_nat (unat a) @ ''.'' @ show_nat (unat b) @ ''.'' @ show_nat (unat c) @ ''.'' @ show_nat (unat d)"

lemma read_digits_all:
  "(\<And>c. c \<in> set s \<Longrightarrow> digit_value c \<noteq> None) \<Longrightarrow> r = [] \<or> digit_value (hd r) = None \<Longrightarrow>
     read_digits digit_value radix (s @ r) = (map (the \<circ> digit_value) s, r)"
proof (induction s)
  case Nil
  then show ?case by (cases r) simp_all
qed (auto split: option.splits)

lemma show_nat_value: "foldl (\<lambda>a d. a * 10 + d) 0 (map (the \<circ> digit_value) (show_nat n)) = n"
proof (induction n rule: show_nat.induct)
  case (1 n)
  then show ?case by (cases "n < 10") (simp_all add: show_nat.simps [of n])
qed

lemma show_nat_head: "0 < n \<Longrightarrow> the (digit_value (hd (show_nat n))) \<noteq> 0"
proof (induction n rule: show_nat.induct)
  case (1 n)
  show ?case
  proof (cases "n < 10")
    case False
    then have "hd (show_nat n) = hd (show_nat (n div 10))"
      by (simp add: show_nat.simps [of n])
    with 1 False show ?thesis by simp
  qed (use 1 in \<open>simp add: show_nat.simps [of n]\<close>)
qed

lemma show_nat_digit_values: "c \<in> set (show_nat n) \<Longrightarrow> digit_value c \<noteq> None"
  using show_nat_digits [of c n] by (simp add: digit_value_def Let_def)

lemma length_show_octet: "n < 256 \<Longrightarrow> length (show_nat n) \<le> 3"
  by (simp add: show_nat.simps [of n] show_nat.simps [of "n div 10"] show_nat.simps [of "n div 10 div 10"])

lemma read_number_show:
  assumes "n < 256" "r = [] \<or> digit_value (hd r) = None"
  shows "read_number digit_value 10 3 256 False (show_nat n @ r) = Some (n, r)"
proof -
  have "show_nat 0 = [digit_char 0]" by (simp add: show_nat.simps)
  then have "\<not> (the (digit_value (hd (show_nat n))) = 0 \<and> 1 < length (show_nat n))"
    using show_nat_head [of n] by (cases "n = 0") auto
  then show ?thesis
    using assms(1) length_show_octet [OF assms(1)] show_nat_value [of n]
      read_digits_all [of "show_nat n" r 10, OF show_nat_digit_values assms(2)]
    by (auto simp: read_number_def hd_map)
qed

lemma parse_ip_show_ipv4 [simp]: "parse_ip (show_ipv4 v4) = Some (V4 v4)"
proof (cases v4)
  case (Ipv4 a b c d)
  have lt: "unat w < 256" for w :: u8 using unsigned_less [of w] by simp
  have dot: "digit_value (CHR ''.'') = None" by code_simp
  have "read_ipv4 (show_ipv4 v4) = Some (v4, [])"
    unfolding Ipv4 show_ipv4.simps
    using read_number_show [OF lt, of "[]" d]
    by (simp add: read_ipv4_def read_octet_def read_sep_def read_number_show [OF lt] dot)
  then show ?thesis by (simp add: parse_ip_def)
qed

end
