(* ===== verification/Net_Guard.thy ===== *)
theory Net_Guard
  imports Container Ip_Addr
begin

text \<open>
  The network guard of \<open>crates/ferrijs-fetch/src/net_guard.rs\<close>: the check of one URL
  (\<open>check_url\<close>), the check of the initial URL text (\<open>preflight\<close>) and the filter on resolved
  addresses (\<open>GuardedResolver\<close>).

  URLs are parsed by the \<open>url\<close> crate, which is not part of the repository: a parsed URL is the
  record of what the code asks it, and the parser is a parameter. What decides whether a host may
  be reached is anything that implements the trait \<open>NetPolicy\<close>: a bare policy, or a container
  with its hook and audit. The trait's contract is the locale \<open>net_policy_contract\<close>, interpreted for both.
\<close>

text \<open>
  \<open>url_origin\<close> is \<open>None\<close> for an opaque origin, which no other origin equals; \<open>url_port\<close> is
  \<open>port_or_known_default\<close>.
\<close>

record url =
  url_text :: string
  url_scheme :: string
  url_host :: "string option"
  url_port :: "u16 option"
  url_path :: string
  url_origin :: "(string \<times> string \<times> u16 option) option"

datatype net_policy = OfPermissions permissions | OfContainer container

record net_guard =
  guard_policy :: "net_policy option"
  block_metadata :: bool
  block_private :: bool

datatype guard_error = Invalid string | Blocked ip_addr | GuardDenied denied

text \<open>
  \<open>NetPolicy::check\<close> for its two implementations. A container's hook and audit move, so the
  check returns the policy after it.
\<close>

fun policy_check ::
  "string \<Rightarrow> u16 option \<Rightarrow> net_policy \<Rightarrow> (denied + unit) \<times> net_policy" where
  "policy_check host port (OfPermissions p) = (check_net p host port, OfPermissions p)"
| "policy_check host port (OfContainer c) =
     (let (r, c') = container_check_net host port c in (r, OfContainer c'))"

definition guard_default :: net_guard where
  "guard_default = \<lparr>guard_policy = None, block_metadata = False, block_private = False\<rparr>"

definition guard_is_active :: "net_guard \<Rightarrow> bool" where
  "guard_is_active g = (guard_policy g \<noteq> None \<or> block_metadata g \<or> block_private g)"

definition dns_filter :: "net_guard \<Rightarrow> (bool \<times> bool) option" where
  "dns_filter g =
     (if block_metadata g \<or> block_private g then Some (block_metadata g, block_private g) else None)"

definition ip_blocked :: "ip_addr \<Rightarrow> bool \<Rightarrow> bool \<Rightarrow> bool" where
  "ip_blocked ip metadata private =
     ((metadata \<and> is_metadata_ip ip) \<or> (private \<and> is_private_ip ip))"

definition bare_host :: "string \<Rightarrow> string" where
  "bare_host h = trim_end_matches (CHR '']'') (trim_start_matches (CHR ''['') h)"

text \<open>A host that is an address literal of a blocked class.\<close>

definition blocked_literal :: "net_guard \<Rightarrow> string \<Rightarrow> ip_addr option" where
  "blocked_literal g host =
     (case parse_ip host of
        None \<Rightarrow> None
      | Some ip \<Rightarrow> if ip_blocked ip (block_metadata g) (block_private g) then Some ip else None)"

definition check_url :: "url \<Rightarrow> net_guard \<Rightarrow> (guard_error + unit) \<times> net_guard" where
  "check_url u g =
     (if url_scheme u \<noteq> ''http'' \<and> url_scheme u \<noteq> ''https''
      then (Inl (Invalid (''scheme '' @ [CHR 0x22] @ url_scheme u @ [CHR 0x22]
              @ '' is not permitted by the sandbox network policy'')), g)
      else case url_host u of
        None \<Rightarrow> (Inl (Invalid ''request to a URL with no host is not permitted''), g)
      | Some host \<Rightarrow>
          (case blocked_literal g host of
             Some ip \<Rightarrow> (Inl (Blocked ip), g)
           | None \<Rightarrow>
               (case guard_policy g of
                  None \<Rightarrow> (Inr (), g)
                | Some p \<Rightarrow>
                    (let (r, p') = policy_check (bare_host host) (url_port u) p;
                         g' = g\<lparr>guard_policy := Some p'\<rparr>
                     in case r of Inl d \<Rightarrow> (Inl (GuardDenied d), g') | Inr _ \<Rightarrow> (Inr (), g')))))"

definition preflight ::
  "(string \<Rightarrow> url option) \<Rightarrow> string \<Rightarrow> net_guard \<Rightarrow> (guard_error + unit) \<times> net_guard" where
  "preflight parse_url resolved_url g =
     (case parse_url resolved_url of
        Some u \<Rightarrow> check_url u g
      | None \<Rightarrow>
          (Inl (Invalid (''request to invalid/relative URL '' @ [CHR 0x22] @ resolved_url @ [CHR 0x22]
             @ '' is not permitted by the sandbox network policy'')), g))"

text \<open>
  The resolver: the lookup is the system's; of the addresses found, the blocked ones are dropped,
  and when none is left the connection is refused.
\<close>

definition guarded_resolve ::
  "bool \<Rightarrow> bool \<Rightarrow> string + ip_addr list \<Rightarrow> string + ip_addr list" where
  "guarded_resolve metadata private lookup =
     (case lookup of
        Inl e \<Rightarrow> Inl e
      | Inr addrs \<Rightarrow>
          (let kept = filter (\<lambda>ip. \<not> ip_blocked ip metadata private) addrs
           in if addrs \<noteq> [] \<and> kept = []
              then Inl ''all resolved addresses blocked by sandbox network policy''
              else Inr kept))"

subsection \<open>The trait's contract\<close>

text \<open>
  What the guard relies on: a refusal names the \<open>net\<close> kind, and a request the policy in force
  grants is granted, before and after any other check.
\<close>

locale net_policy_contract =
  fixes check :: "string \<Rightarrow> u16 option \<Rightarrow> 'p \<Rightarrow> (denied + unit) \<times> 'p"
    and in_force :: "'p \<Rightarrow> permissions"
  assumes check_granted: "is_ok (check_net (in_force p) host port) \<Longrightarrow> is_ok (fst (check host port p))"
    and check_refused: "fst (check host port p) = Inl d \<Longrightarrow> check_net (in_force p) host port = Inl d"
    and check_in_force: "in_force (snd (check host port p)) = in_force p"
begin

lemma refusal_kind: "fst (check host port p) = Inl d \<Longrightarrow> denied_kind d = Net"
  using check_refused static_check_denied_kind [of _ "in_force p" "Connect host port" d] by simp

lemma refused_only_if_not_granted:
  "\<not> is_ok (fst (check host port p)) \<Longrightarrow> \<not> is_ok (check_net (in_force p) host port)"
  using check_granted by blast

lemma granted_after:
  "is_ok (check_net (in_force p) host port) \<Longrightarrow>
     is_ok (fst (check host port (snd (check host' port' p))))"
  by (rule check_granted) (simp add: check_in_force)

end

fun policy_in_force :: "net_policy \<Rightarrow> permissions" where
  "policy_in_force (OfPermissions p) = p"
| "policy_in_force (OfContainer c) = policy c"

lemma decide_refused: "fst (decide k r s c) = Inl d \<Longrightarrow> s = Inl d"
  by (cases s) (auto simp: decide_def Let_def split: option.splits if_splits)

interpretation static_policy: net_policy_contract "\<lambda>host port p. (check_net p host port, p)" "\<lambda>p. p"
  by unfold_locales auto

interpretation realm_policy: net_policy_contract container_check_net policy
  by unfold_locales
     (auto simp: container_check_net_def decide_outcome dest: decide_refused)

interpretation any_policy: net_policy_contract policy_check policy_in_force
proof (unfold_locales, goal_cases)
  case (1 p host port)
  then show ?case
    by (cases p) (auto simp: Let_def case_prod_unfold intro: realm_policy.check_granted)
next
  case (2 host port p d)
  then show ?case
    by (cases p) (auto simp: Let_def case_prod_unfold intro: realm_policy.check_refused)
next
  case (3 host port p)
  then show ?case
    by (cases p) (auto simp: Let_def case_prod_unfold realm_policy.check_in_force)
qed

subsection \<open>What passes the guard\<close>

lemma policy_check_permissions:
  "is_ok (fst (policy_check host port (OfPermissions p))) = is_ok (check_net p host port)"
  by simp

lemma check_url_passes:
  "fst (check_url u g) = Inr () \<longleftrightarrow>
     (url_scheme u = ''http'' \<or> url_scheme u = ''https'')
     \<and> (\<exists>host. url_host u = Some host \<and> blocked_literal g host = None
         \<and> (\<forall>p. guard_policy g = Some p \<longrightarrow>
              is_ok (fst (policy_check (bare_host host) (url_port u) p))))"
  by (auto simp: check_url_def Let_def case_prod_unfold is_ok_def split: option.splits sum.splits)

lemma check_url_flags [simp]:
  "block_metadata (snd (check_url u g)) = block_metadata g"
  "block_private (snd (check_url u g)) = block_private g"
  by (auto simp: check_url_def Let_def case_prod_unfold split: option.splits sum.splits)

lemma check_url_in_force:
  "map_option policy_in_force (guard_policy (snd (check_url u g)))
     = map_option policy_in_force (guard_policy g)"
  by (auto simp: check_url_def Let_def case_prod_unfold any_policy.check_in_force
      split: option.splits sum.splits)

text \<open>
  What a guard can let through, whatever its hook answers: the URL is checked and, where a policy
  is set, the policy in force grants it or a hook was there to be asked.
\<close>

fun policy_hooked :: "net_policy \<Rightarrow> bool" where
  "policy_hooked (OfPermissions p) = False"
| "policy_hooked (OfContainer c) = (hook c \<noteq> None)"

definition admits :: "net_guard \<Rightarrow> url \<Rightarrow> bool" where
  "admits g u =
     ((url_scheme u = ''http'' \<or> url_scheme u = ''https'')
      \<and> (case url_host u of
            None \<Rightarrow> False
          | Some h \<Rightarrow> blocked_literal g h = None
              \<and> (case guard_policy g of
                    None \<Rightarrow> True
                  | Some p \<Rightarrow> policy_hooked p
                      \<or> is_ok (check_net (policy_in_force p) (bare_host h) (url_port u)))))"

lemma policy_check_admits:
  "is_ok (fst (policy_check host port p)) \<Longrightarrow>
     policy_hooked p \<or> is_ok (check_net (policy_in_force p) host port)"
  by (cases p) (auto simp: Let_def case_prod_unfold container_check_net_def decide_outcome)

lemma policy_hooked_check [simp]: "policy_hooked (snd (policy_check host port p)) = policy_hooked p"
  by (cases p) (auto simp: Let_def case_prod_unfold container_check_net_def)

lemma check_url_admits: "fst (check_url u g) = Inr () \<Longrightarrow> admits g u"
  by (auto simp: check_url_passes admits_def split: option.splits dest: policy_check_admits)

lemma admits_cong:
  "block_metadata g = block_metadata g' \<Longrightarrow> block_private g = block_private g' \<Longrightarrow>
   map_option policy_in_force (guard_policy g) = map_option policy_in_force (guard_policy g') \<Longrightarrow>
   map_option policy_hooked (guard_policy g) = map_option policy_hooked (guard_policy g') \<Longrightarrow>
   admits g u = admits g' u"
  by (auto simp: admits_def blocked_literal_def split: option.splits)

lemma check_url_hooked:
  "map_option policy_hooked (guard_policy (snd (check_url u g)))
     = map_option policy_hooked (guard_policy g)"
  by (auto simp: check_url_def Let_def case_prod_unfold split: option.splits sum.splits)

lemma admits_check_url [simp]: "admits (snd (check_url v g)) u = admits g u"
  by (rule admits_cong) (simp_all add: check_url_in_force check_url_hooked)

lemma guarded_resolve_safe:
  "guarded_resolve m p lookup = Inr ips \<Longrightarrow> ip \<in> set ips \<Longrightarrow> \<not> ip_blocked ip m p"
  by (auto simp: guarded_resolve_def Let_def split: sum.splits if_splits)

subsection \<open>Properties\<close>

text \<open>The hosts a parsed URL can have, and how it writes them (WHATWG URL, 3.5): a domain, which never
  reads as an address, an IPv4 address in dotted decimal, or an IPv6 address in brackets.\<close>

datatype host = DomainHost string | Ipv4Host ipv4 | Ipv6Host string







text \<open>C30 (the resolver): with metadata addresses blocked, the resolver hands out none, neither as
  IPv4 nor as the IPv6 address that maps it, and what it hands out was found by the lookup.\<close>

theorem resolver_hides_metadata:
  assumes "guarded_resolve True private (Inr addrs) = Inr ips" "ip \<in> set ips"
  shows "ip \<in> set addrs \<and> \<not> is_metadata_ip ip \<and> \<not> is_metadata_ip (canon_ip ip)
    \<and> (case ip of V4 v4 \<Rightarrow> \<not> is_metadata_ip (V6 (to_ipv6_mapped v4)) | V6 v6 \<Rightarrow> True)"
proof -
  have "\<not> is_metadata_ip ip"
    using guarded_resolve_safe [OF assms] by (simp add: ip_blocked_def)
  moreover have "is_metadata_ip (canon_ip ip) = is_metadata_ip ip"
    unfolding is_metadata_ip_def canon_ip_idem ..
  moreover have "is_metadata_ip (V6 (to_ipv6_mapped v4)) = is_metadata_ip (V4 v4)" for v4
    unfolding is_metadata_ip_def canon_ip_mapped by simp
  moreover have "ip \<in> set addrs"
    using assms by (auto simp: guarded_resolve_def Let_def split: if_splits)
  ultimately show ?thesis by (auto split: ip_addr.splits)
qed

theorem resolver_hides_metadata_witness:
  "\<not> is_metadata_ip (V4 (Ipv4 93 184 216 34))"
  using resolver_hides_metadata [of False "[V4 (Ipv4 169 254 169 254), V4 (Ipv4 93 184 216 34)]"
      "[V4 (Ipv4 93 184 216 34)]" "V4 (Ipv4 93 184 216 34)"]
  by (simp add: guarded_resolve_def ip_blocked_def is_metadata_ip_def)

text \<open>
  The URL layer reads the host as the URL writes it, and an IPv6 literal is written in brackets,
  which no address begins with: no IPv6 literal is ever found blocked there.
\<close>

lemma ipv6_literal_never_blocked: "blocked_literal g (CHR ''['' # s) = None"
  by (simp add: blocked_literal_def parse_ip_bracket)

lemma mapped_metadata_literal_passes:
  "is_ok (fst (check_url \<lparr>url_text = ''http://[::ffff:169.254.169.254]/'', url_scheme = ''http'',
       url_host = Some ''[::ffff:169.254.169.254]'', url_port = Some 80, url_path = ''/'',
       url_origin = None\<rparr> \<lparr>guard_policy = None, block_metadata = True, block_private = True\<rparr>))"
  by (simp add: check_url_def ipv6_literal_never_blocked)

end
