(* ===== verification/F64.thy ===== *)
theory F64
  imports Complex_Main Prelude
begin

text \<open>
  Rust's \<open>f64\<close> as the sources use it: sizes of stream chunks, high water marks, cookie expiry
  times. A finite value is the rational number it stands for (the sign of zero is never looked at
  by the code), and the sum of two finite values is the exact sum rounded to the nearest double,
  ties to even, with overflow to an infinity, as IEEE 754 prescribes.
\<close>

datatype f64 = NaN | PInf | NInf | Fin rat

definition pow2 :: "int \<Rightarrow> rat" where
  "pow2 e = (if 0 \<le> e then 2 ^ nat e else 1 / 2 ^ nat (- e))"

fun bit_len :: "nat \<Rightarrow> nat" where
  "bit_len n = (if n = 0 then 0 else Suc (bit_len (n div 2)))"

declare bit_len.simps [simp del]

text \<open>The exponent of a positive number: the greatest \<open>e\<close> with \<open>2 ^ e \<le> x\<close>.\<close>

definition ilog2 :: "rat \<Rightarrow> int" where
  "ilog2 x =
     (let (p, q) = quotient_of x; k = int (bit_len (nat p)) - int (bit_len (nat q))
      in if pow2 k \<le> x then k else k - 1)"

definition round_half_even :: "rat \<Rightarrow> int" where
  "round_half_even x =
     (let f = \<lfloor>x\<rfloor>; r = x - of_int f
      in if r < 1 / 2 then f else if 1 / 2 < r then f + 1 else if even f then f else f + 1)"

definition f64_of_rat :: "rat \<Rightarrow> f64" where
  "f64_of_rat x =
     (if x = 0 then Fin 0
      else (let u = pow2 (max (ilog2 \<bar>x\<bar>) (- 1022) - 52);
                y = of_int (round_half_even (x / u)) * u
            in if pow2 1024 \<le> \<bar>y\<bar> then (if x < 0 then NInf else PInf) else Fin y))"

fun fneg :: "f64 \<Rightarrow> f64" where
  "fneg NaN = NaN"
| "fneg PInf = NInf"
| "fneg NInf = PInf"
| "fneg (Fin x) = Fin (- x)"

fun fadd :: "f64 \<Rightarrow> f64 \<Rightarrow> f64" where
  "fadd NaN _ = NaN"
| "fadd _ NaN = NaN"
| "fadd PInf NInf = NaN"
| "fadd NInf PInf = NaN"
| "fadd PInf _ = PInf"
| "fadd _ PInf = PInf"
| "fadd NInf _ = NInf"
| "fadd _ NInf = NInf"
| "fadd (Fin x) (Fin y) = f64_of_rat (x + y)"

definition fsub :: "f64 \<Rightarrow> f64 \<Rightarrow> f64" where
  "fsub a b = fadd a (fneg b)"

fun fless :: "f64 \<Rightarrow> f64 \<Rightarrow> bool" where
  "fless NaN _ = False"
| "fless _ NaN = False"
| "fless PInf _ = False"
| "fless _ NInf = False"
| "fless NInf _ = True"
| "fless _ PInf = True"
| "fless (Fin x) (Fin y) = (x < y)"

fun fle :: "f64 \<Rightarrow> f64 \<Rightarrow> bool" where
  "fle NaN _ = False"
| "fle _ NaN = False"
| "fle _ PInf = True"
| "fle NInf _ = True"
| "fle PInf _ = False"
| "fle _ NInf = False"
| "fle (Fin x) (Fin y) = (x \<le> y)"

text \<open>\<open>f64::min\<close> returns the other argument when one is NaN.\<close>

definition fmin :: "f64 \<Rightarrow> f64 \<Rightarrow> f64" where
  "fmin a b = (if a = NaN then b else if b = NaN then a else if fless b a then b else a)"

subsection \<open>Powers of two\<close>

lemma pow2_pos [simp]: "0 < pow2 e"
  by (simp add: pow2_def)

lemma pow2_add: "pow2 (a + b) = pow2 a * pow2 b"
proof -
  have p: "pow2 e = 2 powi e" for e
    by (simp add: pow2_def power_int_def power_one_over inverse_eq_divide)
  show ?thesis by (simp add: p power_int_add)
qed

lemma pow2_0 [simp]: "pow2 0 = 1"
  by (simp add: pow2_def)

lemma pow2_nat: "pow2 (int n) = 2 ^ n"
  by (simp add: pow2_def)

lemma pow2_mono: "a \<le> b \<Longrightarrow> pow2 a \<le> pow2 b"
proof -
  assume "a \<le> b"
  then obtain n where "b = a + int n" by (metis zle_iff_zadd)
  then show ?thesis by (simp add: pow2_add pow2_nat)
qed

lemma bit_len_upper: "n < 2 ^ bit_len n"
proof (induction n rule: bit_len.induct)
  case (1 n)
  then show ?case by (cases "n = 0") (auto simp: bit_len.simps [of n])
qed

lemma bit_len_lower: "0 < n \<Longrightarrow> 2 ^ (bit_len n - 1) \<le> n"
proof (induction n rule: bit_len.induct)
  case (1 n)
  show ?case
  proof (cases "n div 2 = 0")
    case True
    with "1.prems" have "n = 1" by auto
    then show ?thesis by (simp add: bit_len.simps [of "Suc 0"] bit_len.simps [of 0])
  next
    case False
    with "1" have "2 ^ (bit_len (n div 2) - 1) \<le> n div 2" by auto
    moreover have "bit_len (n div 2) \<noteq> 0" using False by (simp add: bit_len.simps [of "n div 2"])
    ultimately have "2 ^ bit_len (n div 2) \<le> 2 * (n div 2)"
      by (cases "bit_len (n div 2)") auto
    with "1.prems" show ?thesis by (simp add: bit_len.simps [of n])
  qed
qed

lemma ilog2_le:
  assumes "0 < x"
  shows "pow2 (ilog2 x) \<le> x"
proof -
  obtain p q where pq: "quotient_of x = (p, q)" by (cases "quotient_of x")
  then have q: "0 < q" and x: "x = of_int p / of_int q"
    using quotient_of_denom_pos quotient_of_div by blast+
  with assms have p: "0 < p" by (simp add: zero_less_divide_iff)
  let ?bp = "bit_len (nat p)" and ?bq = "bit_len (nat q)"
  have "2 ^ (?bp - 1) \<le> nat p" "nat q < 2 ^ ?bq"
    using p q bit_len_lower [of "nat p"] bit_len_upper [of "nat q"] by auto
  then have lo: "2 ^ (?bp - 1) \<le> (of_int p :: rat)" and hi: "(of_int q :: rat) \<le> 2 ^ ?bq"
    by (auto simp: nat_le_iff le_nat_iff nat_less_iff p q less_imp_le dest!: of_int_le_iff [where 'a = rat, THEN iffD2])
  have bp: "?bp \<noteq> 0" using p by (simp add: bit_len.simps [of "nat p"])
  have "pow2 (int ?bp - int ?bq - 1) * 2 ^ ?bq = 2 ^ (?bp - 1)"
  proof -
    have "pow2 (int ?bp - int ?bq - 1) * pow2 (int ?bq) = pow2 (int (?bp - 1))"
      using bp by (subst pow2_add [symmetric]) (simp add: of_nat_diff)
    then show ?thesis by (simp add: pow2_nat)
  qed
  then have "pow2 (int ?bp - int ?bq - 1) = 2 ^ (?bp - 1) / 2 ^ ?bq"
    by (simp add: field_simps)
  also have "\<dots> \<le> of_int p / of_int q"
    using lo hi q p by (intro frac_le) auto
  finally have "pow2 (int ?bp - int ?bq - 1) \<le> x" using x by simp
  then show ?thesis by (auto simp: ilog2_def pq Let_def)
qed

subsection \<open>Rounding\<close>

lemma round_half_even_of_int [simp]: "round_half_even (of_int n) = n"
  by (simp add: round_half_even_def)

lemma round_half_even_nonneg: "0 \<le> x \<Longrightarrow> 0 \<le> round_half_even x"
  by (auto simp: round_half_even_def Let_def)

text \<open>Integers of up to 53 bits are doubles: nothing is lost.\<close>

lemma f64_of_rat_int:
  assumes "\<bar>n\<bar> < 2 ^ 53"
  shows "f64_of_rat (of_int n) = Fin (of_int n)"
proof (cases "n = 0")
  case False
  let ?x = "of_int n :: rat"
  let ?m = "max (ilog2 \<bar>?x\<bar>) (- 1022)"
  have "pow2 (ilog2 \<bar>?x\<bar>) \<le> \<bar>?x\<bar>" using False by (intro ilog2_le) simp
  also have "\<bar>?x\<bar> < pow2 53"
    using assms by (simp add: pow2_def flip: of_int_abs)
  finally have "ilog2 \<bar>?x\<bar> < 53"
    using pow2_mono [of 53 "ilog2 \<bar>?x\<bar>"] by linarith
  then have m: "?m \<le> 52" by auto
  let ?u = "pow2 (?m - 52)"
  have "pow2 (?m - 52) * pow2 (52 - ?m) = 1"
    by (subst pow2_add [symmetric]) simp
  moreover have "pow2 (52 - ?m) = of_int (2 ^ nat (52 - ?m))"
    using m by (simp add: pow2_def)
  ultimately have "?u * of_int (2 ^ nat (52 - ?m)) = 1" by simp
  then have "inverse ?u = of_int (2 ^ nat (52 - ?m))" by (rule inverse_unique)
  then have "?x / ?u = of_int (n * 2 ^ nat (52 - ?m))" by (simp add: divide_inverse)
  then have y: "of_int (round_half_even (?x / ?u)) * ?u = ?x"
    using pow2_pos [of "?m - 52"] by (metis nonzero_divide_eq_eq order_less_irrefl round_half_even_of_int)
  have "\<bar>?x\<bar> < pow2 1024"
    using \<open>\<bar>?x\<bar> < pow2 53\<close> pow2_mono [of 53 1024] by simp
  with False y show ?thesis by (simp add: f64_of_rat_def Let_def not_le)
qed (simp add: f64_of_rat_def)

text \<open>A sum of finite non-negative values is non-negative, and never NaN.\<close>

definition fnonneg :: "f64 \<Rightarrow> bool" where
  "fnonneg x = (case x of Fin r \<Rightarrow> 0 \<le> r | PInf \<Rightarrow> True | _ \<Rightarrow> False)"

lemma fnonneg_iff: "fnonneg x \<longleftrightarrow> fle (Fin 0) x"
  by (cases x) (auto simp: fnonneg_def)

lemma f64_of_rat_nonneg: "0 \<le> x \<Longrightarrow> fnonneg (f64_of_rat x)"
  by (auto simp: f64_of_rat_def Let_def fnonneg_def less_imp_le round_half_even_nonneg)

lemma f64_of_rat_not_NaN [simp]: "f64_of_rat x \<noteq> NaN"
  by (simp add: f64_of_rat_def Let_def)

lemma fadd_nonneg: "fnonneg a \<Longrightarrow> fnonneg b \<Longrightarrow> fnonneg (fadd a b)"
  by (cases a; cases b) (auto simp: fnonneg_def f64_of_rat_nonneg [unfolded fnonneg_def])

lemma fadd_ints:
  assumes "\<bar>m\<bar> < 2 ^ 52" "\<bar>n\<bar> < 2 ^ 52"
  shows "fadd (Fin (of_int m)) (Fin (of_int n)) = Fin (of_int (m + n))"
proof -
  have "\<bar>m + n\<bar> < 2 ^ 53" using assms by simp
  then have "f64_of_rat (of_int (m + n)) = Fin (of_int (m + n))" by (rule f64_of_rat_int)
  then show ?thesis by simp
qed

lemma fsub_finite_not_NaN: "fnonneg a \<Longrightarrow> fsub a (Fin r) \<noteq> NaN"
  by (cases a) (auto simp: fsub_def fnonneg_def)

end
