(* ===== verification/Cookie_Jar.thy ===== *)
theory Cookie_Jar
  imports Net_Guard F64
begin

text \<open>
  RFC 6265 cookies, \<open>crates/ferrijs-fetch/src/cookie.rs\<close>: parsing of \<open>Set-Cookie\<close>, the match of
  a cookie with a URL, and the jar. The clock and the parser of HTTP dates (the crate
  \<open>httpdate\<close>) are parameters: \<open>now\<close> is Unix time in seconds as the \<open>f64\<close> the code computes,
  and a parsed date is its distance in seconds from the epoch.
\<close>

datatype same_site = Strict | Lax | SameSiteNone

fun same_site_as_str :: "same_site \<Rightarrow> string" where
  "same_site_as_str Strict = ''Strict''"
| "same_site_as_str Lax = ''Lax''"
| "same_site_as_str SameSiteNone = ''None''"

definition same_site_from_str :: "string \<Rightarrow> same_site option" where
  "same_site_from_str s =
     (if s = ''Strict'' then Some Strict else if s = ''Lax'' then Some Lax
      else if s = ''None'' then Some SameSiteNone else None)"

record cookie =
  ck_name :: string
  ck_value :: string
  ck_domain :: string
  ck_path :: string
  ck_secure :: bool
  ck_http_only :: bool
  ck_expires :: "f64 option"
  ck_same_site :: "same_site option"
  ck_url :: "string option"

definition max_cookie_expires :: f64 where
  "max_cookie_expires = Fin 253402300799"

subsection \<open>Matching\<close>

definition is_local_hostname :: "string \<Rightarrow> bool" where
  "is_local_hostname hostname = (hostname = ''localhost'' \<or> suffix ''.localhost'' hostname)"

definition cookie_domain_matches :: "string \<Rightarrow> string \<Rightarrow> bool" where
  "cookie_domain_matches hostname domain =
     (if hostname = domain then True
      else if \<not> prefix ''.'' domain then False
      else suffix domain (''.'' @ hostname))"

definition slash_terminated :: "string \<Rightarrow> string" where
  "slash_terminated s = (if suffix ''/'' s then s else s @ ''/'')"

definition cookie_path_matches :: "string \<Rightarrow> string \<Rightarrow> bool" where
  "cookie_path_matches request_path cookie_path =
     (if request_path = cookie_path then True
      else prefix (slash_terminated cookie_path) (slash_terminated request_path))"

definition expired :: "f64 \<Rightarrow> cookie \<Rightarrow> bool" where
  "expired now c =
     (case ck_expires c of None \<Rightarrow> False | Some e \<Rightarrow> fle (Fin 0) e \<and> fless e now)"

definition cookie_matches_url :: "f64 \<Rightarrow> cookie \<Rightarrow> url \<Rightarrow> bool" where
  "cookie_matches_url now c u =
     (let hostname = (case url_host u of Some h \<Rightarrow> h | None \<Rightarrow> [])
      in if ck_secure c \<and> url_scheme u \<noteq> ''https'' \<and> \<not> is_local_hostname hostname then False
         else if \<not> cookie_domain_matches hostname (ck_domain c) then False
         else if \<not> cookie_path_matches (url_path u) (ck_path c) then False
         else \<not> expired now c)"

subsection \<open>Parsing\<close>

text \<open>\<open>str::parse::<i64>\<close>: an optional sign and one or more digits, within the range of \<open>i64\<close>.\<close>

fun all_digits :: "nat \<Rightarrow> string \<Rightarrow> nat option" where
  "all_digits acc [] = Some acc"
| "all_digits acc (c # cs) =
     (case digit_value c of None \<Rightarrow> None | Some d \<Rightarrow> all_digits (acc * 10 + d) cs)"

definition parse_i64 :: "string \<Rightarrow> int option" where
  "parse_i64 s =
     (let neg = (s \<noteq> [] \<and> hd s = CHR ''-'');
          ds = (if s \<noteq> [] \<and> (hd s = CHR ''+'' \<or> hd s = CHR ''-'') then tl s else s)
      in if ds = [] then None
         else (case all_digits 0 ds of
                 None \<Rightarrow> None
               | Some n \<Rightarrow> (let v = (if neg then - int n else int n)
                            in if - (2 ^ 63) \<le> v \<and> v < 2 ^ 63 then Some v else None)))"

definition expires_of_date :: "rat \<Rightarrow> f64" where
  "expires_of_date secs =
     fmin (if secs < 0 then Fin 0 else f64_of_rat secs) max_cookie_expires"

definition expires_of_max_age :: "f64 \<Rightarrow> int \<Rightarrow> f64" where
  "expires_of_max_age now delta =
     (if delta \<le> 0 then Fin 0
      else fmin (fadd now (Fin (of_int (min delta (2 ^ 32 - 1))))) max_cookie_expires)"

text \<open>A domain with a dot inside but none in front gets one.\<close>

definition normal_domain :: "string \<Rightarrow> string" where
  "normal_domain v =
     (let domain = to_ascii_lowercase v
      in if domain \<noteq> [] \<and> \<not> prefix ''.'' domain \<and> CHR ''.'' \<in> set domain then ''.'' @ domain
         else domain)"

definition apply_attribute ::
  "f64 \<Rightarrow> (string \<Rightarrow> rat option) \<Rightarrow> cookie \<Rightarrow> string \<times> string \<Rightarrow> cookie" where
  "apply_attribute now parse_http_date c attr =
     (let key = to_ascii_lowercase (fst attr); v = snd attr
      in if key = ''expires'' then
           (case parse_http_date v of
              Some secs \<Rightarrow> c\<lparr>ck_expires := Some (expires_of_date secs)\<rparr> | None \<Rightarrow> c)
         else if key = ''max-age'' then
           (case parse_i64 v of
              Some delta \<Rightarrow> c\<lparr>ck_expires := Some (expires_of_max_age now delta)\<rparr> | None \<Rightarrow> c)
         else if key = ''domain'' then c\<lparr>ck_domain := normal_domain v\<rparr>
         else if key = ''path'' then c\<lparr>ck_path := v\<rparr>
         else if key = ''secure'' then c\<lparr>ck_secure := True\<rparr>
         else if key = ''httponly'' then c\<lparr>ck_http_only := True\<rparr>
         else if key = ''samesite'' then
           (let s = to_ascii_lowercase v
            in if s = ''none'' then c\<lparr>ck_same_site := Some SameSiteNone\<rparr>
               else if s = ''strict'' then c\<lparr>ck_same_site := Some Strict\<rparr>
               else if s = ''lax'' then c\<lparr>ck_same_site := Some Lax\<rparr> else c)
         else c)"

definition cookie_pairs :: "string \<Rightarrow> (string \<times> string) list" where
  "cookie_pairs header =
     map (\<lambda>p. case split_once (CHR ''='') p of
                None \<Rightarrow> (trim p, []) | Some (k, v) \<Rightarrow> (trim k, trim v))
       (filter (\<lambda>s. trim s \<noteq> []) (split_char (CHR '';'') header))"

definition parse_raw_set_cookie ::
  "f64 \<Rightarrow> (string \<Rightarrow> rat option) \<Rightarrow> string \<Rightarrow> cookie option" where
  "parse_raw_set_cookie now parse_http_date header =
     (case cookie_pairs header of
        [] \<Rightarrow> None
      | (name, v) # attrs \<Rightarrow>
          Some (foldl (apply_attribute now parse_http_date)
            \<lparr>ck_name = name, ck_value = v, ck_domain = [], ck_path = [], ck_secure = False,
             ck_http_only = False, ck_expires = None, ck_same_site = Some Lax, ck_url = None\<rparr>
            attrs))"

definition default_path :: "string \<Rightarrow> string" where
  "default_path path =
     (let trimmed = (case strip_prefix ''/'' path of Some r \<Rightarrow> r | None \<Rightarrow> path)
      in ''/'' @ join_with ''/'' (butlast (split_char (CHR ''/'') trimmed)))"

text \<open>\<open>HeaderValue::to_str\<close> gives the text only of visible ASCII, spaces and tabs.\<close>

definition header_to_str :: "string \<Rightarrow> string option" where
  "header_to_str v =
     (if list_all (\<lambda>c. let n = of_char c :: nat in n = 9 \<or> (32 \<le> n \<and> n < 127)) v
      then Some v else None)"

text \<open>The body of the loop over the response's \<open>Set-Cookie\<close> values.\<close>

definition set_cookie_of ::
  "f64 \<Rightarrow> (string \<Rightarrow> rat option) \<Rightarrow> string \<Rightarrow> string \<Rightarrow> string \<Rightarrow> cookie option" where
  "set_cookie_of now parse_http_date hostname dflt_path v =
     (case header_to_str v of None \<Rightarrow> None | Some raw \<Rightarrow>
     (case parse_raw_set_cookie now parse_http_date raw of None \<Rightarrow> None | Some c \<Rightarrow>
        (let c = (if ck_domain c = [] then c\<lparr>ck_domain := hostname\<rparr> else c)
         in if \<not> cookie_domain_matches hostname (ck_domain c) then None
            else Some (if ck_path c = [] \<or> \<not> prefix ''/'' (ck_path c)
                       then c\<lparr>ck_path := dflt_path\<rparr> else c))))"

definition parse_set_cookie_headers ::
  "f64 \<Rightarrow> (string \<Rightarrow> rat option) \<Rightarrow> url \<Rightarrow> string list \<Rightarrow> cookie list" where
  "parse_set_cookie_headers now parse_http_date u set_cookies =
     (let hostname = (case url_host u of Some h \<Rightarrow> h | None \<Rightarrow> [])
      in List.map_filter (set_cookie_of now parse_http_date hostname (default_path (url_path u)))
           set_cookies)"

subsection \<open>The jar\<close>

type_synonym jar = "cookie list"

definition same_cookie :: "cookie \<Rightarrow> cookie \<Rightarrow> bool" where
  "same_cookie a b = (ck_name a = ck_name b \<and> ck_domain a = ck_domain b \<and> ck_path a = ck_path b)"

definition jar_put :: "jar \<Rightarrow> cookie \<Rightarrow> jar" where
  "jar_put stored c = filter (\<lambda>other. \<not> same_cookie other c) stored @ [c]"

definition jar_add :: "f64 \<Rightarrow> cookie list \<Rightarrow> jar \<Rightarrow> jar" where
  "jar_add now cookies stored = filter (\<lambda>c. \<not> expired now c) (foldl jar_put stored cookies)"

definition jar_all :: "f64 \<Rightarrow> jar \<Rightarrow> cookie list \<times> jar" where
  "jar_all now stored = (let s = filter (\<lambda>c. \<not> expired now c) stored in (s, s))"

definition jar_remove :: "(cookie \<Rightarrow> bool) \<Rightarrow> jar \<Rightarrow> jar" where
  "jar_remove matches stored = filter (\<lambda>c. \<not> matches c) stored"

subsection \<open>What is matched\<close>

lemma cookie_domain_matches_iff:
  "cookie_domain_matches hostname domain \<longleftrightarrow>
     hostname = domain \<or> (\<exists>d. domain = CHR ''.'' # d \<and> host_under d hostname)"
  by (cases domain) (auto simp: cookie_domain_matches_def host_under_iff suffix_Cons)

lemma slash_terminated_id: "suffix ''/'' s \<Longrightarrow> slash_terminated s = s"
  by (simp add: slash_terminated_def)

lemma suffix_slash_terminated: "suffix ''/'' (slash_terminated s)"
  by (auto simp: slash_terminated_def suffix_def)

lemma apply_attribute_name:
  "ck_name (apply_attribute now phd c a) = ck_name c"
  "ck_value (apply_attribute now phd c a) = ck_value c"
  by (auto simp: apply_attribute_def Let_def split: option.splits)

lemma set_cookie_of_Some:
  assumes "set_cookie_of now phd hostname dflt v = Some c"
  shows "cookie_domain_matches hostname (ck_domain c)"
    and "prefix ''/'' dflt \<Longrightarrow> prefix ''/'' (ck_path c)"
  using assms
  by (auto simp: set_cookie_of_def Let_def split: option.splits if_splits)

lemma default_path_slash: "prefix ''/'' (default_path p)"
  by (simp add: default_path_def Let_def)

lemma parse_set_cookie_headers_iff:
  "c \<in> set (parse_set_cookie_headers now phd u vs) \<longleftrightarrow>
     (\<exists>v \<in> set vs. set_cookie_of now phd (case url_host u of Some h \<Rightarrow> h | None \<Rightarrow> [])
        (default_path (url_path u)) v = Some c)"
  by (force simp: parse_set_cookie_headers_def Let_def List.map_filter_def)

subsection \<open>The jar as a map\<close>

text \<open>
  A store keyed by what makes two cookies the same: what a lookup returns after each operation,
  and that no operation leaves two values for a key.
\<close>

type_synonym cookie_key = "string \<times> string \<times> string"

definition cookie_key :: "cookie \<Rightarrow> cookie_key" where
  "cookie_key c = (ck_name c, ck_domain c, ck_path c)"

definition jar_lookup :: "jar \<Rightarrow> cookie_key \<Rightarrow> cookie option" where
  "jar_lookup j k = List.find (\<lambda>c. cookie_key c = k) j"

definition jar_ok :: "jar \<Rightarrow> bool" where
  "jar_ok j = distinct (map cookie_key j)"

locale keyed_store =
  fixes lookup :: "'s \<Rightarrow> 'k \<Rightarrow> 'v option"
    and put :: "'s \<Rightarrow> 'v \<Rightarrow> 's"
    and keep :: "('v \<Rightarrow> bool) \<Rightarrow> 's \<Rightarrow> 's"
    and key :: "'v \<Rightarrow> 'k"
    and inv :: "'s \<Rightarrow> bool"
  assumes lookup_put: "inv s \<Longrightarrow> lookup (put s v) = (lookup s)(key v \<mapsto> v)"
    and lookup_keep: "inv s \<Longrightarrow>
      lookup (keep P s) k = (case lookup s k of None \<Rightarrow> None | Some v \<Rightarrow> if P v then Some v else None)"
    and inv_put: "inv s \<Longrightarrow> inv (put s v)"
    and inv_keep: "inv s \<Longrightarrow> inv (keep P s)"
begin

lemma inv_puts: "inv s \<Longrightarrow> inv (foldl put s vs)"
  by (induction vs arbitrary: s) (auto simp: inv_put)

lemma lookup_puts:
  "inv s \<Longrightarrow> lookup (foldl put s vs) = (lookup s)(map key vs [\<mapsto>] vs)"
  by (induction vs arbitrary: s) (auto simp: inv_put lookup_put)

lemma lookup_puts_map_of:
  "inv s \<Longrightarrow> lookup (foldl put s vs) = lookup s ++ map_of (rev (zip (map key vs) vs))"
  by (simp add: lookup_puts map_upds_def)

text \<open>Adding and then dropping what fails a test.\<close>

lemma lookup_keep_puts:
  assumes "inv s"
  shows "lookup (keep P (foldl put s vs)) k
     = (case List.find (\<lambda>v. key v = k) (rev vs) of
          Some v \<Rightarrow> if P v then Some v else None
        | None \<Rightarrow> (case lookup s k of None \<Rightarrow> None | Some v \<Rightarrow> if P v then Some v else None))"
proof -
  have "lookup (foldl put s vs) k
      = (case List.find (\<lambda>v. key v = k) (rev vs) of Some v \<Rightarrow> Some v | None \<Rightarrow> lookup s k)"
    using assms
  proof (induction vs rule: rev_induct)
    case (snoc v vs)
    then show ?case by (simp add: lookup_put inv_puts)
  qed simp
  then show ?thesis
    using assms by (simp add: lookup_keep inv_puts split: option.splits)
qed

end

lemma same_cookie_iff: "same_cookie a b \<longleftrightarrow> cookie_key a = cookie_key b"
  by (auto simp: same_cookie_def cookie_key_def)

lemma jar_lookup_None: "jar_lookup j k = None \<longleftrightarrow> k \<notin> cookie_key ` set j"
  by (auto simp: jar_lookup_def find_None_iff)

lemma find_append:
  "List.find P (xs @ ys) = (case List.find P xs of Some x \<Rightarrow> Some x | None \<Rightarrow> List.find P ys)"
  by (induction xs) auto

lemma jar_lookup_filter:
  "jar_ok j \<Longrightarrow>
     jar_lookup (filter P j) k
       = (case jar_lookup j k of None \<Rightarrow> None | Some v \<Rightarrow> if P v then Some v else None)"
proof (induction j)
  case (Cons c j)
  show ?case
  proof (cases "cookie_key c = k")
    case True
    with Cons.prems have "jar_lookup (filter P j) k = None"
      by (auto simp: jar_lookup_None jar_ok_def)
    with True show ?thesis by (simp add: jar_lookup_def)
  next
    case False
    with Cons show ?thesis by (simp add: jar_lookup_def jar_ok_def)
  qed
qed (simp add: jar_lookup_def)

lemma distinct_map_filter_key: "jar_ok j \<Longrightarrow> jar_ok (filter P j)"
  by (simp add: jar_ok_def distinct_map_filter)

lemma jar_ok_put: "jar_ok j \<Longrightarrow> jar_ok (jar_put j c)"
  using distinct_map_filter_key [of j "\<lambda>d. \<not> same_cookie d c"]
  by (auto simp: jar_ok_def jar_put_def same_cookie_iff)

lemma find_key: "List.find (\<lambda>d. cookie_key d = k) j = Some v \<Longrightarrow> cookie_key v = k"
  by (auto dest: find_Some_iff [THEN iffD1])

lemma jar_lookup_put: "jar_ok j \<Longrightarrow> jar_lookup (jar_put j c) = (jar_lookup j)(cookie_key c \<mapsto> c)"
proof (rule ext)
  fix k assume ok: "jar_ok j"
  let ?rest = "filter (\<lambda>d. \<not> same_cookie d c) j"
  have split: "jar_lookup (jar_put j c) k
      = (case jar_lookup ?rest k of
           Some v \<Rightarrow> Some v | None \<Rightarrow> if cookie_key c = k then Some c else None)"
    by (simp add: jar_lookup_def jar_put_def find_append split: option.splits)
  have rest: "jar_lookup ?rest k = (if cookie_key c = k then None else jar_lookup j k)"
    unfolding jar_lookup_filter [OF ok]
    by (auto simp: jar_lookup_def same_cookie_iff split: option.splits dest: find_key)
  show "jar_lookup (jar_put j c) k = ((jar_lookup j)(cookie_key c \<mapsto> c)) k"
    by (simp add: split rest split: option.splits)
qed

interpretation jar: keyed_store jar_lookup jar_put filter cookie_key jar_ok
  by unfold_locales (auto simp: jar_lookup_put jar_lookup_filter jar_ok_put distinct_map_filter_key)

lemma jar_ok_add: "jar_ok j \<Longrightarrow> jar_ok (jar_add now cs j)"
  by (simp add: jar_add_def jar.inv_keep jar.inv_puts)

text \<open>Path-match as RFC 6265, section 5.1.4, states it.\<close>

definition rfc_path_matches :: "string \<Rightarrow> string \<Rightarrow> bool" where
  "rfc_path_matches request_path cookie_path =
     (request_path = cookie_path
      \<or> (prefix cookie_path request_path
          \<and> (suffix ''/'' cookie_path \<or> prefix (cookie_path @ ''/'') request_path)))"

lemma prefix_snoc_slash: "prefix (a @ ''/'') (b @ ''/'') \<longleftrightarrow> a = b \<or> prefix (a @ ''/'') b"
  by (metis append_same_eq prefix_snoc)

lemma suffix_slash_prefix: "suffix ''/'' a \<Longrightarrow> prefix a (b @ ''/'') \<longleftrightarrow> a = b @ ''/'' \<or> prefix a b"
  by (simp add: prefix_snoc)

subsection \<open>Properties\<close>

text \<open>(scope of a response's cookies): a cookie taken from a response is for the host that
  answered or, with a leading dot, for a domain the host lies under on a label boundary, and its
  path is absolute.\<close>

theorem response_cookies_in_scope:
  assumes "url_host u = Some h" "c \<in> set (parse_set_cookie_headers now phd u values)"
  shows "(ck_domain c = h \<or> (\<exists>d. ck_domain c = CHR ''.'' # d \<and> (h = d \<or> suffix (CHR ''.'' # d) h)))
    \<and> prefix ''/'' (ck_path c)"
  using assms set_cookie_of_Some default_path_slash
  by (auto simp: parse_set_cookie_headers_iff cookie_domain_matches_iff host_under_iff) metis+

lemma set_cookie_of_example:
  "set_cookie_of (Fin 0) (\<lambda>_. None) ''shop.a.io'' p ''id=1;Domain=A.io'' =
     Some \<lparr>ck_name = ''id'', ck_value = ''1'', ck_domain = ''.a.io'', ck_path = p, ck_secure = False,
       ck_http_only = False, ck_expires = None, ck_same_site = Some Lax, ck_url = None\<rparr>"
proof -
  have "trim ''id=1'' = ''id=1''" "trim ''Domain=A.io'' = ''Domain=A.io''" "trim ''id'' = ''id''"
    "trim ''1'' = ''1''" "trim ''Domain'' = ''Domain''" "trim ''A.io'' = ''A.io''"
    by (auto intro!: trimmed_trim simp: eval_simps)
  then have "cookie_pairs ''id=1;Domain=A.io'' = [(''id'', ''1''), (''Domain'', ''A.io'')]"
    by (simp add: cookie_pairs_def)
  then show ?thesis
    by (simp add: set_cookie_of_def header_to_str_def parse_raw_set_cookie_def apply_attribute_def
        normal_domain_def cookie_domain_matches_def eval_simps)
qed

theorem response_cookies_in_scope_witness:
  "(''.a.io'' = ''shop.a.io'' \<or> (\<exists>d. ''.a.io'' = CHR ''.'' # d \<and> (''shop.a.io'' = d
      \<or> suffix (CHR ''.'' # d) ''shop.a.io''))) \<and> prefix ''/'' (default_path ''/x/y'')"
  using response_cookies_in_scope
    [of "\<lparr>url_text = ''https://shop.a.io/x/y'', url_scheme = ''https'', url_host = Some ''shop.a.io'',
          url_port = Some 443, url_path = ''/x/y'', url_origin = None\<rparr>" "''shop.a.io''"
      "\<lparr>ck_name = ''id'', ck_value = ''1'', ck_domain = ''.a.io'', ck_path = default_path ''/x/y'',
        ck_secure = False, ck_http_only = False, ck_expires = None, ck_same_site = Some Lax, ck_url = None\<rparr>"
      "Fin 0" "\<lambda>_. None" "[''id=1;Domain=A.io'']"]
  by (simp add: parse_set_cookie_headers_iff set_cookie_of_example)

text \<open>The path test is RFC 6265's path-match, and besides it lets a cookie for a
  directory, its path ending in a slash, go with a request for that path without the slash.\<close>

theorem cookie_path_match_rfc:
  "cookie_path_matches request_path cookie_path \<longleftrightarrow>
     rfc_path_matches request_path cookie_path
     \<or> (\<not> suffix ''/'' request_path \<and> cookie_path = request_path @ ''/'')"
  using suffix_slash_prefix [of cookie_path request_path] prefix_snoc_slash [of cookie_path request_path]
  by (auto simp: cookie_path_matches_def rfc_path_matches_def slash_terminated_def dest: append_prefixD)

text \<open>C27 (the jar): after \<open>add\<close> the jar holds, for a name, domain and path, the last cookie added
  with them or else the one it held, and nothing if that has expired.\<close>

theorem jar_add_lookup:
  assumes "jar_ok j"
  shows "jar_lookup (jar_add now cs j) k
      = (case (case List.find (\<lambda>c. cookie_key c = k) (rev cs) of Some c \<Rightarrow> Some c | None \<Rightarrow> jar_lookup j k) of
           None \<Rightarrow> None
         | Some c \<Rightarrow> if expired now c then None else Some c)
    \<and> jar_ok (jar_add now cs j)"
  using jar.lookup_keep_puts [OF assms, of "\<lambda>c. \<not> expired now c" cs k] jar_ok_add [OF assms, of now cs]
  by (auto simp: jar_add_def split: option.splits)


theorem jar_add_lookup_witness:
  "let c = \<lparr>ck_name = ''a'', ck_value = ''1'', ck_domain = ''h'', ck_path = ''/'', ck_secure = False,
         ck_http_only = False, ck_expires = None, ck_same_site = None, ck_url = None\<rparr>
   in jar_lookup (jar_add (Fin 5) [c\<lparr>ck_value := ''2''\<rparr>] [c]) (cookie_key c) = Some (c\<lparr>ck_value := ''2''\<rparr>)"
  using jar_add_lookup [of "[\<lparr>ck_name = ''a'', ck_value = ''1'', ck_domain = ''h'', ck_path = ''/'',
      ck_secure = False, ck_http_only = False, ck_expires = None, ck_same_site = None, ck_url = None\<rparr>]"]
  by (simp add: jar_ok_def cookie_key_def expired_def)

end
