(* ===== verification/Fetch_Engine.thy ===== *)
theory Fetch_Engine
  imports Header_List Cookie_Jar
begin

text \<open>
  The send engine of \<open>crates/ferrijs-fetch/src/engine.rs\<close> with the request and response model of
  \<open>model.rs\<close>, \<open>body.rs\<close> and \<open>error.rs\<close>: the loop that sends one hop, stores its cookies, and
  follows a redirect or answers a challenge.

  What is not in the repository is a field of \<open>world\<close>: the transport's reply to the n-th event
  of the run, the time left before the deadline then, the clock, the parsers of URLs and of HTTP
  dates, the host behind a \<open>ContextBridge\<close>, and the outcome of building the client. The engine's
  own state is the cookies, the guard and the log of what went over the wire. Bodies are opaque
  texts, and the phase timings and the TLS certificate of a response are left out. So is what the client
  adds to a request on its own: when a URL holds a user name and a password, it makes an
  \<open>Authorization\<close> header of them, which is not among the headers the log shows.
\<close>

subsection \<open>Model\<close>

datatype redirect_mode = Follow | Manual | ErrorMode

datatype credentials = Omit | SameOrigin | Include

datatype response_type = Basic | Cors | Opaque | OpaqueRedirect | ErrorType | DefaultType

fun response_type_as_str :: "response_type \<Rightarrow> string" where
  "response_type_as_str Basic = ''basic''"
| "response_type_as_str Cors = ''cors''"
| "response_type_as_str Opaque = ''opaque''"
| "response_type_as_str OpaqueRedirect = ''opaqueredirect''"
| "response_type_as_str ErrorType = ''error''"
| "response_type_as_str DefaultType = ''default''"

datatype body = EmptyBody | BytesBody string | StreamBody string | ResponseBody

datatype request_payload = PEmpty | PBytes string | PStream string | PInvalid

text \<open>A guard's refusal is kept as it is in \<open>BlockedBy\<close>, where the code renders its text.\<close>

datatype fetch_error =
    Network string | Abort string | Timeout string | TooManyRedirects "32 word"
  | RedirectRefused string | BlockedBy guard_error | DeniedBy denied | InvalidUrl string
  | BodyError string | BridgeError string

record fetch_request =
  req_method :: string
  req_url :: url
  req_headers :: headers
  req_body :: body
  req_redirect :: redirect_mode
  req_credentials :: credentials
  max_redirects :: "32 word option"
  max_retries :: "32 word"
  net_guard_of :: "net_guard option"
  challenge :: "(url \<Rightarrow> string option) option"

text \<open>The transport's response: what the engine reads of it.\<close>

record http_response =
  resp_status :: nat
  resp_headers :: headers
  resp_body :: string

record fetch_response =
  status :: nat
  status_text :: string
  final_url :: string
  headers_of :: headers
  body_of :: string
  redirected :: bool
  unfollowed_redirect :: bool
  type_of :: response_type

definition response_ok :: "fetch_response \<Rightarrow> bool" where
  "response_ok r = (200 \<le> status r \<and> status r < 300)"

text \<open>One request as it goes over the wire, and the transport's reply: a response, or a chain of
  errors of which each is a \<open>ConnectionReset\<close> of the system or not and has a message.\<close>

datatype payload = NoBody | Buffered string | Streamed string

record sent =
  sent_method :: string
  sent_url :: url
  sent_headers :: headers
  sent_body :: payload

datatype reply = Answered http_response | Failed "(bool \<times> string) list"

datatype event = Sent sent | Slept nat

datatype 'b cookies = NoCookies | OwnJar jar | HostBridge 'b

record 'b world =
  w_reply :: "nat \<Rightarrow> sent \<Rightarrow> reply"
  w_time_left :: "nat \<Rightarrow> nat"
  w_now :: "nat \<Rightarrow> f64"
  w_http_date :: "string \<Rightarrow> rat option"
  w_parse_url :: "string \<Rightarrow> url option"
  w_join :: "url \<Rightarrow> string \<Rightarrow> url option"
  w_reason :: "nat \<Rightarrow> string option"
  w_client :: "fetch_error option"
  w_bridge_read :: "'b \<Rightarrow> string + cookie list"
  w_bridge_add :: "cookie list \<Rightarrow> 'b \<Rightarrow> (string + unit) \<times> 'b"

record 'b engine =
  eng_cookies :: "'b cookies"
  eng_guard :: "net_guard option"
  eng_log :: "event list"

subsection \<open>Errors, retries and the budget\<close>

fun has_substring :: "string \<Rightarrow> string \<Rightarrow> bool" where
  "has_substring pat [] = (pat = [])"
| "has_substring pat (c # cs) = (prefix pat (c # cs) \<or> has_substring pat cs)"

definition is_reset_message :: "string \<Rightarrow> bool" where
  "is_reset_message message =
     (let m = to_ascii_lowercase message
      in has_substring ''connection reset'' m \<or> has_substring ''econnreset'' m)"

fun is_connection_reset :: "(bool \<times> string) list \<Rightarrow> bool" where
  "is_connection_reset [] = False"
| "is_connection_reset ((io_reset, message) # source) =
     (if io_reset then True else if is_reset_message message then True
      else is_connection_reset source)"

definition sat_u64 :: "nat \<Rightarrow> nat" where
  "sat_u64 n = min n (2 ^ 64 - 1)"

definition retry_backoff :: "32 word \<Rightarrow> nat" where
  "retry_backoff attempt = sat_u64 (250 * sat_u64 (2 ^ (unat attempt - 1)))"

definition follow_budget :: "redirect_mode \<Rightarrow> 32 word option \<Rightarrow> 32 word option" where
  "follow_budget redirect cap =
     (case redirect of
        Manual \<Rightarrow> None
      | ErrorMode \<Rightarrow> None
      | Follow \<Rightarrow> (case cap of None \<Rightarrow> Some 20 | Some n \<Rightarrow> if n = 0 then None else Some n))"

fun fetch_error_of :: "guard_error \<Rightarrow> fetch_error" where
  "fetch_error_of (GuardDenied d) = DeniedBy d"
| "fetch_error_of other = BlockedBy other"

fun into_request_payload :: "body \<Rightarrow> request_payload" where
  "into_request_payload EmptyBody = PEmpty"
| "into_request_payload (BytesBody b) = PBytes b"
| "into_request_payload (StreamBody s) = PStream s"
| "into_request_payload ResponseBody = PInvalid"

definition request_payload :: "body \<Rightarrow> fetch_error + (string option \<times> string option)" where
  "request_payload b =
     (case into_request_payload b of
        PEmpty \<Rightarrow> Inr (None, None)
      | PBytes bytes \<Rightarrow> Inr (Some bytes, None)
      | PStream stream \<Rightarrow> Inr (None, Some stream)
      | PInvalid \<Rightarrow> Inl (BodyError ''a response body cannot be sent as a request body''))"

subsection \<open>Cookies of a hop\<close>

definition cookies_read ::
  "'b world \<Rightarrow> f64 \<Rightarrow> 'b cookies \<Rightarrow> (fetch_error + cookie list) \<times> 'b cookies" where
  "cookies_read w now ck =
     (case ck of
        HostBridge b \<Rightarrow> (case w_bridge_read w b of Inl e \<Rightarrow> Inl (Network e) | Inr cs \<Rightarrow> Inr cs, ck)
      | OwnJar j \<Rightarrow> (let (cs, j') = jar_all now j in (Inr cs, OwnJar j'))
      | NoCookies \<Rightarrow> (Inr [], ck))"

definition cookie_header_value :: "f64 \<Rightarrow> url \<Rightarrow> cookie list \<Rightarrow> string" where
  "cookie_header_value now u cs =
     join_with ''; ''
       (map (\<lambda>c. ck_name c @ ''='' @ ck_value c) (filter (\<lambda>c. cookie_matches_url now c u) cs))"

definition hop_headers ::
  "'b world \<Rightarrow> f64 \<Rightarrow> 'b cookies \<Rightarrow> credentials \<Rightarrow> headers \<Rightarrow> url \<Rightarrow> bool \<Rightarrow>
     (fetch_error + headers) \<times> 'b cookies" where
  "hop_headers w now ck creds hs u keep_explicit_cookie =
     (if creds = Omit then (Inr (remove_header ''cookie'' hs), ck)
      else if ck = NoCookies then (Inr hs, ck)
      else if keep_explicit_cookie then (Inr hs, ck)
      else (let hop = remove_header ''cookie'' hs; (r, ck') = cookies_read w now ck
            in case r of
                 Inl e \<Rightarrow> (Inl e, ck')
               | Inr cs \<Rightarrow>
                   (let v = cookie_header_value now u cs
                    in (Inr (if v \<noteq> [] then set_header ''cookie'' v hop else hop), ck'))))"

definition header_values :: "string \<Rightarrow> http_response \<Rightarrow> string list" where
  "header_values name r = get_all name (resp_headers r)"

text \<open>The first value of a response header, when it is text.\<close>

definition header_text :: "string \<Rightarrow> http_response \<Rightarrow> string option" where
  "header_text name r =
     (case header_values name r of [] \<Rightarrow> None | v # _ \<Rightarrow> header_to_str v)"

fun add_each :: "'b world \<Rightarrow> cookie list \<Rightarrow> 'b \<Rightarrow> 'b" where
  "add_each w [] b = b"
| "add_each w (c # cs) b = add_each w cs (snd (w_bridge_add w [c] b))"

definition persist_set_cookies :: "'b world \<Rightarrow> cookie list \<Rightarrow> 'b \<Rightarrow> 'b" where
  "persist_set_cookies w cs b =
     (if cs = [] then b
      else (let (r, b') = w_bridge_add w cs b
            in case r of Inr _ \<Rightarrow> b' | Inl _ \<Rightarrow> add_each w cs b'))"

definition store_set_cookies ::
  "'b world \<Rightarrow> f64 \<Rightarrow> 'b cookies \<Rightarrow> credentials \<Rightarrow> url \<Rightarrow> http_response \<Rightarrow> 'b cookies" where
  "store_set_cookies w now ck creds u r =
     (let cs = parse_set_cookie_headers now (w_http_date w) u (header_values ''set-cookie'' r)
      in case ck of
           HostBridge b \<Rightarrow> HostBridge (persist_set_cookies w cs b)
         | OwnJar j \<Rightarrow> if creds \<noteq> Omit then OwnJar (jar_add now cs j) else ck
         | NoCookies \<Rightarrow> ck)"

subsection \<open>One hop over the wire\<close>

definition wire_payload :: "string option \<Rightarrow> string option \<Rightarrow> payload" where
  "wire_payload stream bytes =
     (case stream of
        Some s \<Rightarrow> Streamed s
      | None \<Rightarrow> (case bytes of Some b \<Rightarrow> Buffered b | None \<Rightarrow> NoBody))"

definition failure_text :: "url \<Rightarrow> (bool \<times> string) list \<Rightarrow> string" where
  "failure_text u chain =
     ''request to '' @ url_text u @ '' failed: '' @ (case chain of [] \<Rightarrow> [] | (_, m) # _ \<Rightarrow> m)"

lemma unat_step_up: "(a :: 32 word) < b \<Longrightarrow> unat (a + 1) = unat a + 1"
proof -
  have "unat b < 2 ^ 32" using unsigned_less [of b] by simp
  then show "a < b \<Longrightarrow> ?thesis" by (simp add: unat_word_ariths word_less_nat_alt)
qed

function send_hop ::
  "'b world \<Rightarrow> string \<Rightarrow> url \<Rightarrow> headers \<Rightarrow> string option \<Rightarrow> string option \<Rightarrow> 32 word \<Rightarrow> string \<Rightarrow>
     32 word \<Rightarrow> event list \<Rightarrow> (fetch_error + http_response) \<times> event list" where
  "send_hop w method u hs bytes stream retries timeout_message attempt trace =
     (if w_time_left w (length trace) = 0 then (Inl (Timeout timeout_message), trace)
      else
        (let x = \<lparr>sent_method = method, sent_url = u, sent_headers = hs,
                  sent_body = wire_payload stream bytes\<rparr>;
             trace' = trace @ [Sent x]
         in case w_reply w (length trace) x of
              Answered r \<Rightarrow> (Inr r, trace')
            | Failed chain \<Rightarrow>
                if stream = None \<and> attempt < retries \<and> is_connection_reset chain
                then send_hop w method u hs bytes None retries timeout_message (attempt + 1)
                       (trace' @ [Slept (retry_backoff (attempt + 1))])
                else (Inl (Network (failure_text u chain)), trace')))"
  by pat_completeness auto
termination
  by (relation "measure (\<lambda>(w, m, u, hs, b, s, retries, t, attempt, trace). unat retries - unat attempt)")
     (auto simp: unat_step_up word_less_nat_alt)

declare send_hop.simps [simp del]

subsection \<open>Challenges and redirects\<close>

definition challenge_answer ::
  "(url \<Rightarrow> string option) option \<Rightarrow> url \<Rightarrow> headers \<Rightarrow> http_response \<Rightarrow> string option" where
  "challenge_answer chal u sent r =
     (if resp_status r \<noteq> 401 \<or> contains ''authorization'' sent then None
      else case header_text ''www-authenticate'' r of
        None \<Rightarrow> None
      | Some scheme \<Rightarrow>
          if \<not> prefix ''Basic'' (trim_start scheme) then None
          else case chal of None \<Rightarrow> None | Some answer \<Rightarrow> answer u)"

definition redirect_target ::
  "'b world \<Rightarrow> url \<Rightarrow> http_response \<Rightarrow> fetch_error + url option" where
  "redirect_target w u r =
     (case header_text ''location'' r of
        None \<Rightarrow> Inr None
      | Some location \<Rightarrow>
          (case w_join w u location of
             Some next \<Rightarrow> Inr (Some next)
           | None \<Rightarrow> Inl (InvalidUrl
               (''uri requested responds with an invalid redirect URL: '' @ location))))"

definition same_origin :: "url \<Rightarrow> url \<Rightarrow> bool" where
  "same_origin a b = (url_origin a \<noteq> None \<and> url_origin a = url_origin b)"

definition body_headers :: "string list" where
  "body_headers = [''content-encoding'', ''content-language'', ''content-length'',
     ''content-location'', ''content-type'']"

definition rewrites_to_get :: "nat \<Rightarrow> string \<Rightarrow> bool" where
  "rewrites_to_get st method =
     (((st = 301 \<or> st = 302) \<and> method = ''POST'')
      \<or> (st = 303 \<and> method \<noteq> ''GET'' \<and> method \<noteq> ''HEAD''))"

definition rewrite_for_redirect ::
  "nat \<Rightarrow> url \<Rightarrow> url \<Rightarrow> string \<times> string option \<times> headers \<Rightarrow> string \<times> string option \<times> headers" where
  "rewrite_for_redirect st u next s =
     (let (method, bytes, hs) = s;
          get = rewrites_to_get st method;
          hs = (if get then foldl (\<lambda>hs name. remove_header name hs) hs body_headers else hs);
          hs = remove_header ''cookie'' hs;
          hs = (if \<not> same_origin next u then remove_header ''authorization'' hs else hs)
      in (if get then ''GET'' else method, if get then None else bytes, hs))"

subsection \<open>The loop\<close>

text \<open>
  What one turn of the loop reads and writes, the engine apart. \<open>hop_fixed\<close> is what stays the
  same in all turns.
\<close>

record hop_state =
  hop_method :: string
  hop_url :: url
  hop_hdrs :: headers
  hop_bytes :: "string option"
  pending_stream :: "string option"
  remaining :: "32 word option"
  first_hop :: bool
  hops_followed :: "32 word"

record hop_fixed =
  fix_request :: fetch_request
  explicit_cookie :: bool
  body_is_streamed :: bool

datatype verdict = Continue hop_state | Break http_response | Fail fetch_error

definition redirect_status :: "nat \<Rightarrow> bool" where
  "redirect_status st = (st \<in> {301, 302, 303, 307, 308})"

definition request_line :: "fetch_request \<Rightarrow> string" where
  "request_line q = req_method q @ '' '' @ url_text (req_url q)"

definition after_response ::
  "'b world \<Rightarrow> hop_fixed \<Rightarrow> hop_state \<Rightarrow> headers \<Rightarrow> http_response \<Rightarrow> verdict" where
  "after_response w f s hop r =
     (let q = fix_request f; st = resp_status r;
          finish = (case (if body_is_streamed f then None
                          else challenge_answer (challenge q) (hop_url s) hop r) of
                      Some authorization \<Rightarrow>
                        Continue (s\<lparr>hop_hdrs := set_header ''authorization'' authorization (hop_hdrs s)\<rparr>)
                    | None \<Rightarrow> Break r)
      in if redirect_status st then
           (case remaining s of
              None \<Rightarrow> finish
            | Some budget \<Rightarrow>
                if budget = 0 then
                  Fail (TooManyRedirects
                    (case follow_budget (req_redirect q) (max_redirects q) of None \<Rightarrow> 0 | Some n \<Rightarrow> n))
                else
                  (case redirect_target w (hop_url s) r of
                     Inl e \<Rightarrow> Fail e
                   | Inr None \<Rightarrow> Break r
                   | Inr (Some next) \<Rightarrow>
                       if body_is_streamed f \<and> st \<noteq> 303 then
                         Fail (RedirectRefused (request_line q
                           @ '': cannot follow a redirect for a request with a streaming body''))
                       else
                         (let (m, b, hs) = rewrite_for_redirect st (hop_url s) next
                                             (hop_method s, hop_bytes s, hop_hdrs s)
                          in Continue (s\<lparr>hop_method := m, hop_url := next, hop_hdrs := hs, hop_bytes := b,
                               remaining := Some (budget - 1), first_hop := False,
                               hops_followed := hops_followed s + 1\<rparr>))))
         else finish)"

definition guard_hop :: "url \<Rightarrow> 'b engine \<Rightarrow> fetch_error option \<times> 'b engine" where
  "guard_hop u e =
     (case eng_guard e of
        None \<Rightarrow> (None, e)
      | Some g \<Rightarrow>
          (let (r, g') = check_url u g; e' = e\<lparr>eng_guard := Some g'\<rparr>
           in case r of Inl err \<Rightarrow> (Some (fetch_error_of err), e') | Inr _ \<Rightarrow> (None, e')))"

definition hop_turn ::
  "'b world \<Rightarrow> hop_fixed \<Rightarrow> hop_state \<Rightarrow> 'b engine \<Rightarrow> verdict \<times> hop_state \<times> 'b engine" where
  "hop_turn w f s e =
     (let q = fix_request f
      in case guard_hop (hop_url s) e of
           (Some err, e) \<Rightarrow> (Fail err, s, e)
         | (None, e) \<Rightarrow>
        (case hop_headers w (w_now w (length (eng_log e))) (eng_cookies e) (req_credentials q)
                (hop_hdrs s) (hop_url s) (first_hop s \<and> explicit_cookie f) of
           (Inl err, ck) \<Rightarrow> (Fail err, s, e\<lparr>eng_cookies := ck\<rparr>)
         | (Inr hop, ck) \<Rightarrow>
        (case send_hop w (hop_method s) (hop_url s) hop (hop_bytes s) (pending_stream s)
                (max_retries q) (request_line q @ '' timed out'') 0 (eng_log e) of
           (r, trace) \<Rightarrow>
        (let s = s\<lparr>pending_stream := None\<rparr>; e = e\<lparr>eng_cookies := ck, eng_log := trace\<rparr>
         in case r of
              Inl err \<Rightarrow> (Fail err, s, e)
            | Inr resp \<Rightarrow>
                (let e = e\<lparr>eng_cookies := store_set_cookies w (w_now w (length trace)) ck
                             (req_credentials q) (hop_url s) resp\<rparr>
                 in (after_response w f s hop resp, s, e))))))"

definition turns_left :: "hop_state \<Rightarrow> nat" where
  "turns_left s =
     2 * (case remaining s of None \<Rightarrow> 0 | Some b \<Rightarrow> unat b)
     + (if contains ''authorization'' (hop_hdrs s) then 0 else 1)"

lemma contains_cookie_hop:
  assumes "hop_headers w now ck creds hs u keep = (Inr hop, ck')"
  shows "get_all ''authorization'' hop = get_all ''authorization'' hs"
  using assms
  by (auto simp: hop_headers_def Let_def hdrs.has_put hdrs.has_del get_all_set get_all_remove
      eq_ignore_ascii_case_def to_ascii_lowercase_def
      split: if_splits sum.splits prod.splits)

lemma after_response_Continue:
  assumes "after_response w f s hop r = Continue s'"
  obtains (challenged) a where
      "challenge_answer (challenge (fix_request f)) (hop_url s) hop r = Some a"
      "\<not> body_is_streamed f"
      "s' = s\<lparr>hop_hdrs := set_header ''authorization'' a (hop_hdrs s)\<rparr>"
    | (followed) budget nxt m b hs where
      "remaining s = Some budget" "budget \<noteq> 0" "redirect_status (resp_status r)"
      "redirect_target w (hop_url s) r = Inr (Some nxt)"
      "body_is_streamed f \<longrightarrow> resp_status r = 303"
      "rewrite_for_redirect (resp_status r) (hop_url s) nxt (hop_method s, hop_bytes s, hop_hdrs s)
         = (m, b, hs)"
      "s' = s\<lparr>hop_method := m, hop_url := nxt, hop_hdrs := hs, hop_bytes := b,
              remaining := Some (budget - 1), first_hop := False,
              hops_followed := hops_followed s + 1\<rparr>"
  using assms
  by (auto simp: after_response_def Let_def split: if_splits option.splits sum.splits prod.splits)

lemma challenge_answer_Some:
  "challenge_answer chal u hop r = Some a \<Longrightarrow>
     resp_status r = 401 \<and> \<not> contains ''authorization'' hop
     \<and> (\<exists>answer. chal = Some answer \<and> answer u = Some a)"
  by (auto simp: challenge_answer_def split: if_splits option.splits)

lemma hop_turn_cases:
  assumes "hop_turn w f s e = (v, s', e')"
  obtains (guarded) err where "guard_hop (hop_url s) e = (Some err, e')" "v = Fail err" "s' = s"
    | (no_headers) err e1 ck where "guard_hop (hop_url s) e = (None, e1)"
      "hop_headers w (w_now w (length (eng_log e1))) (eng_cookies e1) (req_credentials (fix_request f))
         (hop_hdrs s) (hop_url s) (first_hop s \<and> explicit_cookie f) = (Inl err, ck)"
      "v = Fail err" "s' = s" "e' = e1\<lparr>eng_cookies := ck\<rparr>"
    | (sent) e1 hop ck r trace where "guard_hop (hop_url s) e = (None, e1)"
      "hop_headers w (w_now w (length (eng_log e1))) (eng_cookies e1) (req_credentials (fix_request f))
         (hop_hdrs s) (hop_url s) (first_hop s \<and> explicit_cookie f) = (Inr hop, ck)"
      "send_hop w (hop_method s) (hop_url s) hop (hop_bytes s) (pending_stream s)
         (max_retries (fix_request f)) (request_line (fix_request f) @ '' timed out'') 0 (eng_log e1)
         = (r, trace)"
      "s' = s\<lparr>pending_stream := None\<rparr>"
      "v = (case r of Inl err \<Rightarrow> Fail err | Inr resp \<Rightarrow> after_response w f s' hop resp)"
      "e' = e1\<lparr>eng_log := trace, eng_cookies := (case r of Inl _ \<Rightarrow> ck | Inr resp \<Rightarrow>
         store_set_cookies w (w_now w (length trace)) ck (req_credentials (fix_request f)) (hop_url s) resp)\<rparr>"
  using assms
  by (force simp: hop_turn_def Let_def split: prod.splits option.splits sum.splits)

lemma guard_hop_rest: "guard_hop u e = (x, e') \<Longrightarrow> eng_log e' = eng_log e \<and> eng_cookies e' = eng_cookies e"
  by (auto simp: guard_hop_def Let_def split: option.splits prod.splits sum.splits)

lemma authorization_rewritten:
  assumes "rewrite_for_redirect st u nxt (m, b, hs) = (m', b', hs')"
  shows "get_all ''authorization'' hs'
           = (if same_origin nxt u then get_all ''authorization'' hs else [])"
  using assms
  by (auto simp: rewrite_for_redirect_def Let_def hdrs.all_of_foldl_del get_all_remove body_headers_def
      eq_ignore_ascii_case_def to_ascii_lowercase_def split: if_splits)

lemma hop_turn_Continue_less:
  assumes "hop_turn w f s e = (Continue s'', s', e')"
  shows "turns_left s'' < turns_left s"
  using assms
proof (cases rule: hop_turn_cases)
  case (sent e1 hop ck r trace)
  then obtain resp where r: "after_response w f s' hop resp = Continue s''" "s' = s\<lparr>pending_stream := None\<rparr>"
    by (auto split: sum.splits)
  have auth: "contains ''authorization'' hop = contains ''authorization'' (hop_hdrs s)"
    using contains_cookie_hop [OF sent(2)] by (simp add: hdrs.has_iff)
  from r(1) show ?thesis
  proof (cases rule: after_response_Continue)
    case (challenged a)
    then show ?thesis using r(2) auth challenge_answer_Some [OF challenged(1)]
      by (auto simp: turns_left_def hdrs.has_put)
  next
    case (followed budget nxt m b hs)
    then have "unat budget = Suc (unat (budget - 1))" by (simp add: unat_minus_one unat_gt_0)
    with followed r(2) show ?thesis by (auto simp: turns_left_def)
  qed
qed auto

function redirects ::
  "'b world \<Rightarrow> hop_fixed \<Rightarrow> hop_state \<Rightarrow> 'b engine \<Rightarrow>
     (fetch_error + http_response) \<times> hop_state \<times> 'b engine" where
  "redirects w f s e =
     (case hop_turn w f s e of
        (Fail err, s', e') \<Rightarrow> (Inl err, s', e')
      | (Break r, s', e') \<Rightarrow> (Inr r, s', e')
      | (Continue s'', s', e') \<Rightarrow> redirects w f s'' e')"
  by pat_completeness auto
termination
  by (relation "measure (\<lambda>(w, f, s, e). turns_left s)") (auto dest!: sym [THEN hop_turn_Continue_less])

declare redirects.simps [simp del]

lemma redirects_Continue: "hop_turn w f s e = (Continue s2, s1, e1) \<Longrightarrow> redirects w f s e = redirects w f s2 e1"
  by (simp add: redirects.simps [of w f s e])

lemma redirects_Break: "hop_turn w f s e = (Break r, s1, e1) \<Longrightarrow> redirects w f s e = (Inr r, s1, e1)"
  by (simp add: redirects.simps [of w f s e])

subsection \<open>Sending a request\<close>

definition is_redirection :: "nat \<Rightarrow> bool" where
  "is_redirection st = (300 \<le> st \<and> st < 400)"

definition into_response ::
  "'b world \<Rightarrow> http_response \<Rightarrow> url \<Rightarrow> redirect_mode \<Rightarrow> 32 word \<Rightarrow> fetch_response" where
  "into_response w r u redirect followed =
     (let unfollowed = (redirect = Manual \<and> is_redirection (resp_status r))
      in \<lparr>status = resp_status r,
          status_text = (case w_reason w (resp_status r) of Some t \<Rightarrow> t | None \<Rightarrow> ''Unknown''),
          final_url = url_text u,
          headers_of = map (\<lambda>(k, v). (k, case header_to_str v of Some t \<Rightarrow> t | None \<Rightarrow> [])) (resp_headers r),
          body_of = resp_body r,
          redirected = (0 < followed),
          unfollowed_redirect = unfollowed,
          type_of = (if unfollowed then OpaqueRedirect else Basic)\<rparr>)"

definition cookies_of :: "'b option \<Rightarrow> jar option \<Rightarrow> 'b cookies" where
  "cookies_of bridge pool_jar =
     (case (bridge, pool_jar) of
        (Some b, _) \<Rightarrow> HostBridge b
      | (None, Some j) \<Rightarrow> OwnJar j
      | (None, None) \<Rightarrow> NoCookies)"

definition active_guard :: "fetch_request \<Rightarrow> net_guard option" where
  "active_guard q =
     (case net_guard_of q of None \<Rightarrow> None | Some g \<Rightarrow> if guard_is_active g then Some g else None)"

definition send_preflight ::
  "'b world \<Rightarrow> fetch_request \<Rightarrow> 'b engine \<Rightarrow> fetch_error option \<times> 'b engine" where
  "send_preflight w q e =
     (case eng_guard e of
        None \<Rightarrow> (None, e)
      | Some g \<Rightarrow>
          (let (r, g') = preflight (w_parse_url w) (url_text (req_url q)) g; e' = e\<lparr>eng_guard := Some g'\<rparr>
           in case r of Inl err \<Rightarrow> (Some (fetch_error_of err), e') | Inr _ \<Rightarrow> (None, e')))"

definition first_state :: "fetch_request \<Rightarrow> string option \<Rightarrow> string option \<Rightarrow> hop_state" where
  "first_state q bytes stream =
     \<lparr>hop_method = req_method q, hop_url = req_url q, hop_hdrs = req_headers q, hop_bytes = bytes,
      pending_stream = stream, remaining = follow_budget (req_redirect q) (max_redirects q),
      first_hop = True, hops_followed = 0\<rparr>"

definition fixed_of :: "fetch_request \<Rightarrow> string option \<Rightarrow> hop_fixed" where
  "fixed_of q stream =
     \<lparr>fix_request = q, explicit_cookie = contains ''cookie'' (req_headers q),
      body_is_streamed = (stream \<noteq> None)\<rparr>"

definition send ::
  "'b world \<Rightarrow> 'b cookies \<Rightarrow> fetch_request \<Rightarrow> (fetch_error + fetch_response) \<times> 'b engine" where
  "send w ck q =
     (let e = \<lparr>eng_cookies = ck, eng_guard = active_guard q, eng_log = []\<rparr>
      in case request_payload (req_body q) of
           Inl err \<Rightarrow> (Inl err, e)
         | Inr (bytes, stream) \<Rightarrow>
        (case send_preflight w q e of
           (Some err, e) \<Rightarrow> (Inl err, e)
         | (None, e) \<Rightarrow>
        (case w_client w of
           Some err \<Rightarrow> (Inl err, e)
         | None \<Rightarrow>
        (case redirects w (fixed_of q stream) (first_state q bytes stream) e of
           (Inl err, s, e) \<Rightarrow> (Inl err, e)
         | (Inr r, s, e) \<Rightarrow>
             if req_redirect q = ErrorMode \<and> is_redirection (resp_status r)
             then (Inl (RedirectRefused (request_line q
                     @ '': unexpected redirect (redirect: '' @ [CHR 0x22] @ ''error'' @ [CHR 0x22] @ '')'')), e)
             else (Inr (into_response w r (hop_url s) (req_redirect q) (hops_followed s)), e)))))"

subsection \<open>What goes over the wire\<close>

definition sents :: "event list \<Rightarrow> sent list" where
  "sents evs = List.map_filter (\<lambda>ev. case ev of Sent x \<Rightarrow> Some x | Slept _ \<Rightarrow> None) evs"

lemma sents_simps [simp]:
  "sents [] = []" "sents (Sent x # evs) = x # sents evs" "sents (Slept n # evs) = sents evs"
  "sents (a @ b) = sents a @ sents b"
  by (simp_all add: sents_def List.map_filter_def)

text \<open>One hop sends the same request again, after resets only, at most \<open>retries\<close> times more;
  a stream goes once. A response answers the last request sent.\<close>

lemma send_hop_trace:
  assumes "send_hop w m u hs b st n t a tr = (r, tr')"
  shows "\<exists>evs. tr' = tr @ evs
     \<and> set (sents evs) \<subseteq> {\<lparr>sent_method = m, sent_url = u, sent_headers = hs, sent_body = wire_payload st b\<rparr>}
     \<and> length (sents evs) \<le> Suc (unat n - unat a)
     \<and> (st \<noteq> None \<longrightarrow> length (sents evs) \<le> 1)
     \<and> (\<forall>resp. r = Inr resp \<longrightarrow> sents evs \<noteq> []
          \<and> w_reply w (length tr' - 1) (last (sents evs)) = Answered resp)"
  using assms
proof (induction w m u hs b st n t a tr arbitrary: r tr' rule: send_hop.induct)
  case (1 w m u hs b st n t a tr)
  define x where "x = \<lparr>sent_method = m, sent_url = u, sent_headers = hs, sent_body = wire_payload st b\<rparr>"
  note unfold = "1.prems" [unfolded send_hop.simps [of w m u hs b st n t a tr] Let_def,
      folded x_def]
  show ?case
  proof (cases "w_time_left w (length tr) = 0")
    case True
    then show ?thesis using unfold by auto
  next
    case time: False
    show ?thesis
    proof (cases "\<exists>chain. w_reply w (length tr) x = Failed chain \<and> st = None \<and> a < n
        \<and> is_connection_reset chain")
      case True
      then obtain chain where chain: "w_reply w (length tr) x = Failed chain" "st = None" "a < n"
        "is_connection_reset chain" by blast
      let ?tr = "(tr @ [Sent x]) @ [Slept (retry_backoff (a + 1))]"
      have rec: "send_hop w m u hs b None n t (a + 1) ?tr = (r, tr')"
        using unfold time chain by simp
      obtain evs where evs: "tr' = ?tr @ evs" "set (sents evs) \<subseteq> {x}"
        "length (sents evs) \<le> Suc (unat n - unat (a + 1))"
        "\<forall>resp. r = Inr resp \<longrightarrow> sents evs \<noteq> []
          \<and> w_reply w (length tr' - 1) (last (sents evs)) = Answered resp"
        using "1.IH" [OF time refl refl, folded x_def, OF chain(1) _ rec] chain
        by (auto simp: x_def)
      have "unat a < unat n" using chain(3) by (simp add: word_less_nat_alt)
      then show ?thesis using evs chain(2) unat_step_up [OF chain(3)]
        by (intro exI [of _ "Sent x # Slept (retry_backoff (a + 1)) # evs"]) (auto simp: x_def)
    next
      case False
      then have "tr' = tr @ [Sent x] \<and> (\<forall>resp. r = Inr resp \<longrightarrow> w_reply w (length tr) x = Answered resp)"
        using unfold time by (auto split: reply.splits if_splits)
      then show ?thesis by (auto intro!: exI [of _ "[Sent x]"] simp: x_def)
    qed
  qed
qed

text \<open>What a turn sends, as a predicate on its requests.\<close>

definition request_of :: "hop_fixed \<Rightarrow> hop_state \<Rightarrow> sent \<Rightarrow> bool" where
  "request_of f s x =
     (sent_method x = hop_method s \<and> sent_url x = hop_url s
      \<and> sent_body x = wire_payload (pending_stream s) (hop_bytes s)
      \<and> get_all ''authorization'' (sent_headers x) = get_all ''authorization'' (hop_hdrs s)
      \<and> (req_credentials (fix_request f) = Omit \<longrightarrow> \<not> contains ''cookie'' (sent_headers x)))"

definition guard_admits :: "'b engine \<Rightarrow> url \<Rightarrow> bool" where
  "guard_admits e u = (case eng_guard e of None \<Rightarrow> True | Some g \<Rightarrow> admits g u)"

lemma guard_hop_admits:
  assumes "guard_hop u e = (x, e')"
  shows "x = None \<Longrightarrow> guard_admits e u" and "guard_admits e' v = guard_admits e v"
proof -
  have step: "guard_admits (e\<lparr>eng_guard := Some (snd (check_url u g))\<rparr>) v = admits g v" for g
    by (simp add: guard_admits_def)
  show "guard_admits e' v = guard_admits e v"
    using assms step
    by (auto simp: guard_hop_def guard_admits_def Let_def case_prod_unfold split: option.splits sum.splits)
  show "x = None \<Longrightarrow> guard_admits e u"
    using assms check_url_admits [of u]
    by (auto simp: guard_hop_def guard_admits_def Let_def case_prod_unfold split: option.splits sum.splits)
qed

lemma hop_headers_omit:
  "hop_headers w now ck Omit hs u keep = (r, ck') \<Longrightarrow> ck' = ck \<and> r = Inr (remove_header ''cookie'' hs)"
  by (auto simp: hop_headers_def)

lemma hop_turn_sents:
  assumes "hop_turn w f s e = (v, s', e')"
  shows "\<exists>xs. sents (eng_log e') = sents (eng_log e) @ xs
     \<and> length xs \<le> Suc (unat (max_retries (fix_request f)))
     \<and> (pending_stream s \<noteq> None \<longrightarrow> length xs \<le> 1) \<and> ((\<forall>err. v \<noteq> Fail err) \<longrightarrow> xs \<noteq> [])
     \<and> (\<forall>x \<in> set xs. request_of f s x \<and> guard_admits e (hop_url s))
     \<and> (\<forall>u. guard_admits e' u = guard_admits e u)"
  using assms
proof (cases rule: hop_turn_cases)
  case (guarded err)
  then show ?thesis using guard_hop_rest [OF guarded(1)] guard_hop_admits(2) [OF guarded(1)]
    by (intro exI [of _ "[]"]) auto
next
  case (no_headers err e1 ck)
  have "guard_admits e' u = guard_admits e1 u" for u
    using no_headers by (simp add: guard_admits_def)
  with no_headers show ?thesis using guard_hop_rest [OF no_headers(1)] guard_hop_admits(2) [OF no_headers(1)]
    by (intro exI [of _ "[]"]) auto
next
  case (sent e1 hop ck r trace)
  have g: "guard_admits e (hop_url s)" "\<And>u. guard_admits e' u = guard_admits e u"
    using sent(6) guard_hop_admits [OF sent(1)] by (auto simp: guard_admits_def)
  obtain evs where evs: "trace = eng_log e1 @ evs"
    "set (sents evs) \<subseteq> {\<lparr>sent_method = hop_method s, sent_url = hop_url s, sent_headers = hop,
        sent_body = wire_payload (pending_stream s) (hop_bytes s)\<rparr>}"
    "length (sents evs) \<le> Suc (unat (max_retries (fix_request f)))"
    "pending_stream s \<noteq> None \<longrightarrow> length (sents evs) \<le> 1"
    "\<forall>resp. r = Inr resp \<longrightarrow> sents evs \<noteq> []"
    using send_hop_trace [OF sent(3)] by auto
  have "req_credentials (fix_request f) = Omit \<longrightarrow> \<not> contains ''cookie'' hop"
    using sent(2) by (auto simp: hop_headers_def hdrs.has_del)
  then have "\<forall>x \<in> set (sents evs). request_of f s x"
    using evs(2) contains_cookie_hop [OF sent(2)] by (auto simp: request_of_def)
  moreover have "(\<forall>err. v \<noteq> Fail err) \<longrightarrow> sents evs \<noteq> []"
    using evs(5) sent(5) by (cases r) auto
  ultimately show ?thesis using evs sent(6) g guard_hop_rest [OF sent(1)]
    by (intro exI [of _ "sents evs"]) auto
qed

text \<open>The moves from one turn to the next.\<close>

inductive next_hop :: "'b world \<Rightarrow> hop_fixed \<Rightarrow> hop_state \<Rightarrow> hop_state \<Rightarrow> bool" for w f where
  challenged: "challenge (fix_request f) = Some answer \<Longrightarrow> answer (hop_url s) = Some a \<Longrightarrow>
    \<not> contains ''authorization'' (hop_hdrs s) \<Longrightarrow> \<not> body_is_streamed f \<Longrightarrow>
    s' = s\<lparr>pending_stream := None, hop_hdrs := set_header ''authorization'' a (hop_hdrs s)\<rparr> \<Longrightarrow>
    next_hop w f s s'"
| followed: "remaining s = Some budget \<Longrightarrow> budget \<noteq> 0 \<Longrightarrow>
    body_is_streamed f \<longrightarrow> st = 303 \<Longrightarrow> redirect_status st \<Longrightarrow>
    rewrite_for_redirect st (hop_url s) nxt (hop_method s, hop_bytes s, hop_hdrs s) = (m, b, hs) \<Longrightarrow>
    s' = s\<lparr>pending_stream := None, hop_method := m, hop_url := nxt, hop_hdrs := hs, hop_bytes := b,
           remaining := Some (budget - 1), first_hop := False, hops_followed := hops_followed s + 1\<rparr> \<Longrightarrow>
    next_hop w f s s'"

lemma hop_turn_next:
  assumes "hop_turn w f s e = (Continue s'', s', e')"
  shows "next_hop w f s s''"
  using assms
proof (cases rule: hop_turn_cases)
  case (sent e1 hop ck r trace)
  then obtain resp where r: "after_response w f s' hop resp = Continue s''" "s' = s\<lparr>pending_stream := None\<rparr>"
    by (auto split: sum.splits)
  have auth: "contains ''authorization'' hop = contains ''authorization'' (hop_hdrs s)"
    using contains_cookie_hop [OF sent(2)] by (simp add: hdrs.has_iff)
  from r(1) show ?thesis
  proof (cases rule: after_response_Continue)
    case (challenged a)
    then show ?thesis using r(2) auth challenge_answer_Some [OF challenged(1)]
      by (auto intro!: next_hop.challenged)
  next
    case (followed budget nxt m b hs)
    then show ?thesis using r(2) by (auto intro!: next_hop.followed)
  qed
qed auto

lemma next_hop_less: "next_hop w f s s' \<Longrightarrow> turns_left s' < turns_left s"
proof (induction rule: next_hop.induct)
  case (followed s budget st nxt m b hs s')
  then have "unat budget = Suc (unat (budget - 1))" by (simp add: unat_minus_one unat_gt_0)
  with followed show ?case by (simp add: turns_left_def)
qed (simp add: turns_left_def hdrs.has_put)

lemma redirects_run:
  assumes "redirects w f s e = (r, s', e')"
    and "I s" and "\<forall>s s'. I s \<longrightarrow> next_hop w f s s' \<longrightarrow> I s'"
  shows "\<exists>xs. sents (eng_log e') = sents (eng_log e) @ xs
     \<and> length xs \<le> Suc (turns_left s) * Suc (unat (max_retries (fix_request f)))
     \<and> (\<forall>x \<in> set xs. guard_admits e (sent_url x) \<and> (\<exists>s. I s \<and> request_of f s x))"
  using assms
proof (induction w f s e arbitrary: r s' e' rule: redirects.induct)
  case (1 w f s e)
  obtain v s1 e1 where turn: "hop_turn w f s e = (v, s1, e1)" by (cases "hop_turn w f s e") auto
  from hop_turn_sents [OF turn] obtain xs where xs:
    "sents (eng_log e1) = sents (eng_log e) @ xs"
    "length xs \<le> Suc (unat (max_retries (fix_request f)))"
    "\<And>x. x \<in> set xs \<Longrightarrow> request_of f s x \<and> guard_admits e (hop_url s)"
    "\<And>u. guard_admits e1 u = guard_admits e u" by blast
  have here: "\<forall>x \<in> set xs. guard_admits e (sent_url x) \<and> (\<exists>s. I s \<and> request_of f s x)"
    using xs(3) "1.prems"(2) by (auto simp: request_of_def)
  show ?case
  proof (cases v)
    case (Continue s2)
    have rest: "redirects w f s2 e1 = (r, s', e')"
      using "1.prems"(1) by (simp add: redirects.simps [of w f s e] turn Continue)
    have next_s: "next_hop w f s s2" using hop_turn_next turn Continue by blast
    obtain ys where ys: "sents (eng_log e') = sents (eng_log e1) @ ys"
      "length ys \<le> Suc (turns_left s2) * Suc (unat (max_retries (fix_request f)))"
      "\<forall>x \<in> set ys. guard_admits e1 (sent_url x) \<and> (\<exists>s. I s \<and> request_of f s x)"
      using "1.IH" [OF turn [symmetric] Continue refl rest _ "1.prems"(3)] "1.prems"(2,3) next_s
      by blast
    have "Suc (turns_left s2) * Suc (unat (max_retries (fix_request f)))
        \<le> turns_left s * Suc (unat (max_retries (fix_request f)))"
      using next_hop_less [OF next_s] by (intro mult_le_mono1) simp
    with ys(2) xs(2) have "length (xs @ ys) \<le> Suc (turns_left s) * Suc (unat (max_retries (fix_request f)))"
      by simp
    with xs ys here show ?thesis by (intro exI [of _ "xs @ ys"]) auto
  qed (use "1.prems"(1) turn xs here in
      \<open>auto simp: redirects.simps [of w f s e] intro!: exI [of _ xs]\<close>)
qed

subsection \<open>Runs of \<open>send\<close>\<close>

lemma request_payload_cases:
  assumes "request_payload b = Inr (bytes, stream)"
  obtains "b = EmptyBody" "bytes = None" "stream = None"
    | t where "b = BytesBody t" "bytes = Some t" "stream = None"
    | t where "b = StreamBody t" "bytes = None" "stream = Some t"
  using assms by (cases b) (auto simp: request_payload_def)

lemma send_preflight_rest:
  assumes "send_preflight w q e = (x, e')"
  shows "eng_log e' = eng_log e" "eng_cookies e' = eng_cookies e" "guard_admits e' u = guard_admits e u"
  using assms
  by (auto simp: send_preflight_def guard_admits_def preflight_def Let_def case_prod_unfold
      split: option.splits sum.splits)

text \<open>Either nothing was sent, or the loop ran from the first state.\<close>

lemma send_cases:
  assumes "send w ck q = (r, e')"
  obtains (unsent) err where "r = Inl err" "eng_log e' = []" "eng_cookies e' = ck"
    | (ran) bytes stream e r' s' where "request_payload (req_body q) = Inr (bytes, stream)"
      "eng_log e = []" "eng_cookies e = ck"
      "\<And>u. guard_admits e u = (case active_guard q of None \<Rightarrow> True | Some g \<Rightarrow> admits g u)"
      "redirects w (fixed_of q stream) (first_state q bytes stream) e = (r', s', e')"
      "r = (case r' of
              Inl err \<Rightarrow> Inl err
            | Inr resp \<Rightarrow>
                if req_redirect q = ErrorMode \<and> is_redirection (resp_status resp)
                then Inl (RedirectRefused (request_line q
                       @ '': unexpected redirect (redirect: '' @ [CHR 0x22] @ ''error'' @ [CHR 0x22] @ '')''))
                else Inr (into_response w resp (hop_url s') (req_redirect q) (hops_followed s')))"
proof -
  define e0 :: "'a engine" where "e0 = \<lparr>eng_cookies = ck, eng_guard = active_guard q, eng_log = []\<rparr>"
  obtain p e1 where pre: "send_preflight w q e0 = (p, e1)" by (cases "send_preflight w q e0") auto
  have e1: "eng_log e1 = []" "eng_cookies e1 = ck"
    "\<And>u. guard_admits e1 u = (case active_guard q of None \<Rightarrow> True | Some g \<Rightarrow> admits g u)"
    using send_preflight_rest [OF pre] by (auto simp: e0_def guard_admits_def)
  note run = assms [unfolded send_def Let_def, folded e0_def]
  show thesis
  proof (cases "\<exists>bytes stream. request_payload (req_body q) = Inr (bytes, stream) \<and> p = None \<and> w_client w = None")
    case True
    then obtain bytes stream where ok: "request_payload (req_body q) = Inr (bytes, stream)" "p = None"
      "w_client w = None" by blast
    obtain r' s' e2 where loop: "redirects w (fixed_of q stream) (first_state q bytes stream) e1 = (r', s', e2)"
      by (metis prod_cases3)
    have "e2 = e'" using run ok pre loop by (auto split: sum.splits if_splits)
    moreover have "r = (case r' of
              Inl err \<Rightarrow> Inl err
            | Inr resp \<Rightarrow>
                if req_redirect q = ErrorMode \<and> is_redirection (resp_status resp)
                then Inl (RedirectRefused (request_line q
                       @ '': unexpected redirect (redirect: '' @ [CHR 0x22] @ ''error'' @ [CHR 0x22] @ '')''))
                else Inr (into_response w resp (hop_url s') (req_redirect q) (hops_followed s')))"
      using run ok pre loop by (auto split: sum.splits if_splits)
    ultimately show thesis using ran [OF ok(1) e1] loop by blast
  next
    case False
    then have "\<exists>err. r = Inl err \<and> (e' = e0 \<or> e' = e1)"
      using run pre by (auto split: sum.splits option.splits)
    then show thesis using unsent e1 by (auto simp: e0_def)
  qed
qed

lemma send_run:
  assumes "send w ck q = (r, e')"
    and "\<And>bytes stream. request_payload (req_body q) = Inr (bytes, stream) \<Longrightarrow>
      I bytes stream (first_state q bytes stream)
      \<and> (\<forall>s s'. I bytes stream s \<longrightarrow> next_hop w (fixed_of q stream) s s' \<longrightarrow> I bytes stream s')"
    and "x \<in> set (sents (eng_log e'))"
  shows "\<exists>bytes stream s. request_payload (req_body q) = Inr (bytes, stream) \<and> I bytes stream s
    \<and> request_of (fixed_of q stream) s x"
  using assms(1)
proof (cases rule: send_cases)
  case (ran bytes stream e r' s')
  from redirects_run [OF ran(5), of "I bytes stream"] assms(2) [OF ran(1)] ran(1,2) assms(3)
  show ?thesis by auto
qed (use assms(3) in simp)

lemma send_guarded:
  assumes "send w ck q = (r, e')" "active_guard q = Some g" "x \<in> set (sents (eng_log e'))"
  shows "admits g (sent_url x)"
  using assms(1)
proof (cases rule: send_cases)
  case (ran bytes stream e r' s')
  from redirects_run [OF ran(5), of "\<lambda>_. True"] ran(2,4) assms(2,3) show ?thesis by auto
qed (use assms(3) in simp)

definition budget_of :: "fetch_request \<Rightarrow> nat" where
  "budget_of q = (case follow_budget (req_redirect q) (max_redirects q) of None \<Rightarrow> 0 | Some n \<Rightarrow> unat n)"

lemma send_bounded:
  assumes "send w ck q = (r, e')"
  shows "length (sents (eng_log e')) \<le> (2 * budget_of q + 2) * (unat (max_retries q) + 1)"
  using assms(1)
proof (cases rule: send_cases)
  case (ran bytes stream e r' s')
  have "Suc (turns_left (first_state q bytes stream)) \<le> 2 * budget_of q + 2"
    by (simp add: turns_left_def first_state_def budget_of_def)
  then have "Suc (turns_left (first_state q bytes stream)) * Suc (unat (max_retries q))
      \<le> (2 * budget_of q + 2) * Suc (unat (max_retries q))" by (rule mult_le_mono1)
  with redirects_run [OF ran(5), of "\<lambda>_. True"] ran(2) show ?thesis
    by (auto simp: fixed_of_def)
qed simp

text \<open>Credentials: where an \<open>Authorization\<close> value may be.\<close>

definition entitled :: "fetch_request \<Rightarrow> url \<Rightarrow> headers \<Rightarrow> bool" where
  "entitled q u hs =
     (let sent_to = (\<lambda>v. u = v \<or> same_origin u v); a = get_all ''authorization'' hs
      in a = []
         \<or> (a = get_all ''authorization'' (req_headers q) \<and> sent_to (req_url q))
         \<or> (\<exists>answer v w. challenge q = Some answer \<and> answer v = Some w \<and> a = [w] \<and> sent_to v))"

lemma same_origin_trans: "same_origin a b \<Longrightarrow> same_origin b c \<Longrightarrow> same_origin a c"
  by (metis same_origin_def)

lemma entitled_next:
  assumes "next_hop w f s s'" "entitled (fix_request f) (hop_url s) (hop_hdrs s)"
  shows "entitled (fix_request f) (hop_url s') (hop_hdrs s')"
  using assms
proof (cases rule: next_hop.cases)
  case (challenged answer a)
  then have "get_all ''authorization'' (hop_hdrs s') = [a]" "hop_url s' = hop_url s"
    by (simp_all add: get_all_set)
  with challenged(1,2) show ?thesis by (auto simp: entitled_def Let_def)
next
  case (followed budget st nxt m b hs)
  have auth: "get_all ''authorization'' hs
      = (if same_origin nxt (hop_url s) then get_all ''authorization'' (hop_hdrs s) else [])"
    using authorization_rewritten followed by blast
  show ?thesis
  proof (cases "same_origin nxt (hop_url s)")
    case True
    with assms(2) auth followed show ?thesis
      by (auto simp: entitled_def Let_def dest: same_origin_trans)
  next
    case False
    with auth followed show ?thesis by (simp add: entitled_def)
  qed
qed

lemma send_entitled:
  assumes "send w ck q = (r, e')" "x \<in> set (sents (eng_log e'))"
  shows "entitled q (sent_url x) (sent_headers x)"
proof -
  have "\<exists>bytes stream s. request_payload (req_body q) = Inr (bytes, stream)
      \<and> entitled q (hop_url s) (hop_hdrs s) \<and> request_of (fixed_of q stream) s x"
    by (rule send_run [OF assms(1) _ assms(2), of "\<lambda>_ _ s. entitled q (hop_url s) (hop_hdrs s)"])
       (auto simp: first_state_def entitled_def Let_def fixed_of_def
          dest!: entitled_next [where f = "fixed_of q _", simplified fixed_of_def, simplified])
  then show ?thesis by (auto simp: request_of_def entitled_def)
qed

text \<open>Bodies: what is left of one after a redirect.\<close>

lemma rewrite_body:
  assumes "rewrite_for_redirect st u nxt (m, b, hs) = (m', b', hs')"
  shows "(if rewrites_to_get st m then m' = ''GET'' \<and> b' = None else m' = m \<and> b' = b)"
  using assms by (simp add: rewrite_for_redirect_def Let_def split: if_splits)

definition buffered_inv :: "fetch_request \<Rightarrow> string option \<Rightarrow> hop_state \<Rightarrow> bool" where
  "buffered_inv q bytes s =
     (pending_stream s = None
      \<and> (hop_method s = req_method q \<and> hop_bytes s = bytes \<or> hop_method s = ''GET'' \<and> hop_bytes s = None))"

lemma buffered_next: "next_hop w f s s' \<Longrightarrow> buffered_inv q bytes s \<Longrightarrow> buffered_inv q bytes s'"
  by (induction rule: next_hop.induct)
     (auto simp: buffered_inv_def dest!: rewrite_body split: if_splits)

lemma send_buffered:
  assumes "send w ck q = (r, e')" "x \<in> set (sents (eng_log e'))" "\<And>t. req_body q \<noteq> StreamBody t"
  shows "sent_method x = req_method q
       \<and> sent_body x = (case req_body q of BytesBody b \<Rightarrow> Buffered b | _ \<Rightarrow> NoBody)
     \<or> sent_method x = ''GET'' \<and> sent_body x = NoBody"
proof -
  have "\<exists>bytes stream s. request_payload (req_body q) = Inr (bytes, stream)
      \<and> buffered_inv q bytes s \<and> request_of (fixed_of q stream) s x"
  proof (rule send_run [OF assms(1) _ assms(2)])
    fix bytes stream
    assume "request_payload (req_body q) = Inr (bytes, stream)"
    then have "buffered_inv q bytes (first_state q bytes stream)"
      using assms(3) by (cases rule: request_payload_cases) (auto simp: buffered_inv_def first_state_def)
    then show "buffered_inv q bytes (first_state q bytes stream)
        \<and> (\<forall>s s'. buffered_inv q bytes s \<longrightarrow> next_hop w (fixed_of q stream) s s' \<longrightarrow> buffered_inv q bytes s')"
      using buffered_next by blast
  qed
  then show ?thesis
    by (auto simp: buffered_inv_def request_of_def wire_payload_def elim!: request_payload_cases)
qed

text \<open>A stream is in the first request and in no other.\<close>

definition drained_inv :: "hop_state \<Rightarrow> bool" where
  "drained_inv s = (pending_stream s = None \<and> hop_bytes s = None \<and> hop_method s \<in> {''GET'', ''HEAD''})"

lemma drained_next: "next_hop w f s s' \<Longrightarrow> drained_inv s \<Longrightarrow> drained_inv s'"
  by (induction rule: next_hop.induct)
     (auto simp: drained_inv_def dest!: rewrite_body split: if_splits)

lemma drained_first:
  "next_hop w f s s' \<Longrightarrow> body_is_streamed f \<Longrightarrow> hop_bytes s = None \<Longrightarrow> drained_inv s'"
  by (induction rule: next_hop.induct)
     (auto simp: drained_inv_def rewrites_to_get_def dest!: rewrite_body split: if_splits)

lemma send_streamed:
  assumes "send w ck q = (r, e')" "req_body q = StreamBody t"
  shows "sents (eng_log e') = [] \<or>
    (\<exists>x xs. sents (eng_log e') = x # xs \<and> sent_method x = req_method q \<and> sent_body x = Streamed t
       \<and> (\<forall>y \<in> set xs. sent_body y = NoBody \<and> sent_method y \<in> {''GET'', ''HEAD''}))"
  using assms(1)
proof (cases rule: send_cases)
  case (ran bytes stream e r' s')
  let ?f = "fixed_of q stream" and ?s = "first_state q bytes stream"
  have b: "bytes = None" "stream = Some t" using ran(1) assms(2) by (auto elim: request_payload_cases)
  obtain v s1 e1 where turn: "hop_turn w ?f ?s e = (v, s1, e1)" by (cases "hop_turn w ?f ?s e") auto
  from hop_turn_sents [OF turn] ran(2) b obtain xs where xs: "sents (eng_log e1) = xs" "length xs \<le> 1"
    "\<And>x. x \<in> set xs \<Longrightarrow> request_of ?f ?s x" "(\<forall>err. v \<noteq> Fail err) \<longrightarrow> xs \<noteq> []"
    by (auto simp: first_state_def)
  have head: "xs = [] \<or> (\<exists>x. xs = [x] \<and> sent_method x = req_method q \<and> sent_body x = Streamed t)"
    using xs(2,3) b by (cases xs) (auto simp: request_of_def first_state_def wire_payload_def)
  show ?thesis
  proof (cases v)
    case (Continue s2)
    have rest: "redirects w ?f s2 e1 = (r', s', e')"
      using ran(5) by (simp add: redirects.simps [of w ?f ?s e] turn Continue)
    have "drained_inv s2"
      using hop_turn_next [OF turn [unfolded Continue]] b
      by (auto intro!: drained_first simp: fixed_of_def first_state_def)
    with redirects_run [OF rest, of drained_inv] drained_next
    obtain ys where ys: "sents (eng_log e') = xs @ ys"
      "\<forall>y \<in> set ys. \<exists>s. drained_inv s \<and> request_of ?f s y" using xs(1) by blast
    have "xs \<noteq> []" using xs(4) Continue by simp
    moreover have "\<forall>y \<in> set ys. sent_body y = NoBody \<and> sent_method y \<in> {''GET'', ''HEAD''}"
    proof
      fix y assume "y \<in> set ys"
      with ys(2) obtain s where "drained_inv s" "request_of ?f s y" by blast
      then show "sent_body y = NoBody \<and> sent_method y \<in> {''GET'', ''HEAD''}"
        by (simp add: drained_inv_def request_of_def wire_payload_def)
    qed
    ultimately show ?thesis using ys(1) head by auto
  qed (use ran(5) turn xs head in \<open>auto simp: redirects.simps [of w ?f ?s e]\<close>)
qed simp

text \<open>\<open>credentials: omit\<close>: no cookie leaves and the engine's own jar stays as it is.\<close>

lemma send_omit_no_cookie:
  assumes "send w ck q = (r, e')" "req_credentials q = Omit" "x \<in> set (sents (eng_log e'))"
  shows "\<not> contains ''cookie'' (sent_headers x)"
proof -
  have "\<exists>bytes stream s. request_payload (req_body q) = Inr (bytes, stream) \<and> True
      \<and> request_of (fixed_of q stream) s x"
    by (rule send_run [OF assms(1) _ assms(3), of "\<lambda>_ _ _. True"]) simp
  then show ?thesis using assms(2) by (auto simp: request_of_def fixed_of_def)
qed

lemma hop_turn_omit_jar:
  assumes "hop_turn w f s e = (v, s', e')" "req_credentials (fix_request f) = Omit"
    and "eng_cookies e = OwnJar j"
  shows "eng_cookies e' = OwnJar j"
  using assms(1)
proof (cases rule: hop_turn_cases)
  case (guarded err)
  with assms(3) guard_hop_rest show ?thesis by metis
next
  case (no_headers err e1 ck)
  with assms(2,3) guard_hop_rest [OF no_headers(1)] show ?thesis by (auto simp: hop_headers_def)
next
  case (sent e1 hop ck r trace)
  with assms(2,3) guard_hop_rest [OF sent(1)] have "ck = OwnJar j" by (auto simp: hop_headers_def)
  with sent(6) assms(2) show ?thesis by (auto simp: store_set_cookies_def Let_def split: sum.splits)
qed

lemma redirects_omit_jar:
  assumes "redirects w f s e = (r, s', e')" "req_credentials (fix_request f) = Omit"
    and "eng_cookies e = OwnJar j"
  shows "eng_cookies e' = OwnJar j"
  using assms
proof (induction w f s e arbitrary: r s' e' rule: redirects.induct)
  case (1 w f s e)
  obtain v s1 e1 where turn: "hop_turn w f s e = (v, s1, e1)" by (cases "hop_turn w f s e") auto
  have own: "eng_cookies e1 = OwnJar j" by (rule hop_turn_omit_jar [OF turn "1.prems"(2,3)])
  show ?case
  proof (cases v)
    case (Continue s2)
    with "1.prems"(1) turn have "redirects w f s2 e1 = (r, s', e')"
      by (simp add: redirects.simps [of w f s e])
    with "1.IH" [OF turn [symmetric] Continue refl] "1.prems"(2) own show ?thesis by blast
  qed (use "1.prems"(1) turn own in \<open>auto simp: redirects.simps [of w f s e]\<close>)
qed

lemma send_omit_jar:
  assumes "send w (OwnJar j) q = (r, e')" "req_credentials q = Omit"
  shows "eng_cookies e' = OwnJar j"
  using assms(1)
proof (cases rule: send_cases)
  case (ran bytes stream e r' s')
  with assms(2) show ?thesis by (auto intro: redirects_omit_jar simp: fixed_of_def)
qed simp

text \<open>The response: the reply to the last request sent.\<close>

definition moved_inv :: "fetch_request \<Rightarrow> nat \<Rightarrow> hop_state \<Rightarrow> bool" where
  "moved_inv q budget s =
     (unat (hops_followed s) + (case remaining s of None \<Rightarrow> 0 | Some b \<Rightarrow> unat b) = budget
      \<and> (remaining s = None \<longleftrightarrow> follow_budget (req_redirect q) (max_redirects q) = None)
      \<and> (hops_followed s = 0 \<longrightarrow> hop_url s = req_url q))"

lemma moved_next:
  assumes "next_hop w f s s'" "moved_inv q budget s" "budget < 2 ^ 32"
  shows "moved_inv q budget s'"
  using assms
proof (induction rule: next_hop.induct)
  case (followed s b st nxt m bs hs s')
  have b: "unat b = Suc (unat (b - 1))" using followed by (simp add: unat_minus_one unat_gt_0)
  with followed have "unat (hops_followed s) + 1 < 2 ^ 32" by (simp add: moved_inv_def)
  then have up: "unat (hops_followed s + 1) = unat (hops_followed s) + 1"
    by (simp add: unat_word_ariths)
  then have "hops_followed s + 1 \<noteq> 0" by (metis add_is_0 one_neq_zero unat_0)
  with up b followed show ?case by (simp add: moved_inv_def)
qed (simp add: moved_inv_def)

lemma redirects_result:
  assumes "redirects w f s e = (Inr r, s', e')" "moved_inv q budget s" "budget < 2 ^ 32"
  shows "moved_inv q budget s' \<and> (\<exists>hop. after_response w f s' hop r = Break r)
    \<and> sents (eng_log e') \<noteq> [] \<and> sent_url (last (sents (eng_log e'))) = hop_url s'
    \<and> w_reply w (length (eng_log e') - 1) (last (sents (eng_log e'))) = Answered r"
  using assms
proof (induction w f s e arbitrary: r s' e' rule: redirects.induct)
  case (1 w f s e)
  obtain v s1 e1 where turn: "hop_turn w f s e = (v, s1, e1)" by (cases "hop_turn w f s e") auto
  show ?case
  proof (cases v)
    case (Continue s2)
    with "1.prems"(1) turn have "redirects w f s2 e1 = (Inr r, s', e')"
      by (simp add: redirects.simps [of w f s e])
    with "1.IH" [OF turn [symmetric] Continue refl] "1.prems"(2,3)
      moved_next [OF hop_turn_next [OF turn [unfolded Continue]]] show ?thesis by blast
  next
    case (Break r2)
    with "1.prems"(1) turn have done_: "r2 = r" "s1 = s'" "e1 = e'"
      by (simp_all add: redirects.simps [of w f s e])
    from turn show ?thesis
    proof (cases rule: hop_turn_cases)
      case (sent e2 hop ck r3 trace)
      obtain resp where resp: "r3 = Inr resp" "after_response w f s1 hop resp = Break r"
        using sent(5) Break done_(1) by (cases r3) auto
      then have same: "resp = r"
        by (auto simp: after_response_def Let_def split: if_splits option.splits sum.splits prod.splits)
      from send_hop_trace [OF sent(3)] obtain evs where evs: "trace = eng_log e2 @ evs" "sents evs \<noteq> []"
        "w_reply w (length trace - 1) (last (sents evs)) = Answered r"
        "\<And>x. x \<in> set (sents evs) \<Longrightarrow> sent_url x = hop_url s"
        unfolding resp(1) same by fastforce
      then show ?thesis
        using sent(4,6) done_ resp same "1.prems"(2) last_in_set [OF evs(2)]
        by (auto simp: moved_inv_def)
    qed (use Break in auto)
  next
    case (Fail err)
    with "1.prems"(1) turn show ?thesis by (simp add: redirects.simps [of w f s e])
  qed
qed

lemma send_result:
  assumes "send w ck q = (Inr resp, e')"
  shows "\<exists>x r. sents (eng_log e') \<noteq> [] \<and> x = last (sents (eng_log e'))
    \<and> w_reply w (length (eng_log e') - 1) x = Answered r
    \<and> status resp = resp_status r \<and> body_of resp = resp_body r \<and> final_url resp = url_text (sent_url x)
    \<and> (\<not> redirected resp \<longrightarrow> sent_url x = req_url q)
    \<and> (redirect_status (status resp) \<and> follow_budget (req_redirect q) (max_redirects q) \<noteq> None
         \<longrightarrow> header_text ''location'' r = None)"
  using assms(1)
proof (cases rule: send_cases)
  case (ran bytes stream e r' s')
  obtain r where r: "r' = Inr r" "resp = into_response w r (hop_url s') (req_redirect q) (hops_followed s')"
    using ran(6) by (auto split: sum.splits if_splits)
  let ?b = "case follow_budget (req_redirect q) (max_redirects q) of None \<Rightarrow> 0 | Some n \<Rightarrow> unat n"
  have bound: "?b < 2 ^ 32" using unsigned_less [where 'b = 32 and 'a = nat]
    by (auto split: option.splits)
  have "moved_inv q ?b (first_state q bytes stream)"
    by (auto simp: moved_inv_def first_state_def)
  from redirects_result [OF ran(5) [unfolded r(1)] this bound]
  obtain hop where res: "moved_inv q ?b s'" "after_response w (fixed_of q stream) s' hop r = Break r"
    "sents (eng_log e') \<noteq> []" "sent_url (last (sents (eng_log e'))) = hop_url s'"
    "w_reply w (length (eng_log e') - 1) (last (sents (eng_log e'))) = Answered r" by blast
  have "redirect_status (resp_status r) \<and> remaining s' \<noteq> None \<longrightarrow> header_text ''location'' r = None"
    using res(2) by (auto simp: after_response_def redirect_target_def Let_def
        split: if_splits option.splits sum.splits prod.splits)
  with res r(2) show ?thesis
    by (auto simp: into_response_def Let_def moved_inv_def word_gt_0)
qed simp

end
