(* ===== verification/Fetch_Runs.thy ===== *)
theory Fetch_Runs
  imports Fetch_Engine
begin

text \<open>
  The properties of the send engine of \<open>crates/ferrijs-fetch/src/engine.rs\<close>, over the log of
  whole runs of \<open>send\<close>, and a run that shows their hypotheses hold: a POST with credentials is
  reset once, sent again, redirected with a 303 to another origin and answered there.
\<close>

subsection \<open>A run\<close>

definition demo_url :: "string \<Rightarrow> url" where
  "demo_url h = \<lparr>url_text = h, url_scheme = ''https'', url_host = Some h, url_port = Some 443,
     url_path = ''/'', url_origin = Some (''https'', h, Some 443)\<rparr>"

definition demo_world :: "unit world" where
  "demo_world =
     \<lparr>w_reply = (\<lambda>n x. if n = 0 then Failed [(True, ''reset'')]
          else if url_text (sent_url x) = ''x.io''
               then Answered \<lparr>resp_status = 303, resp_headers = [(''location'', ''y.io'')], resp_body = []\<rparr>
               else Answered \<lparr>resp_status = 200, resp_headers = [], resp_body = ''done''\<rparr>),
      w_time_left = (\<lambda>_. 1), w_now = (\<lambda>_. Fin 0), w_http_date = (\<lambda>_. None),
      w_parse_url = (\<lambda>s. Some (demo_url s)), w_join = (\<lambda>_ s. Some (demo_url s)),
      w_reason = (\<lambda>_. None), w_client = None, w_bridge_read = (\<lambda>_. Inr []),
      w_bridge_add = (\<lambda>_ b. (Inr (), b))\<rparr>"

definition demo_request :: "body \<Rightarrow> fetch_request" where
  "demo_request b =
     \<lparr>req_method = ''POST'', req_url = demo_url ''x.io'',
      req_headers = [(''authorization'', ''t''), (''cookie'', ''c=1'')], req_body = b,
      req_redirect = Follow, req_credentials = Omit, max_redirects = Some 5, max_retries = 1,
      net_guard_of = Some \<lparr>guard_policy = None, block_metadata = True, block_private = False\<rparr>,
      challenge = None\<rparr>"

lemma demo_hosts: "parse_ip ''x.io'' = None" "parse_ip ''y.io'' = None"
  by (rule parse_ip_no_address; simp add: hex_value_def)+


lemma demo_send_hop:
  "send_hop demo_world m (demo_url ''x.io'') hs b None 1 t 0 []
     = (Inr \<lparr>resp_status = 303, resp_headers = [(''location'', ''y.io'')], resp_body = []\<rparr>,
        [Sent \<lparr>sent_method = m, sent_url = demo_url ''x.io'', sent_headers = hs, sent_body = wire_payload None b\<rparr>,
         Slept 250,
         Sent \<lparr>sent_method = m, sent_url = demo_url ''x.io'', sent_headers = hs, sent_body = wire_payload None b\<rparr>])"
  "n \<noteq> [] \<Longrightarrow> send_hop demo_world m (demo_url ''y.io'') hs b None 1 t 0 n
     = (Inr \<lparr>resp_status = 200, resp_headers = [], resp_body = ''done''\<rparr>,
        n @ [Sent \<lparr>sent_method = m, sent_url = demo_url ''y.io'', sent_headers = hs, sent_body = wire_payload None b\<rparr>])"
  by (simp_all add: send_hop.simps demo_world_def demo_url_def retry_backoff_def sat_u64_def)


definition demo_sent :: "string \<Rightarrow> string \<Rightarrow> headers \<Rightarrow> payload \<Rightarrow> sent" where
  "demo_sent m h hs b = \<lparr>sent_method = m, sent_url = demo_url h, sent_headers = hs, sent_body = b\<rparr>"

lemma demo_omit: "hop_headers demo_world now ck Omit hs u keep = (Inr (remove_header ''cookie'' hs), ck)"
  by (simp add: hop_headers_def)

lemma demo_guard: "h \<in> {''x.io'', ''y.io''} \<Longrightarrow>
  check_url (demo_url h) \<lparr>guard_policy = None, block_metadata = True, block_private = False\<rparr>
    = (Inr (), \<lparr>guard_policy = None, block_metadata = True, block_private = False\<rparr>)"
  by (auto simp: check_url_def demo_url_def blocked_literal_def demo_hosts)

lemma demo_headers:
  "remove_header ''cookie'' [(''authorization'', ''t''), (''cookie'', ''c=1'')] = [(''authorization'', ''t'')]"
  "remove_header ''cookie'' [] = []"
  by (simp_all add: remove_header_def eq_ignore_ascii_case_def eval_simps)

lemma demo_rewrite: "rewrite_for_redirect 303 (demo_url ''x.io'') (demo_url ''y.io'')
    (''POST'', b, [(''authorization'', ''t''), (''cookie'', ''c=1'')]) = (''GET'', None, [])"
  by (simp add: rewrite_for_redirect_def rewrites_to_get_def body_headers_def remove_header_def
      eq_ignore_ascii_case_def same_origin_def demo_url_def eval_simps)

lemma demo_target: "redirect_target demo_world u \<lparr>resp_status = 303, resp_headers = [(''location'', ''y.io'')], resp_body = []\<rparr>
  = Inr (Some (demo_url ''y.io''))"
  by (simp add: redirect_target_def header_text_def header_values_def get_all_def header_to_str_def demo_world_def)


lemma demo_fields:
  "req_method (demo_request b) = ''POST''" "req_url (demo_request b) = demo_url ''x.io''"
  "req_headers (demo_request b) = [(''authorization'', ''t''), (''cookie'', ''c=1'')]"
  "req_body (demo_request b) = b" "req_redirect (demo_request b) = Follow"
  "req_credentials (demo_request b) = Omit" "max_redirects (demo_request b) = Some 5"
  "max_retries (demo_request b) = 1" "challenge (demo_request b) = None"
  "active_guard (demo_request b) = Some \<lparr>guard_policy = None, block_metadata = True, block_private = False\<rparr>"
  "w_client demo_world = None" "w_parse_url demo_world s = Some (demo_url s)" "url_text (demo_url s) = s"
  by (simp_all add: demo_request_def demo_world_def demo_url_def active_guard_def guard_is_active_def)

lemmas demo_turn = hop_turn_def guard_hop_def demo_guard demo_omit demo_headers demo_send_hop
  after_response_def redirect_status_def demo_target demo_rewrite store_set_cookies_def


lemma demo_run_response:
  "sents (eng_log (snd (send demo_world (OwnJar []) (demo_request (BytesBody ''x'')))))
     = [demo_sent ''POST'' ''x.io'' [(''authorization'', ''t'')] (Buffered ''x''),
        demo_sent ''POST'' ''x.io'' [(''authorization'', ''t'')] (Buffered ''x''),
        demo_sent ''GET'' ''y.io'' [] NoBody]"
  "\<exists>resp. fst (send demo_world (OwnJar []) (demo_request (BytesBody ''x''))) = Inr resp"
proof -
  let ?q = "demo_request (BytesBody ''x'')"
  let ?e = "\<lparr>eng_cookies = OwnJar [], eng_guard = active_guard ?q, eng_log = []\<rparr> :: unit engine"
  let ?s = "first_state ?q (Some ''x'') None"
  have pre: "send_preflight demo_world ?q ?e = (None, ?e)"
    by (simp add: send_preflight_def preflight_def demo_fields demo_guard)
  have "\<exists>s e. redirects demo_world (fixed_of ?q None) ?s ?e
      = (Inr \<lparr>resp_status = 200, resp_headers = [], resp_body = ''done''\<rparr>, s, e)
    \<and> sents (eng_log e) = [demo_sent ''POST'' ''x.io'' [(''authorization'', ''t'')] (Buffered ''x''),
        demo_sent ''POST'' ''x.io'' [(''authorization'', ''t'')] (Buffered ''x''),
        demo_sent ''GET'' ''y.io'' [] NoBody]"
    by (subst redirects_Continue,
        simp add: first_state_def fixed_of_def demo_fields demo_turn follow_budget_def,
        subst redirects_Break,
        simp add: first_state_def fixed_of_def demo_fields demo_turn follow_budget_def challenge_answer_def,
        simp add: demo_sent_def wire_payload_def)
  then obtain s e where run: "redirects demo_world (fixed_of ?q None) ?s ?e
      = (Inr \<lparr>resp_status = 200, resp_headers = [], resp_body = ''done''\<rparr>, s, e)"
    "sents (eng_log e) = [demo_sent ''POST'' ''x.io'' [(''authorization'', ''t'')] (Buffered ''x''),
        demo_sent ''POST'' ''x.io'' [(''authorization'', ''t'')] (Buffered ''x''),
        demo_sent ''GET'' ''y.io'' [] NoBody]" by blast
  show "sents (eng_log (snd (send demo_world (OwnJar []) ?q)))
     = [demo_sent ''POST'' ''x.io'' [(''authorization'', ''t'')] (Buffered ''x''),
        demo_sent ''POST'' ''x.io'' [(''authorization'', ''t'')] (Buffered ''x''),
        demo_sent ''GET'' ''y.io'' [] NoBody]"
    "\<exists>resp. fst (send demo_world (OwnJar []) ?q) = Inr resp"
    by (simp_all add: send_def request_payload_def demo_fields(4,5,11) pre run)
qed

lemmas demo_run = demo_run_response(1)
lemmas demo_response = demo_run_response(2)

subsection \<open>Properties\<close>

text \<open>C2 (the guard on every hop): each request that goes over the wire, on the first hop, on a
  retry or after any redirect, is to a URL the request's active guard admits.\<close>

theorem every_hop_admitted:
  assumes "active_guard q = Some g" "x \<in> set (sents (eng_log (snd (send w ck q))))"
  shows "admits g (sent_url x)"
  using send_guarded [of w ck q "fst (send w ck q)" "snd (send w ck q)"] assms by simp

theorem every_hop_admitted_witness:
  "admits \<lparr>guard_policy = None, block_metadata = True, block_private = False\<rparr> (demo_url ''y.io'')"
  using every_hop_admitted [OF demo_fields(10),
      of "demo_sent ''GET'' ''y.io'' [] NoBody" demo_world "OwnJar []" "BytesBody ''x''"]
  by (simp add: demo_run) (simp add: demo_sent_def)

text \<open>C3 (credentials and origins): an \<open>Authorization\<close> value on the wire is the caller's and goes to
  the request's own URL or its origin, or it is the answer given for a URL and goes to that URL or
  its origin; no redirect carries credentials to another origin.\<close>

theorem authorization_stays_with_origin:
  assumes "x \<in> set (sents (eng_log (snd (send w ck q))))"
  shows "let a = get_all ''authorization'' (sent_headers x); u = sent_url x
    in a = []
       \<or> (a = get_all ''authorization'' (req_headers q) \<and> (u = req_url q \<or> same_origin u (req_url q)))
       \<or> (\<exists>answer v value. challenge q = Some answer \<and> answer v = Some value \<and> a = [value]
            \<and> (u = v \<or> same_origin u v))"
  using send_entitled [of w ck q "fst (send w ck q)" "snd (send w ck q)" x] assms
  by (simp add: entitled_def Let_def)

theorem authorization_stays_with_origin_witness:
  "get_all ''authorization'' (sent_headers (demo_sent ''GET'' ''y.io'' [] NoBody)) = []"
  using authorization_stays_with_origin [of "demo_sent ''GET'' ''y.io'' [] NoBody" demo_world
      "OwnJar []" "demo_request (BytesBody ''x'')"]
  by (simp add: demo_run) (auto simp: demo_sent_def)

text \<open>C25 (bounded work): however the servers answer, a request is sent at most
  \<open>(2 * budget + 2) * (max_retries + 1)\<close> times: each redirect allowed leads to one hop and at most
  one answered challenge, and each hop is tried at most \<open>max_retries\<close> times more.\<close>

theorem sends_bounded:
  "length (sents (eng_log (snd (send w ck q)))) \<le> (2 * budget_of q + 2) * (unat (max_retries q) + 1)"
  using send_bounded [of w ck q "fst (send w ck q)" "snd (send w ck q)"] by simp

text \<open>C24 (streamed bodies): a streaming body goes out in the first request only; whatever follows has
  no body and is a GET or a HEAD, so no hop repeats the method with an empty payload.\<close>

theorem streamed_body_sent_once:
  assumes "req_body q = StreamBody t"
  shows "case sents (eng_log (snd (send w ck q))) of
      [] \<Rightarrow> True
    | x # xs \<Rightarrow> sent_method x = req_method q \<and> sent_body x = Streamed t
        \<and> list_all (\<lambda>y. sent_body y = NoBody \<and> sent_method y \<in> {''GET'', ''HEAD''}) xs"
  using send_streamed [of w ck q "fst (send w ck q)" "snd (send w ck q)" t] assms
  by (auto simp: list_all_iff)

theorem streamed_body_sent_once_witness:
  "case sents (eng_log (snd (send demo_world (OwnJar []) (demo_request (StreamBody ''s''))))) of
      [] \<Rightarrow> True
    | x # xs \<Rightarrow> sent_method x = ''POST'' \<and> sent_body x = Streamed ''s''
        \<and> list_all (\<lambda>y. sent_body y = NoBody \<and> sent_method y \<in> {''GET'', ''HEAD''}) xs"
  using streamed_body_sent_once [of "demo_request (StreamBody ''s'')" "''s''" demo_world "OwnJar []"]
  by (simp only: demo_fields)

text \<open>A request whose body is in memory is sent with its own method and body,
  or, after a redirect has rewritten it, as a GET without one; the two never mix.\<close>

theorem buffered_body_or_plain_get:
  assumes "\<And>t. req_body q \<noteq> StreamBody t" "x \<in> set (sents (eng_log (snd (send w ck q))))"
  shows "sent_method x = req_method q
       \<and> sent_body x = (case req_body q of BytesBody b \<Rightarrow> Buffered b | _ \<Rightarrow> NoBody)
     \<or> sent_method x = ''GET'' \<and> sent_body x = NoBody"
  using send_buffered [of w ck q "fst (send w ck q)" "snd (send w ck q)" x] assms by simp

theorem buffered_body_or_plain_get_witness:
  "sent_body (demo_sent ''POST'' ''x.io'' [(''authorization'', ''t'')] (Buffered ''x'')) = Buffered ''x''"
  using buffered_body_or_plain_get [of "demo_request (BytesBody ''x'')"
      "demo_sent ''POST'' ''x.io'' [(''authorization'', ''t'')] (Buffered ''x'')" demo_world "OwnJar []"]
  by (simp add: demo_run demo_fields) (simp add: demo_sent_def)

text \<open>C26 (omitted credentials): with \<open>credentials: omit\<close> no request carries a \<open>Cookie\<close> header, not
  even the caller's own, and the pool's jar ends as it was.\<close>

theorem omitted_credentials_no_cookies:
  assumes "req_credentials q = Omit"
  shows "list_all (\<lambda>x. \<not> contains ''cookie'' (sent_headers x)) (sents (eng_log (snd (send w ck q))))
    \<and> eng_cookies (snd (send w (OwnJar j) q)) = OwnJar j"
  using send_omit_no_cookie [of w ck q "fst (send w ck q)" "snd (send w ck q)"]
    send_omit_jar [of w j q "fst (send w (OwnJar j) q)" "snd (send w (OwnJar j) q)"] assms
  by (auto simp: list_all_iff)

theorem omitted_credentials_no_cookies_witness:
  "eng_cookies (snd (send demo_world (OwnJar []) (demo_request (BytesBody ''x'')))) = OwnJar []"
  using omitted_credentials_no_cookies [of "demo_request (BytesBody ''x'')" demo_world NoCookies "[]"]
  by (simp add: demo_fields)

text \<open>C23 (the response): a response handed back is the transport's answer to the last request sent,
  under that request's URL; one not marked as redirected is from the URL asked for; and when
  redirects are to be followed, one that still is a redirect names no location.\<close>

theorem response_answers_last_request:
  assumes "fst (send w ck q) = Inr resp"
  shows "\<exists>r. let e = snd (send w ck q); x = last (sents (eng_log e)) in
    sents (eng_log e) \<noteq> [] \<and> w_reply w (length (eng_log e) - 1) x = Answered r
    \<and> status resp = resp_status r \<and> body_of resp = resp_body r \<and> final_url resp = url_text (sent_url x)
    \<and> (redirected resp \<or> sent_url x = req_url q)
    \<and> (\<not> redirect_status (status resp)
       \<or> follow_budget (req_redirect q) (max_redirects q) = None \<or> header_text ''location'' r = None)"
  using send_result [of w ck q resp "snd (send w ck q)"] assms
  by (auto simp: Let_def prod_eq_iff)

theorem response_answers_last_request_witness:
  "\<exists>resp. fst (send demo_world (OwnJar []) (demo_request (BytesBody ''x''))) = Inr resp
     \<and> final_url resp = ''y.io''"
proof -
  from demo_response obtain resp where
    resp: "fst (send demo_world (OwnJar []) (demo_request (BytesBody ''x''))) = Inr resp" by blast
  have "final_url resp = ''y.io''"
    using response_answers_last_request [OF resp]
    by (simp add: Let_def demo_run) (auto simp: demo_sent_def demo_fields)
  with resp show ?thesis by blast
qed

text \<open>
  With \<open>redirect: error\<close> every 3xx status is refused, a 304 among them, which is no redirect and
  which the loop itself does not treat as one.
\<close>

lemma not_modified_refused:
  "\<not> redirect_status 304 \<and> is_redirection 304
   \<and> type_of (into_response w \<lparr>resp_status = 304, resp_headers = [], resp_body = []\<rparr> u Manual 0)
       = OpaqueRedirect"
  by (simp add: redirect_status_def is_redirection_def into_response_def)

end
