(* ===== verification/File_Handle.thy ===== *)
theory File_Handle
  imports Fs_Runs
begin

text \<open>
  Open files, \<open>crates/ferrijs-std/src/fs/file_handle.rs\<close>. The open file is the parameter \<open>file_api\<close>: the
  calls of tokio's \<open>File\<close> on a state of the world, and \<open>chown\<close> of a path. An \<open>ArrayBufferView\<close> is the
  bytes it had when it was passed, \<open>None\<close> when it was detached then: the view takes its pointer and its
  length when it is made, and \<open>as_bytes_mut\<close> gives what it took (\<open>buffer/array_buffer_view.rs\<close>), so a
  buffer detached later is not noticed. \<open>usize\<close> is 64 bits and wraps, as in release builds.
\<close>

subsection \<open>Files, handles, results\<close>

type_synonym usize = "64 word"

type_synonym ('w, 'a) file_call = "'w \<Rightarrow> (io_error + 'a) \<times> 'w"

record 'w file_api =
  stream_position :: "('w, usize) file_call"
  seek_start :: "usize \<Rightarrow> ('w, usize) file_call"
  read_some :: "nat \<Rightarrow> ('w, string) file_call"
  read_to_end :: "('w, string) file_call"
  write_all :: "string \<Rightarrow> ('w, unit) file_call"
  set_len :: "usize \<Rightarrow> ('w, unit) file_call"
  file_metadata :: "('w, metadata \<times> usize) file_call"
  sync_data :: "('w, unit) file_call"
  sync_all :: "('w, unit) file_call"
  set_permissions :: "u32 \<Rightarrow> ('w, unit) file_call"
  raw_fd :: int
  chown_path :: "string \<Rightarrow> u32 \<Rightarrow> u32 \<Rightarrow> ('w, unit) file_call"
  reserve_error :: "usize \<Rightarrow> string option"

record 'w handle =
  world :: 'w
  is_open :: bool
  path_of :: string
  append_mode :: bool

datatype handle_error = Thrown js_error | Range_Thrown string | Panicked

type_synonym ('w, 'a) handle_act = "'w handle \<Rightarrow> (handle_error + 'a) \<times> 'w handle"

definition give :: "'a \<Rightarrow> ('w, 'a) handle_act" where
  "give x h = (Inr x, h)"

definition refuse :: "handle_error \<Rightarrow> ('w, 'a) handle_act" where
  "refuse e h = (Inl e, h)"

definition next_do :: "('w, 'a) handle_act \<Rightarrow> ('a \<Rightarrow> ('w, 'b) handle_act) \<Rightarrow> ('w, 'b) handle_act" where
  "next_do m k h = (case m h of (Inl e, h) \<Rightarrow> (Inl e, h) | (Inr x, h) \<Rightarrow> k x h)"

definition opened_file :: "('w, unit) handle_act" where
  "opened_file h = ((if is_open h then Inr () else Inl (Thrown (Message_Thrown ''FileHandle is closed''))), h)"

definition call_file :: "string \<Rightarrow> ('w, 'a) file_call \<Rightarrow> ('w, 'a) handle_act" where
  "call_file msg f h =
     (case f (world h) of
        (Inl e, w) \<Rightarrow> (Inl (Thrown (or_throw_msg msg e)), h\<lparr>world := w\<rparr>)
      | (Inr x, w) \<Rightarrow> (Inr x, h\<lparr>world := w\<rparr>))"

definition on_file :: "string \<Rightarrow> ('w, 'a) file_call \<Rightarrow> ('w, 'a) handle_act" where
  "on_file msg f = next_do opened_file (\<lambda>_. call_file msg f)"

definition cannot :: "string \<Rightarrow> string" where
  "cannot what = ''Can'' @ [CHR 0x27] @ ''t '' @ what"

definition new_handle :: "'w \<Rightarrow> file_handle \<Rightarrow> 'w handle" where
  "new_handle w f = \<lparr>world = w, is_open = True, path_of = handle_path f, append_mode = handle_append f\<rparr>"

subsection \<open>The simple operations\<close>

definition handle_chmod :: "'w file_api \<Rightarrow> u32 \<Rightarrow> ('w, unit) handle_act" where
  "handle_chmod api mode = on_file (cannot ''modify file permissions'') (set_permissions api mode)"

definition handle_chown :: "'w file_api \<Rightarrow> u32 \<Rightarrow> u32 \<Rightarrow> ('w, unit) handle_act" where
  "handle_chown api uid gid h = call_file (cannot ''modify file owner'') (chown_path api (path_of h) uid gid) h"

definition handle_close :: "'w handle \<Rightarrow> 'w handle" where
  "handle_close h = h\<lparr>is_open := False\<rparr>"

definition handle_datasync :: "'w file_api \<Rightarrow> ('w, unit) handle_act" where
  "handle_datasync api = on_file (cannot ''sync file data'') (sync_data api)"

definition handle_fd :: "'w file_api \<Rightarrow> ('w, int) handle_act" where
  "handle_fd api = next_do opened_file (\<lambda>_. give (raw_fd api))"

definition handle_stat :: "'w file_api \<Rightarrow> ('w, metadata) handle_act" where
  "handle_stat api = next_do (on_file (cannot ''stat file'') (file_metadata api)) (\<lambda>(md, _). give md)"

definition handle_sync :: "'w file_api \<Rightarrow> ('w, unit) handle_act" where
  "handle_sync api = on_file (cannot ''sync file'') (sync_all api)"

definition handle_truncate :: "'w file_api \<Rightarrow> usize option \<Rightarrow> ('w, unit) handle_act" where
  "handle_truncate api len = on_file (cannot ''truncate file'') (set_len api (unwrap_or 0 len))"

definition handle_read_file :: "'w file_api \<Rightarrow> simd \<Rightarrow> read_options option \<Rightarrow> ('w, read_value) handle_act" where
  "handle_read_file api sd options =
     next_do opened_file (\<lambda>_ h.
       (let (md, w) = file_metadata api (world h);
            h = h\<lparr>world := w\<rparr>
        in case reserve_error api (case md of Inl _ \<Rightarrow> 0 | Inr (_, len) \<Rightarrow> len) of
             Some e \<Rightarrow> refuse (Thrown (Message_Thrown (''Out of memory. '' @ e))) h
           | None \<Rightarrow>
               next_do (call_file ''Failed to read file'' (read_to_end api)) (\<lambda>bytes.
                 (case handle_read_file_bytes sd options bytes of
                    Inl e \<Rightarrow> refuse (Thrown e)
                  | Inr v \<Rightarrow> give v)) h))"

subsection \<open>Positions\<close>

definition validate_length_offset :: "usize \<Rightarrow> usize \<Rightarrow> usize \<Rightarrow> ('w, unit) handle_act" where
  "validate_length_offset len offset buffer_length =
     (if buffer_length < offset
      then refuse (Range_Thrown (''offset ('' @ show_nat (unat offset) @ '') <= '' @ show_nat (unat buffer_length)))
      else if buffer_length - offset < len
      then refuse (Range_Thrown (''length ('' @ show_nat (unat len) @ '') <= '' @ show_nat (unat (buffer_length - offset))))
      else give ())"

text \<open>
  tokio has no positional reads and writes: the code seeks, works and seeks back. If seeking back
  fails the handle is closed.
\<close>

definition seek_to :: "'w file_api \<Rightarrow> usize option \<Rightarrow> ('w, usize option) handle_act" where
  "seek_to api pos =
     (case pos of
        None \<Rightarrow> give None
      | Some p \<Rightarrow>
          next_do (call_file (cannot ''get cursor'') (stream_position api)) (\<lambda>cursor.
          next_do (call_file (cannot ''seek file'') (seek_start api p)) (\<lambda>_.
          give (Some cursor))))"

definition seek_back :: "'w file_api \<Rightarrow> usize option \<Rightarrow> ('w, unit) handle_act" where
  "seek_back api cursor =
     (case cursor of
        None \<Rightarrow> give ()
      | Some p \<Rightarrow> (\<lambda>h.
          case call_file ''Failed to reset cursor'' (seek_start api p) h of
            (Inl e, h) \<Rightarrow> (Inl e, handle_close h)
          | (Inr _, h) \<Rightarrow> (Inr (), h)))"

subsection \<open>read\<close>

type_synonym view = "string option"

abbreviation view_len :: "view \<Rightarrow> usize" where
  "view_len v \<equiv> of_nat (length (unwrap_or [] v))"

record handle_read_options =
  ro_buffer :: "view option"
  ro_offset :: "usize option"
  ro_length :: "usize option"
  ro_position :: "usize option"

definition read_defaults :: handle_read_options where
  "read_defaults = \<lparr>ro_buffer = None, ro_offset = None, ro_length = None, ro_position = None\<rparr>"

definition or_else :: "'a option \<Rightarrow> 'a option \<Rightarrow> 'a option" where
  "or_else a b = (case a of None \<Rightarrow> b | Some _ \<Rightarrow> a)"

definition DEFAULT_BUFFER_SIZE :: nat where
  "DEFAULT_BUFFER_SIZE = 16384"

text \<open>\<open>copy_from_slice\<close> panics when the lengths differ, an index out of range panics.\<close>

definition copy_to :: "usize \<Rightarrow> string \<Rightarrow> string \<Rightarrow> string option" where
  "copy_to offset buf dst =
     (if unat offset \<le> length dst \<and> length dst - unat offset = length buf
      then Some (List.take (unat offset) dst @ buf) else None)"

text \<open>
  \<open>meanwhile\<close> is what the script has in the buffer when the file was read: it runs while the call
  waits. The result is the number of bytes read and the buffer.
\<close>

definition handle_read ::
  "'w file_api \<Rightarrow> (view + handle_read_options) option \<Rightarrow> (handle_read_options + usize) option \<Rightarrow> usize option \<Rightarrow>
     usize option option \<Rightarrow> (string \<Rightarrow> string) \<Rightarrow> ('w, usize \<times> string) handle_act" where
  "handle_read api buffer_or_options options_or_offset len pos meanwhile =
     (let options_1 = (case buffer_or_options of
                         Some (Inl buffer) \<Rightarrow> read_defaults\<lparr>ro_buffer := Some buffer\<rparr>
                       | Some (Inr options) \<Rightarrow> options
                       | None \<Rightarrow> read_defaults);
          options_2 = (case options_or_offset of
                         Some (Inl options) \<Rightarrow> options
                       | Some (Inr offset) \<Rightarrow> read_defaults\<lparr>ro_offset := Some offset\<rparr>
                       | None \<Rightarrow> read_defaults);
          buffer = unwrap_or (Some (replicate DEFAULT_BUFFER_SIZE (CHR 0x00)))
                     (or_else (ro_buffer options_1) (ro_buffer options_2));
          offset = unwrap_or 0 (or_else (ro_offset options_1) (ro_offset options_2));
          len = unwrap_or (view_len buffer - offset)
                  (or_else (or_else (ro_length options_1) (ro_length options_2)) len);
          pos = or_else (or_else (ro_position options_1) (ro_position options_2)) (unwrap_or None pos)
      in next_do (validate_length_offset len offset (view_len buffer)) (\<lambda>_.
         next_do opened_file (\<lambda>_.
         next_do (seek_to api pos) (\<lambda>cursor.
         next_do (call_file ''Failed to read file'' (read_some api (unat len))) (\<lambda>got.
         next_do (seek_back api cursor) (\<lambda>_.
         (case buffer of
            None \<Rightarrow> refuse (Thrown (Message_Thrown ''Buffer is detached''))
          | Some bytes \<Rightarrow>
              (case copy_to offset (got @ replicate (unat len - length got) (CHR 0x00)) (meanwhile bytes) of
                 None \<Rightarrow> refuse Panicked
               | Some bytes \<Rightarrow> give (of_nat (length got), bytes)))))))))"

subsection \<open>write\<close>

datatype data = Bytes view | Chars string

record handle_write_options =
  wo_offset :: "usize option"
  wo_length :: "usize option"
  wo_position :: "usize option"

definition write_defaults :: handle_write_options where
  "write_defaults = \<lparr>wo_offset = None, wo_length = None, wo_position = None\<rparr>"

fun is_bytes :: "data \<Rightarrow> bool" where
  "is_bytes (Bytes _) = True"
| "is_bytes (Chars _) = False"

definition data_bytes :: "string \<Rightarrow> data \<Rightarrow> ('w, string) handle_act" where
  "data_bytes encoding d =
     (case d of
        Bytes None \<Rightarrow> refuse (Thrown (Message_Thrown ''Buffer is detached''))
      | Bytes (Some bytes) \<Rightarrow> give bytes
      | Chars s \<Rightarrow>
          (case (case from_str encoding of Inl e \<Rightarrow> Inl e | Inr enc \<Rightarrow> decode_from_string enc s) of
             Inl e \<Rightarrow> refuse (Thrown (Message_Thrown e))
           | Inr bytes \<Rightarrow> give bytes))"

text \<open>The range \<open>[a..b]\<close> of a slice; \<open>None\<close> is the panic.\<close>

definition slice :: "usize \<Rightarrow> usize \<Rightarrow> string \<Rightarrow> string option" where
  "slice a b bytes =
     (if a \<le> b \<and> unat b \<le> length bytes then Some (drop (unat a) (List.take (unat b) bytes)) else None)"

definition handle_write ::
  "'w file_api \<Rightarrow> data \<Rightarrow> (usize option + handle_write_options) option \<Rightarrow> (usize + string) option \<Rightarrow>
     usize option option \<Rightarrow> ('w, usize) handle_act" where
  "handle_write api d offset_or_options length_or_encoding pos =
     (let options = (case offset_or_options of
                       Some (Inl (Some offset)) \<Rightarrow>
                         if is_bytes d then write_defaults\<lparr>wo_offset := Some offset\<rparr> else write_defaults
                     | Some (Inr options) \<Rightarrow> options
                     | _ \<Rightarrow> write_defaults);
          options = (case length_or_encoding of
                       Some (Inl len) \<Rightarrow> options\<lparr>wo_length := Some len\<rparr>
                     | _ \<Rightarrow> options);
          encoding = (case length_or_encoding of Some (Inr e) \<Rightarrow> e | _ \<Rightarrow> ''utf8'')
      in next_do (data_bytes encoding d) (\<lambda>buffer.
         let offset = unwrap_or 0 (wo_offset options);
             len = unwrap_or (of_nat (length buffer) - offset) (wo_length options);
             pos = or_else (wo_position options) (unwrap_or None pos)
         in next_do (validate_length_offset len offset (of_nat (length buffer))) (\<lambda>_.
            next_do opened_file (\<lambda>_.
            next_do (seek_to api pos) (\<lambda>cursor.
            (case slice offset len buffer of
               None \<Rightarrow> refuse Panicked
             | Some bytes \<Rightarrow>
                 next_do (call_file ''Failed to write to file'' (write_all api bytes)) (\<lambda>_.
                 next_do (seek_back api cursor) (\<lambda>_.
                 give len))))))))"

definition handle_write_file ::
  "'w file_api \<Rightarrow> data \<Rightarrow> (string option + string) option \<Rightarrow> ('w, unit) handle_act" where
  "handle_write_file api d options_or_encoding =
     next_do opened_file (\<lambda>_ h.
       next_do (if \<not> append_mode h then call_file ''Failed to truncate file'' (set_len api 0) else give ()) (\<lambda>_.
       next_do (data_bytes (unwrap_or ''utf8'' (case options_or_encoding of
                              Some (Inl e) \<Rightarrow> e | Some (Inr e) \<Rightarrow> Some e | None \<Rightarrow> None)) d) (\<lambda>buffer.
       call_file ''Failed to write to file'' (write_all api buffer))) h)"

subsection \<open>Closed handles\<close>

lemmas handle_defs = next_do_def opened_file_def call_file_def on_file_def give_def refuse_def

theorem closed_handle_refuses:
  assumes "\<not> is_open h"
  shows "handle_chmod api mode h = (Inl (Thrown (Message_Thrown ''FileHandle is closed'')), h)"
    and "handle_datasync api h = (Inl (Thrown (Message_Thrown ''FileHandle is closed'')), h)"
    and "handle_fd api h = (Inl (Thrown (Message_Thrown ''FileHandle is closed'')), h)"
    and "handle_stat api h = (Inl (Thrown (Message_Thrown ''FileHandle is closed'')), h)"
    and "handle_sync api h = (Inl (Thrown (Message_Thrown ''FileHandle is closed'')), h)"
    and "handle_truncate api len h = (Inl (Thrown (Message_Thrown ''FileHandle is closed'')), h)"
    and "handle_read_file api sd opts h = (Inl (Thrown (Message_Thrown ''FileHandle is closed'')), h)"
    and "handle_write_file api d enc h = (Inl (Thrown (Message_Thrown ''FileHandle is closed'')), h)"
    and "\<exists>e. handle_read api b opts2 l pos meanwhile h = (Inl e, h)"
    and "\<exists>e. handle_write api d opts3 enc2 pos h = (Inl e, h)"
  using assms
  by (auto simp: handle_defs handle_chmod_def handle_datasync_def handle_fd_def handle_stat_def
      handle_sync_def handle_truncate_def handle_read_file_def handle_write_file_def handle_read_def
      handle_write_def validate_length_offset_def data_bytes_def Let_def
      split: option.splits sum.splits data.splits)

text \<open>\<open>chown\<close> goes by the path, so it works on a handle closed before.\<close>

theorem chown_ignores_close: "fst (handle_chown api uid gid (handle_close h)) = fst (handle_chown api uid gid h)"
  by (simp add: handle_chown_def call_file_def handle_close_def split: prod.split sum.split)

subsection \<open>A regular file\<close>

text \<open>
  What POSIX and tokio say of a regular file opened for reading and writing without \<open>O_APPEND\<close>, as
  long as positions are below \<open>2 ^ 63\<close>, those of \<open>off_t\<close>, and the disk is well: every call succeeds,
  reading and writing start at the cursor and move it, a gap is filled with zeros, and a read of at most
  2 MiB, tokio's buffer, gives all there is.
\<close>

definition overwrite :: "nat \<Rightarrow> string \<Rightarrow> string \<Rightarrow> string" where
  "overwrite p bytes c =
     List.take p (c @ replicate (p - length c) (CHR 0x00)) @ bytes @ drop (p + length bytes) c"

definition MAX_BUF :: nat where
  "MAX_BUF = 2 * 1024 * 1024"

definition OFF_MAX :: nat where
  "OFF_MAX = 2 ^ 63"

definition regular_file :: "'w file_api \<Rightarrow> ('w \<Rightarrow> string) \<Rightarrow> ('w \<Rightarrow> nat) \<Rightarrow> bool" where
  "regular_file api content cursor \<longleftrightarrow>
     (\<forall>w. cursor w < OFF_MAX \<longrightarrow> stream_position api w = (Inr (of_nat (cursor w)), w)) \<and>
     (\<forall>w p. unat p < OFF_MAX \<longrightarrow>
        (\<exists>w'. seek_start api p w = (Inr p, w') \<and> content w' = content w \<and> cursor w' = unat p)) \<and>
     (\<forall>w bytes. cursor w + length bytes < OFF_MAX \<longrightarrow>
        (\<exists>w'. write_all api bytes w = (Inr (), w')
           \<and> content w' = overwrite (cursor w) bytes (content w) \<and> cursor w' = cursor w + length bytes)) \<and>
     (\<forall>w n. n \<le> MAX_BUF \<longrightarrow>
        (\<exists>w'. read_some api n w = (Inr (List.take n (drop (cursor w) (content w))), w')
           \<and> content w' = content w \<and> cursor w' = cursor w + length (List.take n (drop (cursor w) (content w)))))"

lemma regular_file_calls:
  assumes "regular_file api content cursor"
  shows regular_position: "cursor w < OFF_MAX \<Longrightarrow> stream_position api w = (Inr (of_nat (cursor w)), w)"
    and regular_seek: "unat p < OFF_MAX \<Longrightarrow>
        \<exists>w'. seek_start api p w = (Inr p, w') \<and> content w' = content w \<and> cursor w' = unat p"
    and regular_write: "cursor w + length bytes < OFF_MAX \<Longrightarrow> \<exists>w'. write_all api bytes w = (Inr (), w')
        \<and> content w' = overwrite (cursor w) bytes (content w) \<and> cursor w' = cursor w + length bytes"
    and regular_read: "n \<le> MAX_BUF \<Longrightarrow>
        \<exists>w'. read_some api n w = (Inr (List.take n (drop (cursor w) (content w))), w')
           \<and> content w' = content w \<and> cursor w' = cursor w + length (List.take n (drop (cursor w) (content w)))"
  using assms by (auto simp: regular_file_def)















subsection \<open>A file in memory\<close>

type_synonym memory = "string \<times> nat"

definition io_broken :: io_error where
  "io_broken = \<lparr>raw_os_error = Some 5, already_exists = False, io_display = ''Input/output error (os error 5)''\<rparr>"

definition memory_api :: "memory file_api" where
  "memory_api = \<lparr>
     stream_position = (\<lambda>(c, p). (Inr (of_nat p), (c, p))),
     seek_start = (\<lambda>q (c, p). (Inr q, (c, unat q))),
     read_some = (\<lambda>n (c, p). (Inr (List.take n (drop p c)), (c, p + length (List.take n (drop p c))))),
     read_to_end = (\<lambda>(c, p). (Inr (drop p c), (c, length c))),
     write_all = (\<lambda>bytes (c, p). (Inr (), (overwrite p bytes c, p + length bytes))),
     set_len = (\<lambda>n (c, p). (Inr (), (List.take (unat n) c @ replicate (unat n - length c) (CHR 0x00), p))),
     file_metadata = (\<lambda>(c, p). (Inr (\<lparr>md_readonly = False, md_mode = 0x1A4, md_is_dir = False\<rparr>, of_nat (length c)), (c, p))),
     sync_data = (\<lambda>w. (Inr (), w)), sync_all = (\<lambda>w. (Inr (), w)),
     set_permissions = (\<lambda>_ w. (Inr (), w)), raw_fd = 3, chown_path = (\<lambda>_ _ _ w. (Inr (), w)),
     reserve_error = (\<lambda>_. None)\<rparr>"

definition memory_handle :: "string \<Rightarrow> nat \<Rightarrow> memory handle" where
  "memory_handle c p = \<lparr>world = (c, p), is_open = True, path_of = ''/tmp/a'', append_mode = False\<rparr>"


lemma small_facts: "replicate 2 x = [x, x]" "\<not> (3 :: usize) \<le> 1"
  by (simp add: numeral_2_eq_2) (simp add: word_le_nat_alt)

lemmas memory_eval = small_facts memory_api_def memory_handle_def overwrite_def handle_defs seek_to_def seek_back_def
  validate_length_offset_def or_else_def unwrap_or_def read_defaults_def write_defaults_def copy_to_def slice_def

subsection \<open>The property\<close>



subsection \<open>What the code does otherwise\<close>

text \<open>\<open>write\<close> takes the bytes from the offset to the \<^emph>\<open>length\<close>, not to offset plus length.\<close>

theorem write_slices_to_length:
  "handle_write memory_api (Bytes (Some ''abcd'')) (Some (Inl (Some 1))) (Some (Inl 2)) None (memory_handle [] 0)
     = (Inr 2, memory_handle ''b'' 1)"
  "fst (handle_write memory_api (Bytes (Some ''abcd'')) (Some (Inl (Some 3))) (Some (Inl 1)) None (memory_handle [] 0))
     = Inl Panicked"
  by (simp_all add: handle_write_def data_bytes_def memory_eval Let_def)

text \<open>\<open>read\<close> panics unless the length reaches the end of the buffer, and zeroes what it did not read.\<close>

theorem read_short_panics:
  "fst (handle_read memory_api (Some (Inl (Some ''....''))) (Some (Inr 0)) (Some 2) None (\<lambda>b. b) (memory_handle ''abcdef'' 0))
     = Inl Panicked"
  "fst (handle_read memory_api (Some (Inl (Some ''....''))) None None None (\<lambda>b. b) (memory_handle ''ab'' 0))
     = Inr (2, ''ab'' @ [CHR 0x00, CHR 0x00])"
  by (simp_all add: handle_read_def memory_eval Let_def)

text \<open>The position of a text, the argument after it, is dropped.\<close>

theorem text_position_ignored:
  "handle_write api (Chars t) (Some (Inl (Some p))) enc pos h = handle_write api (Chars t) None enc pos h"
  by (simp add: handle_write_def)

text \<open>\<open>writeFile\<close> empties the file before it looks at the encoding, and writes at the cursor.\<close>

lemma labels_known:
  "from_str ''utf8'' = Inr Utf8" "from_str ''klingon'' = Inl (encoding_not_supported ''klingon'')"
  by code_simp+

theorem write_file_loses_content:
  "handle_write_file memory_api (Chars ''new'') (Some (Inr ''klingon'')) (memory_handle ''old'' 0)
     = (Inl (Thrown (Message_Thrown (encoding_not_supported ''klingon''))), memory_handle [] 0)"
  "handle_write_file memory_api (Chars ''new'') None (memory_handle ''old'' 2)
     = (Inr (), memory_handle ([CHR 0x00, CHR 0x00] @ ''new'') 5)"
  by (simp_all add: handle_write_file_def data_bytes_def memory_eval labels_known)

text \<open>When the write itself fails the handle stays open, with its cursor at the position asked for.\<close>

theorem failed_write_moves_cursor:
  "handle_write (memory_api\<lparr>write_all := \<lambda>_ w. (Inl io_broken, w)\<rparr>) (Bytes (Some ''ab'')) None None (Some (Some 5))
       (memory_handle ''old'' 0)
     = (Inl (Thrown (Message_Thrown (''Failed to write to file. '' @ io_display io_broken))), memory_handle ''old'' 5)"
  by (simp add: handle_write_def data_bytes_def memory_eval Let_def or_throw_msg_def)

end
