(* ===== verification/Json_Escape.thy ===== *)
theory Json_Escape
  imports Encodings
begin

text \<open>
  \<open>crates/ferrijs-std/src/json/escape.rs\<close>: the escaping of string bodies by \<open>JSON.stringify\<close>.
  The scan looks at eight bytes at a time in one 64-bit word and visits only the bytes a mask
  marks. The state of the scan is what has been written, the position \<open>i\<close> and the \<open>start\<close> of what
  is still to be copied; a byte slice is a \<^typ>\<open>string\<close>, and its \<open>byte\<close>s are words where the code
  computes with them.
\<close>

type_synonym u64 = "64 word"

type_synonym scan = "string \<times> nat \<times> nat"

definition JSON_ESCAPE_CHARS :: "nat list" where
  "JSON_ESCAPE_CHARS =
    [0, 1, 2, 3, 4, 5, 6, 7, 8, 9, 10, 11, 12, 13, 14, 15, 16, 17, 18, 19, 20, 21, 22, 23,
     24, 25, 26, 27, 28, 29, 30, 31, 34, 34, 32, 34, 34, 34, 34, 34, 34, 34, 34, 34, 34, 34, 34, 34,
     34, 34, 34, 34, 34, 34, 34, 34, 34, 34, 34, 34, 34, 34, 34, 34, 34, 34, 34, 34, 34, 34, 34, 34,
     34, 34, 34, 34, 34, 34, 34, 34, 34, 34, 34, 34, 34, 34, 34, 34, 34, 34, 34, 34, 33, 34, 34, 34,
     34, 34, 34, 34, 34, 34, 34, 34, 34, 34, 34, 34, 34, 34, 34, 34, 34, 34, 34, 34, 34, 34, 34, 34,
     34, 34, 34, 34, 34, 34, 34, 34, 34, 34, 34, 34, 34, 34, 34, 34, 34, 34, 34, 34, 34, 34, 34, 34,
     34, 34, 34, 34, 34, 34, 34, 34, 34, 34, 34, 34, 34, 34, 34, 34, 34, 34, 34, 34, 34, 34, 34, 34,
     34, 34, 34, 34, 34, 34, 34, 34, 34, 34, 34, 34, 34, 34, 34, 34, 34, 34, 34, 34, 34, 34, 34, 34,
     34, 34, 34, 34, 34, 34, 34, 34, 34, 34, 34, 34, 34, 34, 34, 34, 34, 34, 34, 34, 34, 34, 34, 34,
     34, 34, 34, 34, 34, 34, 34, 34, 34, 34, 34, 34, 34, 34, 34, 34, 34, 34, 34, 34, 34, 34, 34, 34,
     34, 34, 34, 34, 34, 34, 34, 34, 34, 34, 34, 34, 34, 34, 34, 34]"

definition JSON_ESCAPE_QUOTES :: "string list" where
  "JSON_ESCAPE_QUOTES =
    [CHR 0x5C # ''u0000'', CHR 0x5C # ''u0001'', CHR 0x5C # ''u0002'', CHR 0x5C # ''u0003'',
     CHR 0x5C # ''u0004'', CHR 0x5C # ''u0005'', CHR 0x5C # ''u0006'', CHR 0x5C # ''u0007'',
     CHR 0x5C # ''b'', CHR 0x5C # ''t'', CHR 0x5C # ''n'', CHR 0x5C # ''u000b'',
     CHR 0x5C # ''f'', CHR 0x5C # ''r'', CHR 0x5C # ''u000e'', CHR 0x5C # ''u000f'',
     CHR 0x5C # ''u0010'', CHR 0x5C # ''u0011'', CHR 0x5C # ''u0012'', CHR 0x5C # ''u0013'',
     CHR 0x5C # ''u0014'', CHR 0x5C # ''u0015'', CHR 0x5C # ''u0016'', CHR 0x5C # ''u0017'',
     CHR 0x5C # ''u0018'', CHR 0x5C # ''u0019'', CHR 0x5C # ''u001a'', CHR 0x5C # ''u001b'',
     CHR 0x5C # ''u001c'', CHR 0x5C # ''u001d'', CHR 0x5C # ''u001e'', CHR 0x5C # ''u001f'',
     [CHR 0x5C, CHR 0x22], [CHR 0x5C, CHR 0x5C]]"

definition ESCAPE_LEN :: nat where
  "ESCAPE_LEN = 34"

definition slice :: "nat \<Rightarrow> nat \<Rightarrow> string \<Rightarrow> string" where
  "slice start i bytes = drop start (take i bytes)"

definition hex_digit :: "byte \<Rightarrow> char" where
  "hex_digit h = (if h < 10 then of_byte (0x30 + h) else of_byte (0x61 + h - 10))"

definition write_surrogate_escape :: "string \<Rightarrow> string \<Rightarrow> nat \<Rightarrow> string \<times> nat" where
  "write_surrogate_escape result bytes i =
     (let code_point =
            push_bit 12 (ucast (byte (bytes ! i)) AND 0x0F)
            OR push_bit 6 (ucast (byte (bytes ! (i + 1))) AND 0x3F)
            OR (ucast (byte (bytes ! (i + 2))) AND 0x3F) :: 16 word;
          hex = [ucast (drop_bit 12 code_point), ucast (drop_bit 8 code_point AND 0xF),
                 ucast (drop_bit 4 code_point AND 0xF), ucast (code_point AND 0xF)]
      in (result @ (CHR 0x5C # ''u'') @ map hex_digit hex, 3))"

definition process_byte :: "string \<Rightarrow> byte \<Rightarrow> scan \<Rightarrow> scan" where
  "process_byte bytes b st =
     (let (result, i, start) = st;
          c = JSON_ESCAPE_CHARS ! unat b
      in if c < ESCAPE_LEN
         then (result @ slice start i bytes @ JSON_ESCAPE_QUOTES ! c, i + 1, i + 1)
         else if b = 0xED \<and> i + 2 < length bytes \<and> 0xA0 \<le> byte (bytes ! (i + 1)) AND 0xF0
         then (let result = (if start < i then result @ slice start i bytes else result);
                   (result, n) = write_surrogate_escape result bytes i
               in (result, i + n, i + n))
         else (result, i + 1, start))"

subsection \<open>Eight bytes in a word\<close>

definition ONES :: u64 where
  "ONES = 0x0101010101010101"

definition HIGH :: u64 where
  "HIGH = 0x8080808080808080"

definition from_le_bytes :: "byte list \<Rightarrow> u64" where
  "from_le_bytes bs = word_of_int (horner_sum uint (2 ^ 8) bs)"

definition chunk_escape_mask :: "byte list \<Rightarrow> u64" where
  "chunk_escape_mask chunk =
     (let x = from_le_bytes chunk;
          lt32 = (x - 0x20 * ONES) AND NOT x;
          eq34 = (let y = x XOR (0x22 * ONES) in (y - ONES) AND NOT y);
          eq92 = (let y = x XOR (0x5C * ONES) in (y - ONES) AND NOT y);
          eqed = (let y = x XOR (0xED * ONES) in (y - ONES) AND NOT y)
      in (lt32 OR eq34 OR eq92 OR eqed) AND HIGH)"

definition trailing_zeros :: "u64 \<Rightarrow> nat" where
  "trailing_zeros m = length (takeWhile (\<lambda>n. \<not> bit m n) [0..<64])"

definition count_ones :: "u64 \<Rightarrow> nat" where
  "count_ones m = length (filter (bit m) [0..<64])"

text \<open>\<open>(!0u64).checked_shl(n).unwrap_or(0)\<close>.\<close>

definition ones_above :: "nat \<Rightarrow> u64" where
  "ones_above n = (if n < 64 then push_bit n (NOT 0) else 0)"

subsection \<open>The scan\<close>

lemma process_byte_advances: "i < fst (snd (process_byte bytes b (r, i, s)))"
  by (simp add: process_byte_def write_surrogate_escape_def Let_def)

lemma trailing_zeros_bit:
  assumes "m \<noteq> 0"
  shows "trailing_zeros m < 64 \<and> bit m (trailing_zeros m) \<and> (\<forall>n < trailing_zeros m. \<not> bit m n)"
proof -
  let ?P = "\<lambda>n. \<not> bit m n"
  obtain n where n: "bit m n" using assms by (auto simp: bit_eq_iff)
  then have "n < 64" using bit_imp_le_length [of m n] by simp
  with n have ex: "\<exists>n \<in> set [0..<64]. \<not> ?P n" by auto
  have less: "trailing_zeros m < 64"
  proof (rule ccontr)
    assume "\<not> trailing_zeros m < 64"
    moreover have "trailing_zeros m \<le> 64"
      using length_takeWhile_le [of ?P "[0..<64]"] by (simp add: trailing_zeros_def)
    ultimately have "takeWhile ?P [0..<64] = [0..<64]"
      using takeWhile_eq_take [of ?P "[0..<64]"] by (simp add: trailing_zeros_def)
    then show False using ex by (metis takeWhile_eq_all_conv)
  qed
  have "\<not> ?P ([0..<64] ! trailing_zeros m)"
    using nth_length_takeWhile [of ?P "[0..<64]"] less by (simp add: trailing_zeros_def)
  moreover have "?P n" if "n < trailing_zeros m" for n
    using set_takeWhileD [of "takeWhile ?P [0..<64] ! n" ?P "[0..<64]"] that less
      takeWhile_nth [of n ?P "[0..<64]"] nth_mem [of n "takeWhile ?P [0..<64]"]
    by (simp add: trailing_zeros_def)
  ultimately show ?thesis using less by simp
qed

lemma bit_ones_above [simp]: "bit (ones_above n) k \<longleftrightarrow> n \<le> k \<and> k < 64"
  by (auto simp: ones_above_def bit_simps)

lemma mask_shrinks:
  assumes "m \<noteq> 0" "trailing_zeros m div 8 < n"
  shows "unat (m AND ones_above (n * 8)) < unat m"
proof -
  have tz: "trailing_zeros m < n * 8" using assms(2) by (simp add: div_less_iff_less_mult)
  have "m AND ones_above (n * 8) \<noteq> m"
    using trailing_zeros_bit [OF assms(1)] tz by (auto simp: bit_eq_iff bit_simps intro!: exI [of _ "trailing_zeros m"])
  moreover have "m AND ones_above (n * 8) \<le> m" by (rule word_and_le2)
  ultimately have "m AND ones_above (n * 8) < m" by simp
  then show ?thesis by (rule unat_mono)
qed

function dirty_loop :: "string \<Rightarrow> nat \<Rightarrow> u64 \<Rightarrow> scan \<Rightarrow> scan" where
  "dirty_loop bytes half_start m st =
     (if m = 0 then st
      else let (result, i, start) = st;
               i = half_start + trailing_zeros m div 8;
               st = process_byte bytes (byte (bytes ! i)) (result, i, start);
               consumed = fst (snd st) - half_start
           in dirty_loop bytes half_start (m AND ones_above (consumed * 8)) st)"
  by pat_completeness auto
termination
proof (relation "measure (\<lambda>(bytes, hs, m, st). unat m)", goal_cases)
  case (2 bytes hs m st x result y i start k st' consumed)
  then have "hs + trailing_zeros m div 8 < fst (snd st')" by (simp only: process_byte_advances)
  with 2(7) have "trailing_zeros m div 8 < consumed" by linarith
  with 2(1) show ?case by (auto intro!: mask_shrinks)
qed simp

declare dirty_loop.simps [simp del]

definition process_dirty_half :: "string \<Rightarrow> nat \<Rightarrow> u64 \<Rightarrow> scan \<Rightarrow> scan" where
  "process_dirty_half bytes half_start marks st =
     (let half_end = half_start + 8; (result, i, start) = st
      in if marks = 0 then (result, max i half_end, start)
         else let m = marks AND push_bit ((i - half_start) * 8) (NOT 0)
              in if count_ones m = 1
                 then let i = half_start + trailing_zeros m div 8;
                          (result, i, start) = process_byte bytes (byte (bytes ! i)) (result, i, start)
                      in (result, max i half_end, start)
                 else let (result, i, start) = dirty_loop bytes half_start m (result, i, start)
                      in (result, max i half_end, start))"

function byte_loop :: "string \<Rightarrow> scan \<Rightarrow> scan" where
  "byte_loop bytes st =
     (let (result, i, start) = st
      in if i < length bytes then byte_loop bytes (process_byte bytes (byte (bytes ! i)) st) else st)"
  by pat_completeness auto
termination
proof (relation "measure (\<lambda>(bytes, st). length bytes - fst (snd st))", goal_cases)
  case (2 bytes st r y i s)
  then show ?case
    using process_byte_advances [of "fst (snd st)" bytes "byte (bytes ! fst (snd st))" "fst st" "snd (snd st)"]
    by (auto intro: diff_less_mono2)
qed simp

declare byte_loop.simps [simp del]

text \<open>\<open>slice.as_chunks\<close>: the chunks of \<open>n\<close> elements and what is left of them.\<close>

definition as_chunks :: "nat \<Rightarrow> string \<Rightarrow> string list \<times> string" where
  "as_chunks n xs =
     (map (\<lambda>k. slice (k * n) (k * n + n) xs) [0..<length xs div n], drop (length xs div n * n) xs)"

text \<open>One stride of 64 bytes, and one chunk of the tail; \<open>base\<close> is where it begins.\<close>

definition mask_at :: "string \<Rightarrow> nat \<Rightarrow> u64" where
  "mask_at chunk off = chunk_escape_mask (map byte (slice off (off + 8) chunk))"

definition stride :: "string \<Rightarrow> nat \<times> scan \<Rightarrow> string \<Rightarrow> nat \<times> scan" where
  "stride bytes bst chunk64 =
     (let (base, result, i, start) = bst;
          m0 = mask_at chunk64 0; m1 = mask_at chunk64 8; m2 = mask_at chunk64 16;
          m3 = mask_at chunk64 24; m4 = mask_at chunk64 32; m5 = mask_at chunk64 40;
          m6 = mask_at chunk64 48; m7 = mask_at chunk64 56
      in if (m0 OR m1 OR m2 OR m3 OR m4 OR m5 OR m6 OR m7) = 0
         then (base + 64, result, base + 64, start)
         else (base + 64,
               (process_dirty_half bytes (base + 56) m7
               (process_dirty_half bytes (base + 48) m6
               (process_dirty_half bytes (base + 40) m5
               (process_dirty_half bytes (base + 32) m4
               (process_dirty_half bytes (base + 24) m3
               (process_dirty_half bytes (base + 16) m2
               (process_dirty_half bytes (base + 8) m1
               (process_dirty_half bytes (base + 0) m0 (result, i, start)))))))))))"

definition sub_stride :: "string \<Rightarrow> nat \<Rightarrow> scan \<Rightarrow> nat \<times> string \<Rightarrow> scan" where
  "sub_stride bytes base st ksub =
     (let (k, sub) = ksub
      in process_dirty_half bytes (base + k * 8) (chunk_escape_mask (map byte sub)) st)"

definition escape_json_string_simple :: "string \<Rightarrow> string \<Rightarrow> string" where
  "escape_json_string_simple result bytes =
     (let (chunks64, tail) = as_chunks 64 bytes;
          (base, st) = foldl (stride bytes) (0, result, 0, 0) chunks64;
          (sub_chunks, sub_tail) = as_chunks 8 tail;
          st = foldl (sub_stride bytes base) st (enumerate 0 sub_chunks);
          (result, i, start) = byte_loop bytes st
      in if start < length bytes then result @ slice start (length bytes) bytes else result)"

definition escape_json_string :: "string \<Rightarrow> string \<Rightarrow> string" where
  "escape_json_string result bytes = escape_json_string_simple result bytes"

definition escape_json :: "string \<Rightarrow> string" where
  "escape_json bytes = escape_json_string [] bytes"

subsection \<open>What the mask marks\<close>

text \<open>The bytes of a word.\<close>

definition lane :: "nat \<Rightarrow> u64 \<Rightarrow> byte" where
  "lane k x = ucast (drop_bit (8 * k) x)"

lemma bit_lane: "k < 8 \<Longrightarrow> bit (lane k x) n \<longleftrightarrow> n < 8 \<and> bit x (8 * k + n)"
  by (auto simp: lane_def bit_simps)

lemma lane_of_int: "k < 8 \<Longrightarrow> lane k (word_of_int a) = word_of_int (drop_bit (8 * k) a)"
  by (rule bit_word_eqI) (auto simp: bit_lane bit_simps)

lemma drop_bit_diff:
  fixes a b :: int
  shows "drop_bit n (a - b) = drop_bit n a - drop_bit n b - of_bool (take_bit n a < take_bit n b)"
proof -
  let ?m = "2 ^ n :: int"
  have "a - b = (a div ?m - b div ?m) * ?m + (a mod ?m - b mod ?m)"
    by (simp add: algebra_simps)
  then have "(a - b) div ?m = a div ?m - b div ?m + (a mod ?m - b mod ?m) div ?m"
    by (metis add.commute div_mult_self1 power_not_zero zero_neq_numeral)
  moreover have "(a mod ?m - b mod ?m) div ?m = - of_bool (a mod ?m < b mod ?m)"
  proof (cases "a mod ?m < b mod ?m")
    case True
    have "0 \<le> a mod ?m" "b mod ?m < ?m" by simp_all
    then have "- ?m \<le> a mod ?m - b mod ?m" by linarith
    with True have "(a mod ?m - b mod ?m) div ?m = - 1" by (intro int_div_pos_eq [of _ _ _ "a mod ?m - b mod ?m + ?m"]) (simp_all, linarith?)
    with True show ?thesis by simp
  next
    case False
    have "a mod ?m < ?m" "0 \<le> b mod ?m" by simp_all
    with False have "(a mod ?m - b mod ?m) div ?m = 0" by (intro div_pos_pos_trivial) linarith+
    with False show ?thesis by simp
  qed
  ultimately show ?thesis by (simp add: drop_bit_eq_div take_bit_eq_mod)
qed

lemma lane_minus:
  assumes "k < 8"
  shows "lane k (x - y) \<in> {lane k x - lane k y, lane k x - lane k y - 1}"
proof -
  have "lane k (x - y) = word_of_int (drop_bit (8 * k) (uint x - uint y))"
    using lane_of_int [OF assms, of "uint x - uint y"] by simp
  moreover have "lane k z = word_of_int (drop_bit (8 * k) (uint z))" for z
    using lane_of_int [OF assms, of "uint z"] by simp
  ultimately show ?thesis by (auto simp: drop_bit_diff)
qed

lemma byte_sign: "bit (w :: byte) 7 \<longleftrightarrow> 128 \<le> uint w"
proof -
  have "uint w < 256" using uint_lt2p [of w] by simp
  then have "uint w div 128 \<le> 1" "0 \<le> uint w div 128" by (auto simp: pos_imp_zdiv_nonneg_iff)
  moreover have "bit w 7 \<longleftrightarrow> odd (uint w div 128)"
    using bit_uint_iff [of w 7] by (simp add: bit_iff_odd)
  ultimately show ?thesis by (cases "uint w div 128 = 0") (auto simp: div_eq_0_iff order_le_less)
qed

lemma below_marked:
  assumes "(a :: byte) < 32" "d \<in> {a - 32, a - 32 - 1}"
  shows "bit d 7 \<and> \<not> bit a 7"
proof -
  have a: "uint a < 32" using assms(1) by (simp add: word_less_def)
  have "uint (a - 32) = uint a + 224" "uint (a - 32 - 1) = uint a + 223"
    using a mod_add_self2 [of "uint a - 32" 256] mod_add_self2 [of "uint a - 33" 256]
    by (simp_all add: uint_word_ariths mod_diff_eq mod_pos_pos_trivial)
  with a assms(2) show ?thesis by (auto simp: byte_sign)
qed

lemma lane_bitops:
  assumes "k < 8"
  shows "lane k (x XOR y) = lane k x XOR lane k y" "lane k (x AND y) = lane k x AND lane k y"
    "lane k (x OR y) = lane k x OR lane k y" "lane k (NOT x) = NOT (lane k x)"
  using assms by (auto intro!: bit_word_eqI simp: bit_lane bit_simps)

lemma less_8_cases: "k < 8 \<Longrightarrow> k \<in> {0, 1, 2, 3, 4, 5, 6, 7 :: nat}"
  by auto

lemma lane_constants:
  assumes "k < 8"
  shows "lane k (0x20 * ONES) = 0x20" "lane k (0x22 * ONES) = 0x22" "lane k (0x5C * ONES) = 0x5C"
    "lane k (0xED * ONES) = 0xED" "lane k ONES = 1" "lane k HIGH = 0x80"
  using less_8_cases [OF assms] by (auto simp: lane_def ONES_def HIGH_def)

lemma lane_from_le_bytes:
  assumes "k < 8" "length bs = 8"
  shows "lane k (from_le_bytes bs) = bs ! k"
proof (rule bit_word_eqI)
  fix n
  assume "n < LENGTH(8)"
  with assms show "bit (lane k (from_le_bytes bs)) n = bit (bs ! k) n"
    by (simp add: bit_lane from_le_bytes_def bit_simps bit_horner_sum_uint_exp_iff [where 'a = 8, simplified] div_mult_self2 less_Suc_eq)
qed

lemma equal_marked: "d \<in> {0 - 1, 0 - 1 - 1} \<Longrightarrow> bit (d :: byte) 7 \<and> \<not> bit (0 :: byte) 7"
  by (auto simp: byte_sign unsigned_minus_1_eq_mask mask_eq_exp_minus_1)

text \<open>A byte the escape table treats.\<close>

definition needs :: "byte \<Rightarrow> bool" where
  "needs b = (b < 32 \<or> b = 0x22 \<or> b = 0x5C \<or> b = 0xED)"

lemma zero_lane_marked:
  assumes "k < 8" "lane k y = 0"
  shows "bit (lane k (y - ONES)) 7 \<and> \<not> bit (lane k y) 7"
proof -
  have "lane k (y - ONES) \<in> {0 - 1, 0 - 1 - 1}"
    using lane_minus [OF assms(1), of y ONES] lane_constants(5) [OF assms(1)] assms(2) by simp
  from equal_marked [OF this] show ?thesis by (simp add: assms(2))
qed

lemma chunk_escape_mask_complete:
  assumes "k < 8" "length chunk = 8" "needs (chunk ! k)"
  shows "bit (chunk_escape_mask chunk) (8 * k + 7)"
proof -
  define x where "x = from_le_bytes chunk"
  have a: "lane k x = chunk ! k" using lane_from_le_bytes assms(1,2) by (simp add: x_def)
  let ?y = "\<lambda>c. x XOR (c * ONES)"
  have marked: "bit (lane k (?y c - ONES)) 7 \<and> \<not> bit (lane k (?y c)) 7" if "lane k (c * ONES) = lane k x" for c
    by (rule zero_lane_marked [OF assms(1)]) (simp add: lane_bitops assms(1) that)
  have "bit (lane k (chunk_escape_mask chunk)) 7"
    if "(bit (lane k (x - 0x20 * ONES)) 7 \<and> \<not> bit (lane k x) 7)
        \<or> (\<exists>c \<in> {0x22, 0x5C, 0xED}. bit (lane k (?y c - ONES)) 7 \<and> \<not> bit (lane k (?y c)) 7)"
    using that assms(1)
    by (auto simp: chunk_escape_mask_def Let_def x_def [symmetric] lane_bitops lane_constants(6) bit_simps)
  moreover have "bit (lane k (x - 0x20 * ONES)) 7 \<and> \<not> bit (lane k x) 7" if "chunk ! k < 32"
    using below_marked [of "lane k x"] lane_minus [OF assms(1), of x "0x20 * ONES"] that
    by (simp add: a lane_constants(1) [OF assms(1)])
  ultimately have "bit (lane k (chunk_escape_mask chunk)) 7"
    using assms(3) marked lane_constants [OF assms(1)] by (auto simp: needs_def a)
  then show ?thesis using assms(1) by (simp add: bit_lane)
qed

subsection \<open>The reference\<close>

text \<open>RFC 8259 and ECMA-262, \<open>QuoteJSONString\<close>, one byte after the other. A surrogate is written in three
  bytes, \<open>ED A0..BF 80..BF\<close>.\<close>

definition lower_hex :: "nat \<Rightarrow> char" where
  "lower_hex n = (if n < 10 then char_of (48 + n) else char_of (87 + n))"

definition unicode_escape :: "nat \<Rightarrow> string" where
  "unicode_escape u = CHR 0x5C # CHR ''u'' # map (\<lambda>k. lower_hex (u div 16 ^ k mod 16)) [3, 2, 1, 0]"

definition quote_char :: "nat \<Rightarrow> string" where
  "quote_char n =
     (if n = 0x22 then [CHR 0x5C, CHR 0x22] else if n = 0x5C then [CHR 0x5C, CHR 0x5C]
      else if n = 0x08 then CHR 0x5C # ''b'' else if n = 0x09 then CHR 0x5C # ''t''
      else if n = 0x0A then CHR 0x5C # ''n'' else if n = 0x0C then CHR 0x5C # ''f''
      else if n = 0x0D then CHR 0x5C # ''r''
      else if n < 32 then unicode_escape n else [char_of n])"

definition surrogate :: "char \<Rightarrow> char \<Rightarrow> nat" where
  "surrogate d e = 0xD000 + 64 * (of_char d mod 64) + of_char e mod 64"

fun quote :: "string \<Rightarrow> string" where
  "quote (c # d # e # rest) =
     (if c = CHR 0xED \<and> of_char d \<ge> (0xA0 :: nat)
      then unicode_escape (surrogate d e) @ quote rest
      else quote_char (of_char c) @ quote (d # e # rest))"
| "quote (c # rest) = quote_char (of_char c) @ quote rest"
| "quote [] = []"

lemma escape_chars_map:
  "JSON_ESCAPE_CHARS =
     map (\<lambda>b. if b < 32 then b else if b = 34 then 32 else if b = 92 then 33 else 34) [0..<256]"
  by code_simp

lemma upto_32: "[0..<32 :: nat] =
   [0, 1, 2, 3, 4, 5, 6, 7, 8, 9, 10, 11, 12, 13, 14, 15, 16, 17, 18, 19,
    20, 21, 22, 23, 24, 25, 26, 27, 28, 29, 30, 31]"
  by code_simp

lemma escape_quotes_map: "JSON_ESCAPE_QUOTES = map quote_char ([0..<32] @ [0x22, 0x5C])"
  unfolding upto_32
  by (simp add: JSON_ESCAPE_QUOTES_def quote_char_def unicode_escape_def lower_hex_def char_of_def bit_0)

lemma escape_table:
  "JSON_ESCAPE_CHARS ! of_char c < ESCAPE_LEN \<longleftrightarrow> needs (byte c) \<and> c \<noteq> CHR 0xED"
  "JSON_ESCAPE_CHARS ! of_char c < ESCAPE_LEN \<Longrightarrow>
     JSON_ESCAPE_QUOTES ! (JSON_ESCAPE_CHARS ! of_char c) = quote_char (of_char c)"
proof -
  have n: "(of_char c :: nat) < 256" by simp
  have byte: "byte c = of_nat k \<longleftrightarrow> of_char c = k" if "k < 256" for k
  proof
    assume "byte c = of_nat k"
    then have "unat (byte c) = unat (of_nat k :: byte)" by simp
    with that show "of_char c = k" by (simp add: unat_of_nat)
  qed (simp add: byte_def)
  have ed: "c = CHR 0xED \<longleftrightarrow> of_char c = (0xED :: nat)"
    by (subst of_char_eq_iff [where 'a = nat, symmetric]) simp
  show "JSON_ESCAPE_CHARS ! of_char c < ESCAPE_LEN \<longleftrightarrow> needs (byte c) \<and> c \<noteq> CHR 0xED"
    using n byte [of "0x22"] byte [of "0x5C"] byte [of "0xED"]
    by (auto simp: escape_chars_map ESCAPE_LEN_def needs_def word_less_nat_alt ed)
  show "JSON_ESCAPE_CHARS ! of_char c < ESCAPE_LEN \<Longrightarrow>
     JSON_ESCAPE_QUOTES ! (JSON_ESCAPE_CHARS ! of_char c) = quote_char (of_char c)"
    using n by (auto simp: escape_chars_map escape_quotes_map ESCAPE_LEN_def nth_append split: if_splits)
qed

subsection \<open>The surrogate escape\<close>

lemma hex_digit_lower: "unat h < 16 \<Longrightarrow> hex_digit h = lower_hex (unat h)"
  by (auto simp: hex_digit_def lower_hex_def of_byte_def word_less_nat_alt unat_word_ariths
      unat_sub_if' mod_less simp del: char_of_nat)

lemma surrogate_code_point:
  fixes x y :: "16 word"
  assumes "unat x < 64" "unat y < 64"
  shows "unat (push_bit 12 0xD OR push_bit 6 x OR y) = 0xD000 + 64 * unat x + unat y"
proof -
  have bits: "bit z n \<Longrightarrow> n < 6" if "unat z < 64" for z :: "16 word" and n
  proof (rule ccontr)
    assume "bit z n" "\<not> n < 6"
    moreover have "take_bit 6 z = z"
      using that by (simp add: word_unat_eq_iff unsigned_take_bit_eq take_bit_nat_eq_self)
    ultimately show False by (metis bit_take_bit_iff)
  qed
  have "push_bit 6 x AND y = 0" using bits [OF assms(2)]
    by (auto intro!: bit_word_eqI simp: bit_simps) (metis not_le)
  then have lower: "push_bit 6 x OR y = push_bit 6 x + y" by (simp add: disjunctive_add_eq_or)
  have "n < 12" if "bit (push_bit 6 x OR y) n" for n
    using that bits [OF assms(1)] bits [OF assms(2)] by (fastforce simp: bit_simps)
  then have "push_bit 12 d AND (push_bit 6 x OR y) = 0" for d
    by (intro bit_word_eqI) (simp only: bit_and_iff bit_push_bit_iff, metis bit_0_eq bot_apply bot_bool_def not_le)
  then have "push_bit 12 0xD OR push_bit 6 x OR y = push_bit 12 0xD + (push_bit 6 x + y)"
    unfolding lower by (simp only: disjunctive_add_eq_or)
  moreover have "unat (push_bit 6 x + y) = 64 * unat x + unat y"
    using assms by (simp add: unat_word_ariths push_bit_eq_mult)
  ultimately show ?thesis using assms by (simp add: unat_word_ariths push_bit_eq_mult)
qed

lemma and_mask_unat:
  fixes w :: "'a :: len word"
  shows "unat (w AND mask k) = unat w mod 2 ^ k"
  by (simp add: take_bit_eq_mask [symmetric] unsigned_take_bit_eq) (simp add: take_bit_eq_mod)

lemma write_surrogate_escape_eq:
  assumes "bytes ! i = CHR 0xED"
  shows "write_surrogate_escape r bytes i =
    (r @ unicode_escape (surrogate (bytes ! (i + 1)) (bytes ! (i + 2))), 3)"
proof -
  let ?x = "\<lambda>c. ucast (byte c) AND 0x3F :: 16 word"
  let ?d = "bytes ! (i + 1)" and ?e = "bytes ! (i + 2)"
  let ?s = "surrogate ?d ?e"
  define cp where "cp = push_bit 12 (ucast (byte (bytes ! i)) AND 0x0F) OR push_bit 6 (?x ?d) OR ?x ?e"
  have x: "unat (?x c) = of_char c mod 64" for c
    using and_mask_unat [of "ucast (byte c) :: 16 word" 6] by (simp add: mask_eq_exp_minus_1 unsigned_ucast_eq take_bit_eq_mod mod_mod_cancel)
  have lead: "ucast (byte (bytes ! i)) AND 0x0F = (0xD :: 16 word)" using assms by (simp add: byte_def)
  have cp: "unat cp = surrogate ?d ?e"
    unfolding cp_def lead using surrogate_code_point [of "?x ?d" "?x ?e"] by (simp add: x surrogate_def)
  have small: "surrogate ?d ?e < 16 ^ 4" using unsigned_less [of cp, where 'a = nat] by (simp add: cp)
  have drop: "unat (drop_bit n cp) = ?s div 2 ^ n" for n
    unfolding unsigned_drop_bit_eq using small by (simp add: drop_bit_eq_div cp take_bit_nat_eq_self)
  have nib: "unat (drop_bit n cp AND 0xF) = surrogate ?d ?e div 2 ^ n mod 16" for n
    using drop [of n] and_mask_unat [of "drop_bit n cp" 4] by (simp add: mask_eq_exp_minus_1)
  have digit: "hex_digit (ucast w) = lower_hex (unat w)" if "unat w < 16" for w :: "16 word"
  proof -
    have "unat (ucast w :: byte) = unat w" using that by (simp add: unsigned_ucast_eq take_bit_eq_mod)
    with that show ?thesis by (simp add: hex_digit_lower)
  qed
  have "map hex_digit [ucast (drop_bit 12 cp), ucast (drop_bit 8 cp AND 0xF),
      ucast (drop_bit 4 cp AND 0xF), ucast (cp AND 0xF)]
      = map lower_hex [?s div 2 ^ 12 mod 16, ?s div 2 ^ 8 mod 16, ?s div 2 ^ 4 mod 16, ?s div 2 ^ 0 mod 16]"
    using nib [of 8] nib [of 4] nib [of 0] small
    by (simp add: digit drop)
  then show ?thesis
    unfolding write_surrogate_escape_def Let_def cp_def [symmetric]
    by (simp add: unicode_escape_def del: list.map) simp
qed

subsection \<open>The scan is faithful\<close>

text \<open>What a state of the scan stands for: the bytes from \<open>start\<close> to \<open>i\<close> are still to be copied, those
  from \<open>i\<close> on to be quoted.\<close>

fun faithful :: "string \<Rightarrow> string \<Rightarrow> scan \<Rightarrow> bool" where
  "faithful bytes r0 (r, i, s) \<longleftrightarrow>
     s \<le> i \<and> i \<le> length bytes \<and> r @ slice s i bytes @ quote (drop i bytes) = r0 @ quote bytes"

lemma slice_Suc: "s \<le> i \<Longrightarrow> i < length bytes \<Longrightarrow> slice s (Suc i) bytes = slice s i bytes @ [bytes ! i]"
  by (simp add: slice_def take_Suc_conv_app_nth)

lemma slice_same [simp]: "slice i i bytes = []"
  by (simp add: slice_def)

lemma drop_3:
  "i + 2 < length bytes \<Longrightarrow>
     drop i bytes = bytes ! i # bytes ! (i + 1) # bytes ! (i + 2) # drop (i + 3) bytes"
  by (simp add: Cons_nth_drop_Suc [symmetric] numeral_3_eq_3)

lemma quote_step:
  assumes "i < length bytes"
  shows "quote (drop i bytes) =
    (if bytes ! i = CHR 0xED \<and> i + 2 < length bytes \<and> (0xA0 :: nat) \<le> of_char (bytes ! (i + 1))
     then unicode_escape (surrogate (bytes ! (i + 1)) (bytes ! (i + 2))) @ quote (drop (i + 3) bytes)
     else quote_char (of_char (bytes ! i)) @ quote (drop (i + 1) bytes))"
proof (cases "i + 2 < length bytes")
  case True
  have "drop (i + 1) bytes = bytes ! (i + 1) # bytes ! (i + 2) # drop (i + 3) bytes"
    using drop_3 [OF True] by (metis drop_Suc_Cons drop_drop drop_0 One_nat_def add.commute plus_1_eq_Suc list.sel(3) drop_Suc tl_drop)
  with True drop_3 [OF True] show ?thesis by simp
next
  case False
  have "drop i bytes = bytes ! i # drop (i + 1) bytes" using assms by (simp add: Cons_nth_drop_Suc)
  moreover have "length (drop (i + 1) bytes) < 2" using False by simp
  then have "drop (i + 1) bytes = [] \<or> (\<exists>c. drop (i + 1) bytes = [c])"
    by (cases "drop (i + 1) bytes" rule: list.exhaust; cases "tl (drop (i + 1) bytes)") auto
  ultimately show ?thesis using False by auto
qed

lemma high_nibble: "(0xA0 :: byte) \<le> b AND 0xF0 \<longleftrightarrow> 0xA0 \<le> unat b"
proof -
  have "b AND 0xF0 = push_bit 4 (drop_bit 4 b)"
    by (rule byte_eqI) (simp_all add: bit_simps)
  moreover have "unat (push_bit 4 (drop_bit 4 b)) = 16 * (unat b div 16)"
    using unsigned_less [of b, where 'a = nat]
    unfolding unsigned_push_bit_eq unsigned_drop_bit_eq
    by (simp add: take_bit_eq_mod push_bit_eq_mult drop_bit_eq_div)
  ultimately have "unat (b AND 0xF0) = 16 * (unat b div 16)" by simp
  then show ?thesis by (auto simp: word_le_nat_alt)
qed

lemma quote_char_clean: "\<not> needs (byte c) \<or> c = CHR 0xED \<Longrightarrow> quote_char (of_char c) = [c]"
proof -
  assume c: "\<not> needs (byte c) \<or> c = CHR 0xED"
  have "of_char c \<noteq> (0x22 :: nat)" "of_char c \<noteq> (0x5C :: nat)" "\<not> of_char c < (32 :: nat)"
    using c by (auto simp: needs_def byte_def word_less_nat_alt unat_of_nat)
  then show ?thesis by (simp add: quote_char_def)
qed

lemma byte_ED [simp]: "byte c = 0xED \<longleftrightarrow> c = CHR 0xED"
proof -
  have "byte (CHR 0xED) = 0xED" by (simp add: byte_def)
  then show ?thesis by (metis of_byte_byte)
qed

lemma process_byte_faithful:
  assumes "faithful bytes r0 (r, i, s)" "i < length bytes"
  shows "faithful bytes r0 (process_byte bytes (byte (bytes ! i)) (r, i, s))"
proof -
  let ?c = "bytes ! i"
  let ?sur = "?c = CHR 0xED \<and> i + 2 < length bytes \<and> (0xA0 :: nat) \<le> of_char (bytes ! (i + 1))"
  have inv: "s \<le> i" "r @ slice s i bytes @ quote (drop i bytes) = r0 @ quote bytes" using assms by simp_all
  consider (table) "JSON_ESCAPE_CHARS ! of_char ?c < ESCAPE_LEN"
    | (sur) "\<not> JSON_ESCAPE_CHARS ! of_char ?c < ESCAPE_LEN" ?sur
    | (plain) "\<not> JSON_ESCAPE_CHARS ! of_char ?c < ESCAPE_LEN" "\<not> ?sur" by blast
  then show ?thesis
  proof cases
    case table
    then have "\<not> ?sur" using escape_table(1) by blast
    then have "quote (drop i bytes) = quote_char (of_char ?c) @ quote (drop (i + 1) bytes)"
      using quote_step [OF assms(2)] by argo
    with table inv show ?thesis using escape_table(2) [OF table] assms(2)
      by (simp add: process_byte_def)
  next
    case sur
    then show ?thesis
      using quote_step [OF assms(2)] inv assms(2) write_surrogate_escape_eq [of bytes i]
      by (auto simp: process_byte_def high_nibble Let_def)
  next
    case plain
    then have "quote_char (of_char ?c) = [?c]" using escape_table(1) [of ?c] quote_char_clean by blast
    with plain inv assms(2) show ?thesis
      using quote_step [OF assms(2)]
      by (auto simp: process_byte_def high_nibble slice_Suc)
  qed
qed

lemma skip_faithful:
  assumes "faithful bytes r0 (r, i, s)" "i \<le> j" "j \<le> length bytes"
    and "\<And>k. i \<le> k \<Longrightarrow> k < j \<Longrightarrow> \<not> needs (byte (bytes ! k))"
  shows "faithful bytes r0 (r, j, s)"
  using assms(2,3,4)
proof (induction j rule: dec_induct)
  case base
  then show ?case using assms(1) by simp
next
  case (step n)
  have clean: "\<not> needs (byte (bytes ! n))" using step by simp
  then have "bytes ! n \<noteq> CHR 0xED" by (auto simp: needs_def byte_def)
  moreover have "faithful bytes r0 (r, n, s)" using step by simp
  ultimately show ?case
    using quote_step [of n bytes] quote_char_clean clean step by (auto simp: slice_Suc)
qed

lemma process_byte_near: "fst (snd (process_byte bytes b (r, i, s))) \<le> i + 3"
  by (simp add: process_byte_def write_surrogate_escape_def Let_def)

text \<open>Where the bytes of a half stand that its mask does not mark.\<close>

definition clean_outside :: "string \<Rightarrow> nat \<Rightarrow> u64 \<Rightarrow> nat \<Rightarrow> bool" where
  "clean_outside bytes hs m i \<longleftrightarrow>
     (\<forall>k < 8. i \<le> hs + k \<longrightarrow> \<not> bit m (8 * k + 7) \<longrightarrow> \<not> needs (byte (bytes ! (hs + k))))"

lemma skip_to_mark:
  assumes "faithful bytes r0 (r, i, s)" "hs \<le> i" "hs + 8 \<le> length bytes"
    and "clean_outside bytes hs m i" "m \<noteq> 0" "i \<le> hs + trailing_zeros m div 8"
  shows "faithful bytes r0 (r, hs + trailing_zeros m div 8, s)"
proof (rule skip_faithful [OF assms(1,6)])
  show "hs + trailing_zeros m div 8 \<le> length bytes"
    using trailing_zeros_bit [OF assms(5)] assms(3) by linarith
  fix j
  assume j: "i \<le> j" "j < hs + trailing_zeros m div 8"
  define k where "k = j - hs"
  have k: "j = hs + k" "8 * k + 7 < trailing_zeros m" "k < 8"
    using j assms(2) trailing_zeros_bit [OF assms(5)] by (auto simp: k_def)
  then show "\<not> needs (byte (bytes ! j))"
    using assms(4) trailing_zeros_bit [OF assms(5)] j(1) by (auto simp: clean_outside_def)
qed

lemma skip_to_end:
  assumes "faithful bytes r0 (r, i, s)" "hs \<le> i" "hs + 8 \<le> length bytes"
    and "\<And>k. k < 8 \<Longrightarrow> i \<le> hs + k \<Longrightarrow> \<not> needs (byte (bytes ! (hs + k)))"
  shows "faithful bytes r0 (r, max i (hs + 8), s)"
proof (cases "i \<le> hs + 8")
  case True
  show ?thesis
  proof (rule skip_faithful [OF assms(1)])
    fix j
    assume "i \<le> j" "j < max i (hs + 8)"
    with True assms(2) show "\<not> needs (byte (bytes ! j))" using assms(4) [of "j - hs"] by simp
  qed (use True assms(3) in simp_all)
qed (use assms(1) in simp)

lemma dirty_loop_faithful:
  assumes "faithful bytes r0 (r, i, s)" "hs \<le> i" "hs + 8 \<le> length bytes"
    and "clean_outside bytes hs m i" "\<And>n. bit m n \<Longrightarrow> i \<le> hs + n div 8"
  shows "\<exists>r' i' s'. dirty_loop bytes hs m (r, i, s) = (r', i', s') \<and> hs \<le> i'
    \<and> faithful bytes r0 (r', i', s')
    \<and> (\<forall>k < 8. i' \<le> hs + k \<longrightarrow> \<not> needs (byte (bytes ! (hs + k))))
    \<and> i' \<le> max i (hs + 10)"
  using assms
proof (induction "unat m" arbitrary: m r i s rule: less_induct)
  case less
  show ?case
  proof (cases "m = 0")
    case True
    with less.prems show ?thesis by (auto simp: dirty_loop.simps clean_outside_def)
  next
    case False
    let ?i = "hs + trailing_zeros m div 8"
    obtain r' i' s' where st: "process_byte bytes (byte (bytes ! ?i)) (r, ?i, s) = (r', i', s')"
      by (cases "process_byte bytes (byte (bytes ! ?i)) (r, ?i, s)")
    have le: "i \<le> ?i" using less.prems(5) trailing_zeros_bit [OF False] by blast
    have lt: "?i < length bytes" using trailing_zeros_bit [OF False] less.prems(3) by linarith
    have adv: "?i < i'" "i' \<le> ?i + 3"
      using process_byte_advances [of ?i bytes "byte (bytes ! ?i)" r s]
        process_byte_near [of bytes "byte (bytes ! ?i)" r ?i s] by (simp_all add: st)
    have faith: "faithful bytes r0 (r', i', s')"
      using process_byte_faithful [OF skip_to_mark [OF less.prems(1-4) False le] lt] by (simp add: st)
    let ?m = "m AND ones_above ((i' - hs) * 8)"
    have small: "unat ?m < unat m" using adv by (intro mask_shrinks False) linarith
    have clean: "clean_outside bytes hs ?m i'"
      using less.prems(4) le adv by (auto simp: clean_outside_def bit_simps)
    have low: "i' \<le> hs + n div 8" if "bit ?m n" for n
      using that by (auto simp: bit_simps)
    have "dirty_loop bytes hs m (r, i, s) = dirty_loop bytes hs ?m (r', i', s')"
      using False st by (subst dirty_loop.simps) (simp add: Let_def)
    moreover have "?i \<le> hs + 7" using trailing_zeros_bit [OF False] by linarith
    ultimately show ?thesis
      using less.hyps [OF small faith _ less.prems(3) clean low] adv by fastforce
  qed
qed

subsection \<open>A stride of the scan\<close>

lemma count_ones_unique:
  assumes "count_ones m = 1" "bit m a" "bit m b"
  shows "a = b"
proof -
  obtain x where x: "filter (bit m) [0..<64] = [x]"
    using assms(1) by (auto simp: count_ones_def length_Suc_conv)
  have "n = x" if "bit m n" for n
  proof -
    have "n \<in> set (filter (bit m) [0..<64])" using that bit_imp_le_length [OF that] by simp
    then show ?thesis by (simp add: x)
  qed
  from this [OF assms(2)] this [OF assms(3)] show ?thesis by simp
qed

text \<open>A mask that marks every byte of a half that the table treats.\<close>

definition complete :: "string \<Rightarrow> nat \<Rightarrow> u64 \<Rightarrow> bool" where
  "complete bytes hs m \<longleftrightarrow> (\<forall>k < 8. needs (byte (bytes ! (hs + k))) \<longrightarrow> bit m (8 * k + 7))"

definition arrived :: "string \<Rightarrow> string \<Rightarrow> nat \<Rightarrow> scan \<Rightarrow> bool" where
  "arrived bytes r0 n st \<longleftrightarrow> faithful bytes r0 st \<and> n \<le> fst (snd st) \<and> fst (snd st) \<le> n + 2"

lemma process_dirty_half_arrives:
  assumes "arrived bytes r0 hs st" "hs + 8 \<le> length bytes" "complete bytes hs m"
  shows "arrived bytes r0 (hs + 8) (process_dirty_half bytes hs m st)"
proof -
  obtain r i s where st: "st = (r, i, s)" by (cases st)
  have faith: "faithful bytes r0 (r, i, s)" and near: "hs \<le> i" "i \<le> hs + 2"
    using assms(1) by (simp_all add: arrived_def st)
  define m' where "m' = m AND push_bit ((i - hs) * 8) (NOT 0)"
  have bit: "bit m' n \<longleftrightarrow> bit m n \<and> (i - hs) * 8 \<le> n" for n
    using bit_imp_le_length [of m n] by (auto simp: m'_def bit_simps)
  note half = process_dirty_half_def Let_def st prod.case m'_def [symmetric]
  have low: "i \<le> hs + n div 8" if "bit m' n" for n
    using that near unfolding bit by auto
  have clean: "clean_outside bytes hs m' i"
    using assms(3) near unfolding clean_outside_def complete_def bit by auto
  show ?thesis
  proof (cases "m = 0")
    case True
    then have "\<not> needs (byte (bytes ! (hs + k)))" if "k < 8" for k
      using assms(3) that by (simp add: complete_def)
    with skip_to_end [OF faith near(1) assms(2)] True near show ?thesis
      unfolding half by (simp add: arrived_def)
  next
    case False
    show ?thesis
    proof (cases "count_ones m' = 1")
      case one: True
      then have nz: "m' \<noteq> 0" by (auto simp: count_ones_def)
      let ?i = "hs + trailing_zeros m' div 8"
      obtain r' i' s' where pb: "process_byte bytes (byte (bytes ! ?i)) (r, ?i, s) = (r', i', s')"
        by (cases "process_byte bytes (byte (bytes ! ?i)) (r, ?i, s)")
      have tz: "bit m' (trailing_zeros m')" "?i \<le> hs + 7" using trailing_zeros_bit [OF nz] by auto
      have faith': "faithful bytes r0 (r', i', s')"
        using process_byte_faithful [OF skip_to_mark [OF faith near(1) assms(2) clean nz low [OF tz(1)]]] tz(2) assms(2)
        by (simp add: pb)
      have adv: "?i < i'" "i' \<le> ?i + 3"
        using process_byte_advances [of ?i bytes "byte (bytes ! ?i)" r s]
          process_byte_near [of bytes "byte (bytes ! ?i)" r ?i s] by (simp_all add: pb)
      have "\<not> needs (byte (bytes ! (hs + k)))" if "k < 8" "i' \<le> hs + k" for k
      proof
        assume "needs (byte (bytes ! (hs + k)))"
        then have "bit m' (8 * k + 7)" using clean that adv low [OF tz(1)] by (auto simp: clean_outside_def)
        from count_ones_unique [OF one this tz(1)] show False using adv that by linarith
      qed
      then have "faithful bytes r0 (r', max i' (hs + 8), s')"
        using skip_to_end [OF faith' _ assms(2)] adv by simp
      then show ?thesis using False one pb adv tz(2)
        unfolding half by (simp add: arrived_def)
    next
      case many: False
      obtain r' i' s' where dl: "dirty_loop bytes hs m' (r, i, s) = (r', i', s')" "hs \<le> i'"
        "faithful bytes r0 (r', i', s')" "i' \<le> max i (hs + 10)"
        "\<forall>k < 8. i' \<le> hs + k \<longrightarrow> \<not> needs (byte (bytes ! (hs + k)))"
        using dirty_loop_faithful [OF faith near(1) assms(2) clean low] by blast
      then have "faithful bytes r0 (r', max i' (hs + 8), s')"
        using skip_to_end [OF dl(3,2) assms(2)] by blast
      then show ?thesis using False many dl near
        unfolding half by (simp add: arrived_def)
    qed
  qed
qed

lemma nth_slice: "off + k < j \<Longrightarrow> j \<le> length xs \<Longrightarrow> slice off j xs ! k = xs ! (off + k)"
  by (simp add: slice_def)

lemma length_slice [simp]: "j \<le> length xs \<Longrightarrow> length (slice i j xs) = j - i"
  by (simp add: slice_def)

lemma mask_complete:
  assumes "length chunk = 8" "\<And>k. k < 8 \<Longrightarrow> chunk ! k = bytes ! (hs + k)"
  shows "complete bytes hs (chunk_escape_mask (map byte chunk))"
  unfolding complete_def
proof (intro allI impI)
  fix k :: nat
  assume "k < 8" "needs (byte (bytes ! (hs + k)))"
  with assms show "bit (chunk_escape_mask (map byte chunk)) (8 * k + 7)"
    by (intro chunk_escape_mask_complete) simp_all
qed

lemma mask_at_complete:
  assumes "base + 64 \<le> length bytes" "off \<le> 56"
  shows "complete bytes (base + off) (mask_at (slice base (base + 64) bytes) off)"
  unfolding mask_at_def
  using assms by (intro mask_complete) (simp_all add: nth_slice add.assoc)

lemma stride_arrives:
  assumes "arrived bytes r0 base st" "base + 64 \<le> length bytes"
  shows "\<exists>st'. stride bytes (base, st) (slice base (base + 64) bytes) = (base + 64, st')
    \<and> arrived bytes r0 (base + 64) st'"
proof -
  obtain r i s where st: "st = (r, i, s)" by (cases st)
  let ?m = "mask_at (slice base (base + 64) bytes)"
  let ?D = "\<lambda>off. process_dirty_half bytes (base + off) (?m off)"
  have step: "arrived bytes r0 (base + (off + 8)) (?D off st)"
    if "arrived bytes r0 (base + off) st" "off \<le> 56" for off st
    using process_dirty_half_arrives [OF that(1) _ mask_at_complete [OF assms(2) that(2)]] assms(2) that(2)
    by (simp add: add.assoc)
  show ?thesis
  proof (cases "(?m 0 OR ?m 8 OR ?m 16 OR ?m 24 OR ?m 32 OR ?m 40 OR ?m 48 OR ?m 56) = 0")
    case True
    then have z: "?m 0 = 0" "?m 8 = 0" "?m 16 = 0" "?m 24 = 0" "?m 32 = 0" "?m 40 = 0" "?m 48 = 0" "?m 56 = 0"
      by (simp_all add: or_eq_0_iff)
    have "\<not> needs (byte (bytes ! (base + (8 * j + k))))" if "j < 8" "k < 8" for j k
    proof -
      have "?m (8 * j) = 0" using z less_8_cases [OF that(1)] by auto
      with mask_at_complete [OF assms(2), of "8 * j"] that show ?thesis
        by (simp add: complete_def add.assoc)
    qed
    then have clean: "\<not> needs (byte (bytes ! (base + n)))" if "n < 64" for n
    proof -
      have "n div 8 < 8" "n mod 8 < 8" "8 * (n div 8) + n mod 8 = n" using that by simp_all
      then show ?thesis using \<open>\<And>k j. \<lbrakk>j < 8; k < 8\<rbrakk> \<Longrightarrow> \<not> needs (byte (bytes ! (base + (8 * j + k))))\<close> by metis
    qed
    have "faithful bytes r0 (r, base + 64, s)"
    proof (rule skip_faithful [of _ _ _ i])
      fix k
      assume "i \<le> k" "k < base + 64"
      with assms(1) clean [of "k - base"] show "\<not> needs (byte (bytes ! k))" by (simp add: arrived_def st)
    qed (use assms in \<open>simp_all add: arrived_def st\<close>)
    with True show ?thesis by (simp add: stride_def st arrived_def Let_def)
  next
    case False
    have "arrived bytes r0 (base + 8) (?D 0 st)" using step [of 0 st] assms(1) by simp
    then have "arrived bytes r0 (base + 16) (?D 8 (?D 0 st))" using step [of 8] by simp
    then have "arrived bytes r0 (base + 24) (?D 16 (?D 8 (?D 0 st)))" using step [of 16] by simp
    then have "arrived bytes r0 (base + 32) (?D 24 (?D 16 (?D 8 (?D 0 st))))" using step [of 24] by simp
    then have "arrived bytes r0 (base + 40) (?D 32 (?D 24 (?D 16 (?D 8 (?D 0 st)))))"
      using step [of 32] by simp
    then have "arrived bytes r0 (base + 48) (?D 40 (?D 32 (?D 24 (?D 16 (?D 8 (?D 0 st))))))"
      using step [of 40] by simp
    then have "arrived bytes r0 (base + 56) (?D 48 (?D 40 (?D 32 (?D 24 (?D 16 (?D 8 (?D 0 st)))))))"
      using step [of 48] by simp
    then have "arrived bytes r0 (base + 64) (?D 56 (?D 48 (?D 40 (?D 32 (?D 24 (?D 16 (?D 8 (?D 0 st))))))))"
      using step [of 56] by simp
    then show ?thesis using False by (simp add: stride_def st Let_def)
  qed
qed

subsection \<open>The whole scan\<close>

lemma strides_arrive:
  assumes "j * 64 \<le> length bytes"
  shows "\<exists>st. foldl (stride bytes) (0, r0, 0, 0) (map (\<lambda>k. slice (k * 64) (k * 64 + 64) bytes) [0..<j])
      = (j * 64, st) \<and> arrived bytes r0 (j * 64) st"
  using assms
proof (induction j)
  case 0
  then show ?case by (simp add: arrived_def)
next
  case (Suc j)
  then obtain st where st: "foldl (stride bytes) (0, r0, 0, 0) (map (\<lambda>k. slice (k * 64) (k * 64 + 64) bytes) [0..<j])
      = (j * 64, st)" "arrived bytes r0 (j * 64) st" by auto
  from stride_arrives [OF st(2)] Suc.prems obtain st' where
    "stride bytes (j * 64, st) (slice (j * 64) (j * 64 + 64) bytes) = (j * 64 + 64, st')"
    "arrived bytes r0 (j * 64 + 64) st'" by auto
  then show ?case using st(1) by (simp add: add.commute)
qed

lemma enumerate_map_upt: "enumerate 0 (map f [0..<m]) = map (\<lambda>k. (k, f k)) [0..<m]"
  by (simp add: enumerate_eq_zip zip_map2 zip_same_conv_map)

lemma sub_strides_arrive:
  assumes "arrived bytes r0 base st" "base + j * 8 \<le> length bytes"
  shows "arrived bytes r0 (base + j * 8) (foldl (sub_stride bytes base) st
    (map (\<lambda>k. (k, slice (k * 8) (k * 8 + 8) (drop base bytes))) [0..<j]))"
  using assms(2)
proof (induction j)
  case 0
  then show ?case using assms(1) by simp
next
  case (Suc j)
  let ?st = "foldl (sub_stride bytes base) st (map (\<lambda>k. (k, slice (k * 8) (k * 8 + 8) (drop base bytes))) [0..<j])"
  let ?sub = "slice (j * 8) (j * 8 + 8) (drop base bytes)"
  have "complete bytes (base + j * 8) (chunk_escape_mask (map byte ?sub))"
    using Suc.prems by (intro mask_complete) (simp_all add: nth_slice add.assoc)
  then have "arrived bytes r0 (base + j * 8 + 8) (sub_stride bytes base ?st (j, ?sub))"
    using process_dirty_half_arrives [of bytes r0 "base + j * 8" ?st] Suc by (simp add: sub_stride_def)
  then show ?case by (simp add: add.commute add.left_commute)
qed

lemma byte_loop_faithful:
  assumes "faithful bytes r0 (r, i, s)"
  shows "\<exists>r' s'. byte_loop bytes (r, i, s) = (r', length bytes, s')
      \<and> faithful bytes r0 (r', length bytes, s')"
  using assms
proof (induction "length bytes - i" arbitrary: r i s rule: less_induct)
  case less
  show ?case
  proof (cases "i < length bytes")
    case True
    obtain r' i' s' where pb: "process_byte bytes (byte (bytes ! i)) (r, i, s) = (r', i', s')"
      by (cases "process_byte bytes (byte (bytes ! i)) (r, i, s)")
    have "faithful bytes r0 (r', i', s')" using process_byte_faithful [OF less.prems True] by (simp add: pb)
    moreover have "length bytes - i' < length bytes - i"
      using process_byte_advances [of i bytes "byte (bytes ! i)" r s] True by (simp add: pb)
    moreover have "byte_loop bytes (r, i, s) = byte_loop bytes (r', i', s')"
      using True by (subst byte_loop.simps) (simp add: pb)
    ultimately show ?thesis using less.hyps [of i' r' s'] by metis
  next
    case False
    with less.prems show ?thesis by (auto simp: byte_loop.simps)
  qed
qed

lemma escape_appends_quote: "escape_json_string result bytes = result @ quote bytes"
proof -
  let ?base = "length bytes div 64 * 64"
  obtain st where st: "foldl (stride bytes) (0, result, 0, 0) (fst (as_chunks 64 bytes)) = (?base, st)"
    "arrived bytes result ?base st"
    using strides_arrive [of "length bytes div 64" bytes result] by (auto simp: as_chunks_def)
  let ?tail = "drop ?base bytes"
  define st' where "st' = foldl (sub_stride bytes ?base) st (enumerate 0 (fst (as_chunks 8 ?tail)))"
  have "?base + length ?tail div 8 * 8 \<le> length bytes" by simp
  then have "arrived bytes result (?base + length ?tail div 8 * 8) st'"
    using sub_strides_arrive [OF st(2), of "length ?tail div 8"]
    by (simp only: st'_def as_chunks_def fst_conv enumerate_map_upt)
  then have "faithful bytes result st'" by (simp add: arrived_def)
  then obtain r s where "byte_loop bytes st' = (r, length bytes, s)" "faithful bytes result (r, length bytes, s)"
    using byte_loop_faithful [of bytes result] by (cases st') blast
  moreover have "snd (as_chunks 64 bytes) = ?tail" by (simp add: as_chunks_def)
  ultimately show ?thesis using st(1)
    by (auto simp: escape_json_string_def escape_json_string_simple_def st'_def split: prod.splits)
qed

text \<open>C35 (equivalence): for every sequence of bytes and whatever has been written before, the scan that
  looks at eight bytes in one word, skips what its mask does not mark and copies in runs appends
  exactly what quoting one byte after the other gives, false marks and surrogates that span
  two words included.\<close>

theorem json_escape_exact: "escape_json_string result bytes = result @ quote bytes"
  by (rule escape_appends_quote)

subsection \<open>Reading a quoted string back\<close>

text \<open>A strict reader of JSON string bodies: a bare quotation mark, a control character and an unknown
  or unfinished escape are refused. An escape above \<open>\u00FF\<close> is read as the three bytes that hold
  its 16 bits, the form in which the engine keeps a lone surrogate.\<close>

definition hex_value :: "char \<Rightarrow> nat option" where
  "hex_value c =
     (let n = of_char c in
      if 48 \<le> n \<and> n \<le> 57 then Some (n - 48) else if 97 \<le> n \<and> n \<le> 102 then Some (n - 87) else None)"

definition three_bytes :: "nat \<Rightarrow> string" where
  "three_bytes u = [char_of (0xE0 + u div 4096), char_of (0x80 + u div 64 mod 64), char_of (0x80 + u mod 64)]"

definition read_unicode :: "nat \<Rightarrow> string" where
  "read_unicode u = (if u < 0x80 then [char_of u] else three_bytes u)"

definition simple_escapes :: "(char \<times> char) list" where
  "simple_escapes = [(CHR 0x22, CHR 0x22), (CHR 0x5C, CHR 0x5C), (CHR ''/'', CHR ''/''), (CHR ''b'', CHR 0x08),
     (CHR ''f'', CHR 0x0C), (CHR ''n'', CHR 0x0A), (CHR ''r'', CHR 0x0D), (CHR ''t'', CHR 0x09)]"

function unquote :: "string \<Rightarrow> string option" where
  "unquote s =
     (case s of
        [] \<Rightarrow> Some []
      | c # rest \<Rightarrow>
          if c = CHR 0x5C then
            (case rest of
               [] \<Rightarrow> None
             | e # rest' \<Rightarrow>
                 if e = CHR ''u'' then
                   (case map hex_value (take 4 rest') of
                      [Some a, Some b, Some x, Some y] \<Rightarrow>
                        map_option ((@) (read_unicode (4096 * a + 256 * b + 16 * x + y))) (unquote (drop 4 rest'))
                    | _ \<Rightarrow> None)
                 else (case map_of simple_escapes e of
                         None \<Rightarrow> None
                       | Some x \<Rightarrow> map_option ((#) x) (unquote rest')))
          else if c = CHR 0x22 \<or> of_char c < (32 :: nat) then None
          else map_option ((#) c) (unquote rest))"
  by pat_completeness auto
termination
  by (relation "measure length") auto

declare unquote.simps [simp del]

subsection \<open>Reading a body back\<close>

text \<open>In generalized UTF-8 the bytes \<open>ED A0..\<close> begin a surrogate of three bytes.\<close>

fun surrogates_whole :: "string \<Rightarrow> bool" where
  "surrogates_whole (c # d # e # rest) =
     (if c = CHR 0xED \<and> of_char d \<ge> (0xA0 :: nat)
      then of_char d \<le> (0xBF :: nat) \<and> 0x80 \<le> (of_char e :: nat) \<and> (of_char e :: nat) \<le> 0xBF
           \<and> surrogates_whole rest
      else surrogates_whole (d # e # rest))"
| "surrogates_whole _ = True"

lemma hex_value_lower_hex: "n < 16 \<Longrightarrow> hex_value (lower_hex n) = Some n"
  by (auto simp: hex_value_def lower_hex_def Let_def)

lemma hex_weights:
  assumes "u < (65536 :: nat)"
  shows "4096 * (u div 4096 mod 16) + 256 * (u div 256 mod 16) + 16 * (u div 16 mod 16) + u mod 16 = u"
proof -
  have "u div 256 = u div 16 div 16" "u div 4096 = u div 256 div 16" by (simp_all add: div_mult2_eq [symmetric])
  moreover have "u div 4096 mod 16 = u div 4096" using assms by simp
  ultimately show ?thesis
    using div_mult_mod_eq [of u 16] div_mult_mod_eq [of "u div 16" 16] div_mult_mod_eq [of "u div 256" 16]
    by linarith
qed

lemma hex_top: "u < (65536 :: nat) \<Longrightarrow> u div 4096 mod 16 = u div 4096"
  by simp

lemma unquote_unicode:
  assumes "u < 65536"
  shows "unquote (unicode_escape u @ t) = map_option ((@) (read_unicode u)) (unquote t)"
proof -
  have "map hex_value (take 4 (map (\<lambda>k. lower_hex (u div 16 ^ k mod 16)) [3, 2, 1, 0] @ t))
      = map (\<lambda>k. Some (u div 16 ^ k mod 16)) [3, 2, 1, 0]"
    by (simp add: hex_value_lower_hex)
  moreover have "drop 4 (map (\<lambda>k. lower_hex (u div 16 ^ k mod 16)) [3, 2, 1, 0] @ t) = t" by simp
  ultimately show ?thesis
    using hex_weights [OF assms] hex_top [OF assms]
    by (subst unquote.simps) (simp add: unicode_escape_def)
qed

lemma unquote_char:
  assumes "n < 256"
  shows "unquote (quote_char n @ t) = map_option ((#) (char_of n)) (unquote t)"
proof (cases "n < 32 \<or> n = 0x22 \<or> n = 0x5C")
  case False
  then have "char_of n \<noteq> CHR 0x5C" "char_of n \<noteq> CHR 0x22" "\<not> of_char (char_of n :: char) < (32 :: nat)"
    using assms by (auto dest: arg_cong [of _ _ "of_char :: char \<Rightarrow> nat"])
  with False show ?thesis by (subst unquote.simps) (auto simp: quote_char_def)
next
  case True
  show ?thesis
  proof (cases "n \<in> {0x22, 0x5C, 0x08, 0x09, 0x0A, 0x0C, 0x0D}")
    case True
    then show ?thesis
      by (elim insertE emptyE)
        (simp_all add: quote_char_def unquote.simps [of "_ # _ # t"] simple_escapes_def char_of_def bit_0)
  next
    case False
    with \<open>n < 32 \<or> n = 0x22 \<or> n = 0x5C\<close> have "quote_char n = unicode_escape n" "n < 32"
      by (auto simp: quote_char_def)
    moreover have "(@) [x] = (#) x" for x :: char by auto
    ultimately show ?thesis by (simp add: unquote_unicode read_unicode_def)
  qed
qed

lemma read_surrogate:
  assumes "(0xA0 :: nat) \<le> of_char d" "of_char d \<le> (0xBF :: nat)" "(0x80 :: nat) \<le> of_char e" "of_char e \<le> (0xBF :: nat)"
  shows "read_unicode (surrogate d e) = [CHR 0xED, d, e] \<and> surrogate d e < 65536"
proof -
  define x y where "x = (of_char d mod 64 :: nat)" and "y = (of_char e mod 64 :: nat)"
  have xy: "x < 64" "y < 64" by (simp_all add: x_def y_def)
  have "of_char d div 64 = (2 :: nat)" "of_char e div 64 = (2 :: nat)" using assms by (auto intro!: div_nat_eqI)
  then have d: "of_char d = 0x80 + x" "of_char e = 0x80 + y"
    using div_mult_mod_eq [of "of_char d" "64 :: nat"] div_mult_mod_eq [of "of_char e" "64 :: nat"]
    by (simp_all add: x_def y_def)
  have "surrogate d e = 0xD000 + 64 * x + y" by (simp add: surrogate_def x_def y_def)
  moreover have "(0xD000 + 64 * x + y) div 4096 = 13" "(0xD000 + 64 * x + y) div 64 mod 64 = x"
      "(0xD000 + 64 * x + y) mod 64 = y"
  proof -
    show "(0xD000 + 64 * x + y) div 4096 = 13" using xy by (intro div_nat_eqI) simp_all
    have "(0xD000 + 64 * x + y) div 64 = 832 + x" using xy by (intro div_nat_eqI) simp_all
    then show "(0xD000 + 64 * x + y) div 64 mod 64 = x" using xy by (auto intro!: mod_nat_eqI)
    have "0xD000 + 64 * x = 64 * (832 + x)" by simp
    then show "(0xD000 + 64 * x + y) mod 64 = y" using xy by (auto intro!: mod_nat_eqI)
  qed
  moreover have "char_of (0x80 + x) = d" "char_of (0x80 + y) = e" unfolding d [symmetric] by simp_all
  ultimately show ?thesis using xy
    by (simp add: read_unicode_def three_bytes_def char_of_def bit_0)
qed

lemma unquote_quote: "surrogates_whole bs \<Longrightarrow> unquote (quote bs) = Some bs"
proof (induction bs rule: quote.induct)
  case (1 c d e rest)
  then show ?case
    using unquote_unicode [of "surrogate d e"] read_surrogate [of d e] unquote_char [of "of_char c"]
    by (auto split: if_splits)
qed (auto simp: unquote_char unquote_char [of _ "[]", simplified] unquote.simps [of "[]"])

lemma surrogates_whole_Cons: "c \<noteq> CHR 0xED \<Longrightarrow> surrogates_whole (c # s) = surrogates_whole s"
proof (cases s)
  case (Cons d t)
  moreover assume "c \<noteq> CHR 0xED"
  ultimately show ?thesis by (cases t) simp_all
qed simp

lemma char_of_ED: "n < 256 \<Longrightarrow> char_of n = CHR 0xED \<longleftrightarrow> n = (0xED :: nat)"
  by (auto simp: char_of_eq_iff take_bit_eq_mod)

lemma surrogates_whole_utf8_of:
  assumes "scalar n"
  shows "surrogates_whole (utf8_of n @ s) = surrogates_whole s"
proof -
  have range: "n < 0xD800 \<or> 0xE000 \<le> n \<and> n < 0x110000" using assms by (simp add: scalar_def)
  have low: "0x80 + m mod 64 < 0xED" for m :: nat by (simp add: less_trans [OF add_strict_left_mono [OF mod_less_divisor]])
  consider "n < 0x80" | "0x80 \<le> n" "n < 0x800" | "0x800 \<le> n" "n < 0x10000" | "0x10000 \<le> n" by linarith
  then show ?thesis
  proof cases
    case 3
    have "0xE0 + n div 4096 < 240" using 3 by (simp add: div_less_iff_less_mult)
    moreover have "0x80 + n div 64 mod 64 < 0xA0" if "n div 4096 = 0xD"
    proof -
      have "n mod 4096 < 4096" by simp
      then have "n < 0xE000" using that div_mult_mod_eq [of n 4096] by linarith
      then have "n < 0xD800" using range by linarith
      moreover have "n div 64 = 64 * (n div 4096) + n div 64 mod 64"
        using div_mult2_eq [of n 64 64] div_mult_mod_eq [of "n div 64" 64] by simp
      ultimately show ?thesis using that by linarith
    qed
    moreover have "utf8_of n = [char_of (0xE0 + n div 4096), char_of (0x80 + n div 64 mod 64), char_of (0x80 + n mod 64)]"
      using 3 by (simp add: utf8_of_def)
    moreover have "char_of (0x80 + n div 64 mod 64) \<noteq> CHR 0xED" "char_of (0x80 + n mod 64) \<noteq> CHR 0xED"
      using low [of "n div 64"] low [of n] by (simp_all add: char_of_ED)
    ultimately show ?thesis
      by (cases "n div 4096 = 0xD") (simp_all add: surrogates_whole_Cons char_of_ED)
  next
    case 4
    have "0xF0 + n div 262144 < 256" using range by (auto simp: div_less_iff_less_mult)
    with 4 low [of "n div 4096"] low [of "n div 64"] low [of n] show ?thesis
      by (simp add: utf8_of_def surrogates_whole_Cons char_of_ED)
  qed (use low [of n] in \<open>simp_all add: utf8_of_def surrogates_whole_Cons char_of_ED div_less_iff_less_mult\<close>)
qed

lemma surrogates_whole_text: "utf8_valid s \<Longrightarrow> surrogates_whole s"
proof -
  assume "utf8_valid s"
  then obtain cs where cs: "\<forall>c \<in> set cs. scalar c" "s = string_of cs" by (auto simp: utf8_valid_iff)
  from cs(1) have "surrogates_whole (string_of cs)"
    by (induction cs) (simp_all add: surrogates_whole_utf8_of)
  with cs(2) show ?thesis by simp
qed

text \<open>C36 (roundtrip): an escaped body is a JSON string body, with no bare quotation mark, no control
  character and only escapes a strict reader knows, and reading it gives the bytes back. It is so
  for every text, and for every sequence of bytes in which surrogates are complete.\<close>

theorem json_escape_round_trip:
  assumes "utf8_valid bytes \<or> surrogates_whole bytes"
  shows "unquote (escape_json bytes) = Some bytes"
  using assms surrogates_whole_text [of bytes] unquote_quote [of bytes]
  by (auto simp: escape_json_def escape_appends_quote)

text \<open>C36: a quotation mark, a line end, a lone surrogate and a letter.\<close>

theorem json_escape_round_trip_witness:
  "unquote (escape_json [CHR 0x22, CHR 0x0A, CHR 0xED, CHR 0xA0, CHR 0x80, CHR ''x''])
     = Some [CHR 0x22, CHR 0x0A, CHR 0xED, CHR 0xA0, CHR 0x80, CHR ''x'']"
  by (rule json_escape_round_trip) simp

end
