(* ===== verification/Multipart.thy ===== *)
theory Multipart
  imports Utf8
begin

text \<open>
  \<open>multipart/form-data\<close> bodies, \<open>crates/ferrijs-fetch/src/multipart.rs\<close>: the serializer, the
  boundary of a content type, and the parser that reads a body back into fields.
\<close>

datatype multipart_value =
    TextValue string
  | FileValue (file_name: string) (file_type: string) (file_bytes: string)

record multipart_field =
  field_name :: string
  field_value :: multipart_value

abbreviation crlf :: string where
  "crlf \<equiv> [CHR 0x0D, CHR 0x0A]"

subsection \<open>Writing\<close>

definition dquote :: string where
  "dquote = [CHR 0x22]"

text \<open>The header block and the content of one part.\<close>

fun part_head :: "multipart_field \<Rightarrow> string" where
  "part_head f =
     ''Content-Disposition: form-data; name='' @ dquote @ field_name f @ dquote
     @ (case field_value f of
          TextValue text \<Rightarrow> []
        | FileValue filename content_type bytes \<Rightarrow>
            ''; filename='' @ dquote @ filename @ dquote @ crlf @ ''Content-Type: '' @ content_type)"

fun part_content :: "multipart_value \<Rightarrow> string" where
  "part_content (TextValue text) = text"
| "part_content (FileValue filename content_type bytes) = bytes"

definition serialize_field :: "string \<Rightarrow> multipart_field \<Rightarrow> string" where
  "serialize_field boundary f =
     ''--'' @ boundary @ crlf @ part_head f @ crlf @ crlf @ part_content (field_value f) @ crlf"

definition serialize_multipart :: "multipart_field list \<Rightarrow> string \<Rightarrow> string \<times> string" where
  "serialize_multipart fs boundary =
     (concat (map (serialize_field boundary) fs) @ ''--'' @ boundary @ ''--'' @ crlf,
      ''multipart/form-data; boundary='' @ boundary)"

subsection \<open>The boundary of a content type\<close>

definition unquote :: "string \<Rightarrow> string" where
  "unquote v =
     (case strip_prefix dquote v of
        None \<Rightarrow> v
      | Some r \<Rightarrow> (case strip_suffix dquote r of None \<Rightarrow> v | Some w \<Rightarrow> w))"

fun boundary_param :: "string list \<Rightarrow> string option" where
  "boundary_param [] = None"
| "boundary_param (param # ps) =
     (case split_once (CHR ''='') param of
        None \<Rightarrow> boundary_param ps
      | Some (k, v) \<Rightarrow>
          if \<not> eq_ignore_ascii_case (trim k) ''boundary'' then boundary_param ps
          else (let v = unquote (trim v) in if v \<noteq> [] then Some v else boundary_param ps))"

definition multipart_boundary_of :: "string \<Rightarrow> string option" where
  "multipart_boundary_of content_type =
     (case split_once (CHR '';'') content_type of
        None \<Rightarrow> None
      | Some (mime, params) \<Rightarrow>
          if \<not> eq_ignore_ascii_case (trim mime) ''multipart/form-data'' then None
          else boundary_param (split_char (CHR '';'') params))"

subsection \<open>Reading\<close>

fun find_sub :: "string \<Rightarrow> string \<Rightarrow> nat option" where
  "find_sub needle [] = (if needle = [] then Some 0 else None)"
| "find_sub needle (c # cs) =
     (if prefix needle (c # cs) then Some 0 else map_option Suc (find_sub needle cs))"

lemma find_sub_length: "find_sub n h = Some i \<Longrightarrow> i + length n \<le> length h"
  by (induction n h arbitrary: i rule: find_sub.induct)
     (auto split: if_splits dest: prefix_length_le)

text \<open>The loop of \<open>split_on\<close> after the first separator.\<close>

function split_rest :: "string \<Rightarrow> string \<Rightarrow> string list" where
  "split_rest sep h =
     (if sep = [] then [h]
      else case find_sub sep h of
        None \<Rightarrow> [h]
      | Some i \<Rightarrow> take i h # split_rest sep (drop (i + length sep) h))"
  by pat_completeness auto
termination
  by (relation "measure (\<lambda>(sep, h). length h)") (auto dest!: find_sub_length simp: neq_Nil_conv)

declare split_rest.simps [simp del]

definition split_on :: "string \<Rightarrow> string \<Rightarrow> string list" where
  "split_on h sep =
     (case find_sub sep h of
        None \<Rightarrow> []
      | Some first \<Rightarrow> split_rest sep (drop (first + length sep) h))"

text \<open>\<open>str::lines\<close>: the texts between line feeds, a carriage return before one dropped; nothing after
  a final line feed.\<close>

function lines :: "string \<Rightarrow> string list" where
  "lines s =
     (if s = [] then []
      else case split_once (CHR 0x0A) s of
        None \<Rightarrow> [s]
      | Some (l, r) \<Rightarrow>
          (case strip_suffix [CHR 0x0D] l of Some l' \<Rightarrow> l' | None \<Rightarrow> l) # lines r)"
  by pat_completeness auto
termination
  by (relation "measure length") (auto dest!: split_once_SomeD)

declare lines.simps [simp del]

fun header_param :: "string list \<Rightarrow> string \<Rightarrow> string option" where
  "header_param [] param = None"
| "header_param (piece # ps) param =
     (case split_once (CHR ''='') piece of
        None \<Rightarrow> header_param ps param
      | Some (k, v) \<Rightarrow>
          if eq_ignore_ascii_case (trim k) param then Some (unquote (trim v))
          else header_param ps param)"

text \<open>The parameters gathered from the lines of a part's head: name, file name, content type.\<close>

definition read_header_line ::
  "string option \<times> string option \<times> string option \<Rightarrow> string \<Rightarrow> string option \<times> string option \<times> string option" where
  "read_header_line s line =
     (let (name, filename, ctype) = s
      in case split_once (CHR '':'') line of
           None \<Rightarrow> s
         | Some (k, v) \<Rightarrow>
             if eq_ignore_ascii_case (trim k) ''content-type'' then (name, filename, Some (trim v))
             else if eq_ignore_ascii_case (trim k) ''content-disposition''
             then (header_param (split_char (CHR '';'') v) ''name'',
                   header_param (split_char (CHR '';'') v) ''filename'', ctype)
             else s)"

text \<open>What is left of a part between two delimiters: after \<open>--\<close> nothing, else without its line ends.\<close>

definition strip_part :: "string \<Rightarrow> string" where
  "strip_part part =
     (let part = (case strip_prefix ''--'' part of Some r \<Rightarrow> [] | None \<Rightarrow> part);
          part = (case strip_prefix crlf part of Some r \<Rightarrow> r | None \<Rightarrow> part)
      in case strip_suffix crlf part of Some r \<Rightarrow> r | None \<Rightarrow> part)"

definition parse_part :: "string \<Rightarrow> multipart_field option" where
  "parse_part raw =
     (let part = strip_part raw
      in if part = [] then None
         else case find_sub (crlf @ crlf) part of
           None \<Rightarrow> None
         | Some i \<Rightarrow>
             (let head = from_utf8_lossy (take i part); content = drop (i + 4) part;
                  (name, filename, ctype) = foldl read_header_line (None, None, None) (lines head)
              in case name of
                   None \<Rightarrow> None
                 | Some n \<Rightarrow>
                     Some \<lparr>field_name = n,
                       field_value =
                         (case filename of
                            Some f \<Rightarrow> FileValue f
                              (case ctype of Some t \<Rightarrow> t | None \<Rightarrow> ''application/octet-stream'') content
                          | None \<Rightarrow> TextValue (from_utf8_lossy content))\<rparr>))"

definition parse_multipart :: "string \<Rightarrow> string \<Rightarrow> multipart_field list" where
  "parse_multipart body boundary = List.map_filter parse_part (split_on body (''--'' @ boundary))"

subsection \<open>Boundaries\<close>

text \<open>\<open>{n:016x}\<close>: at least 16 hexadecimal digits, lower case.\<close>

definition hex_digit :: "nat \<Rightarrow> char" where
  "hex_digit d = (if d < 10 then char_of (48 + d) else char_of (87 + d))"

fun hex_digits :: "nat \<Rightarrow> nat \<Rightarrow> string" where
  "hex_digits 0 n = []"
| "hex_digits (Suc k) n = hex_digits k (n div 16) @ [hex_digit (n mod 16)]"

text \<open>The counter is an \<open>AtomicU64\<close>, so 16 digits are enough and \<open>fetch_add\<close> wraps.\<close>

definition multipart_boundary :: "64 word \<Rightarrow> string \<times> 64 word" where
  "multipart_boundary seq = (''----ferridriverBoundary'' @ hex_digits 16 (unat seq), seq + 1)"

subsection \<open>The parts of a body\<close>

text \<open>A text in which a separator does not occur and which ends in a character the separator does
  not have is found whole before the separator.\<close>

lemma find_sub_skip:
  assumes "\<not> sublist n a" "n \<noteq> []" "a = [] \<or> last a \<notin> set n"
  shows "find_sub n (a @ b) = map_option ((+) (length a)) (find_sub n b)"
  using assms
proof (induction a)
  case Nil
  then show ?case by (simp add: option.map_ident_strong)
next
  case (Cons c a)
  have no: "\<not> prefix n ((c # a) @ b)"
  proof
    assume "prefix n ((c # a) @ b)"
    then consider "prefix n (c # a)" | r where "n = (c # a) @ r"
      unfolding prefix_append by blast
    then show False
    proof cases
      case 1
      with Cons.prems(1) show False by (simp add: prefix_imp_sublist)
    next
      case 2
      then have "last (c # a) \<in> set n" by (simp only: set_append) simp
      with Cons.prems(3) show False by simp
    qed
  qed
  have "\<not> sublist n a" "a = [] \<or> last a \<notin> set n"
    using Cons.prems by (auto simp: sublist_Cons_right)
  with no Cons.IH Cons.prems(2) show ?case
    by (simp add: option.map_comp comp_def)
qed

lemma find_sub_here: "n \<noteq> [] \<Longrightarrow> find_sub n (n @ b) = Some 0"
  by (cases n) auto

lemma split_rest_concat:
  assumes "sep \<noteq> []" "\<forall>p \<in> set ps. \<not> sublist sep p \<and> (p = [] \<or> last p \<notin> set sep)"
    and "\<not> sublist sep z"
  shows "split_rest sep (concat (map (\<lambda>p. p @ sep) ps) @ z) = ps @ [z]"
  using assms(2)
proof (induction ps)
  case Nil
  have "find_sub sep z = None"
    using assms(3)
    by (induction sep z rule: find_sub.induct) (auto simp: sublist_Cons_right)
  with assms(1) show ?case by (simp add: split_rest.simps [of sep z])
next
  case (Cons p ps)
  let ?rest = "concat (map (\<lambda>p. p @ sep) ps) @ z"
  have "find_sub sep (p @ sep @ ?rest) = Some (length p)"
    using Cons.prems assms(1) by (simp add: find_sub_skip find_sub_here)
  with Cons assms(1) show ?case by (simp add: split_rest.simps [of sep "p @ sep @ ?rest"])
qed

text \<open>A body is a delimiter, the parts between delimiters, and the closing line.\<close>

definition render_part :: "multipart_field \<Rightarrow> string" where
  "render_part f = crlf @ part_head f @ crlf @ crlf @ part_content (field_value f) @ crlf"

lemma serialize_parts:
  "concat (map (serialize_field b) fs) @ ''--'' @ b @ z
     = (''--'' @ b) @ concat (map (\<lambda>p. p @ ''--'' @ b) (map render_part fs)) @ z"
proof (induction fs)
  case (Cons f fs)
  then show ?case by (simp add: serialize_field_def render_part_def)
qed simp

lemma last_render_part: "last (render_part f) = CHR 0x0A"
  by (simp add: render_part_def)

lemma split_body:
  assumes "b \<noteq> []" "CHR 0x0D \<notin> set b" "CHR 0x0A \<notin> set b"
    and "\<forall>f \<in> set fs. \<not> sublist (''--'' @ b) (render_part f)"
  shows "split_on (fst (serialize_multipart fs b)) (''--'' @ b) = map render_part fs @ [''--'' @ crlf]"
proof -
  let ?d = "''--'' @ b"
  have "\<not> sublist ?d (''--'' @ crlf)"
    using assms(1,2) by (cases b) (auto simp: sublist_Cons_right)
  then have "split_rest ?d (concat (map (\<lambda>p. p @ ?d) (map render_part fs)) @ ''--'' @ crlf)
      = map render_part fs @ [''--'' @ crlf]"
    using assms by (intro split_rest_concat) (auto simp: last_render_part)
  moreover have "fst (serialize_multipart fs b)
      = ?d @ concat (map (\<lambda>p. p @ ?d) (map render_part fs)) @ ''--'' @ crlf"
    by (simp only: serialize_multipart_def fst_conv serialize_parts)
  ultimately show ?thesis by (simp only: split_on_def find_sub_here) (simp add: find_sub_here)
qed

subsection \<open>Reading a part back\<close>

text \<open>What a field's texts must be for its part to be read back: a name and a file name without a
  semicolon or a line end, a content type without line ends or blanks around it, and texts that are
  UTF-8, as every \<open>String\<close> is.\<close>

definition plain_text :: "string \<Rightarrow> bool" where
  "plain_text s = (utf8_valid s \<and> CHR 0x0D \<notin> set s \<and> CHR 0x0A \<notin> set s)"

fun field_plain :: "multipart_field \<Rightarrow> bool" where
  "field_plain f =
     (plain_text (field_name f) \<and> CHR '';'' \<notin> set (field_name f)
      \<and> (case field_value f of
           TextValue text \<Rightarrow> utf8_valid text
         | FileValue filename content_type bytes \<Rightarrow>
             plain_text filename \<and> CHR '';'' \<notin> set filename \<and> plain_text content_type \<and> trimmed content_type))"

lemma white_space_no_quote:
  "w \<in> set white_space \<Longrightarrow> w \<noteq> [] \<and> hd w \<noteq> CHR 0x22 \<and> last w \<noteq> CHR 0x22"
  by (auto simp: eval_simps)

lemma trim_quoted: "trim (dquote @ s @ dquote) = dquote @ s @ dquote"
proof (rule trimmed_trim, unfold trimmed_def, intro ballI conjI notI)
  fix w assume w: "w \<in> set white_space"
  note nq = white_space_no_quote [OF w]
  { assume "prefix w (dquote @ s @ dquote)"
    with nq show False by (cases w) (auto simp: dquote_def) }
  { assume "suffix w (dquote @ s @ dquote)"
    then obtain v where "dquote @ s @ dquote = v @ w" by (auto simp: suffix_def)
    then have "last (dquote @ s @ dquote) = last w" using nq by simp
    with nq show False by (simp add: dquote_def) }
qed

lemma unquote_quoted: "unquote (dquote @ s @ dquote) = s"
  by (simp add: unquote_def)

lemma header_names:
  "trim '' name'' = ''name''" "trim '' filename'' = ''filename''"
  "trim ''Content-Disposition'' = ''Content-Disposition''" "trim ''Content-Type'' = ''Content-Type''"
proof -
  have "trim ''name'' = ''name''" "trim ''filename'' = ''filename''"
    by (auto intro!: trimmed_trim simp: eval_simps)
  then show "trim '' name'' = ''name''" "trim '' filename'' = ''filename''" by (simp_all add: trim_blank)
  show "trim ''Content-Disposition'' = ''Content-Disposition''" "trim ''Content-Type'' = ''Content-Type''"
    by (auto intro!: trimmed_trim simp: eval_simps)
qed

lemma header_names_eq:
  "\<not> eq_ignore_ascii_case ''Content-Disposition'' ''content-type''"
  "eq_ignore_ascii_case ''Content-Disposition'' ''content-disposition''"
  "eq_ignore_ascii_case ''Content-Type'' ''content-type''"
  "\<not> eq_ignore_ascii_case ''filename'' ''name''" "\<not> eq_ignore_ascii_case ''name'' ''filename''"
  by (simp_all add: eq_ignore_ascii_case_def eval_simps)

lemma split_eq_piece: "CHR ''='' \<notin> set k \<Longrightarrow> split_once (CHR ''='') (k @ ''='' @ v) = Some (k, v)"
  by simp

lemma split_eq_name:
  "split_once (CHR ''='') ('' name='' @ v) = Some ('' name'', v)"
  "split_once (CHR ''='') ('' filename='' @ v) = Some ('' filename'', v)"
  by simp_all

lemma header_param_name:
  "header_param ['' form-data'', '' name='' @ dquote @ n @ dquote] ''name'' = Some n"
  "header_param ['' form-data'', '' name='' @ dquote @ n @ dquote] ''filename'' = None"
  "header_param ['' form-data'', '' name='' @ dquote @ n @ dquote, '' filename='' @ dquote @ m @ dquote] ''name''
     = Some n"
  "header_param ['' form-data'', '' name='' @ dquote @ n @ dquote, '' filename='' @ dquote @ m @ dquote]
     ''filename'' = Some m"
  by (simp_all only: header_param.simps split_eq_name option.case prod.case header_names header_names_eq
      trim_quoted unquote_quoted) (simp_all add: header_names_eq)

lemma disposition_line:
  "split_once (CHR '':'') (''Content-Disposition: form-data; name='' @ v)
     = Some (''Content-Disposition'', '' form-data; name='' @ v)"
  "split_once (CHR '':'') (''Content-Type: '' @ v) = Some (''Content-Type'', '' '' @ v)"
  by simp_all

lemma param_no_sep:
  "CHR '';'' \<notin> set n \<Longrightarrow> CHR '';'' \<notin> set ('' name='' @ dquote @ n @ dquote)"
  "CHR '';'' \<notin> set n \<Longrightarrow> CHR '';'' \<notin> set ('' filename='' @ dquote @ n @ dquote)"
  by (auto simp: dquote_def)

lemma split_params_text:
  assumes "CHR '';'' \<notin> set n"
  shows "split_char (CHR '';'') ('' form-data; name='' @ dquote @ n @ dquote)
           = ['' form-data'', '' name='' @ dquote @ n @ dquote]"
  using split_char_append [of "CHR '';''" "'' form-data''" "'' name='' @ dquote @ n @ dquote"]
    split_char_no_sep [OF param_no_sep(1) [OF assms]] by simp

lemma split_params_file:
  assumes "CHR '';'' \<notin> set n" "CHR '';'' \<notin> set m"
  shows "split_char (CHR '';'') ('' form-data; name='' @ dquote @ n @ dquote @ ''; filename='' @ dquote @ m @ dquote)
           = ['' form-data'', '' name='' @ dquote @ n @ dquote, '' filename='' @ dquote @ m @ dquote]"
  using split_char_append [of "CHR '';''" "'' form-data''"
        "'' name='' @ dquote @ n @ dquote @ ''; filename='' @ dquote @ m @ dquote"]
      split_char_append [OF param_no_sep(1) [OF assms(1)], of "'' filename='' @ dquote @ m @ dquote"]
      split_char_no_sep [OF param_no_sep(2) [OF assms(2)]] by simp

lemmas read_line_simps = read_header_line_def Let_def prod.case disposition_line option.case
  header_names header_names_eq header_param_name if_True if_False

lemma read_head_text:
  assumes "CHR '';'' \<notin> set n"
  shows "read_header_line (x, y, t) (''Content-Disposition: form-data; name='' @ dquote @ n @ dquote)
       = (Some n, None, t)"
  by (simp only: read_line_simps split_params_text [OF assms])

lemma read_head_file:
  assumes "CHR '';'' \<notin> set n" "CHR '';'' \<notin> set m"
  shows "read_header_line (x, y, t)
       (''Content-Disposition: form-data; name='' @ dquote @ n @ dquote @ ''; filename='' @ dquote @ m @ dquote)
       = (Some n, Some m, t)"
  by (simp only: read_line_simps split_params_file [OF assms])

lemma read_content_type:
  "trimmed c \<Longrightarrow> read_header_line (x, y, t) (''Content-Type: '' @ c) = (x, y, Some c)"
  by (simp only: read_line_simps) (simp add: trim_blank trimmed_trim)

lemma lines_one: "CHR 0x0A \<notin> set l \<Longrightarrow> l \<noteq> [] \<Longrightarrow> lines l = [l]"
proof -
  assume "CHR 0x0A \<notin> set l" "l \<noteq> []"
  moreover from this have "split_once (CHR 0x0A) l = None" by simp
  ultimately show ?thesis by (simp add: lines.simps [of l] del: split_once_None_iff)
qed

lemma lines_two:
  assumes "CHR 0x0A \<notin> set a" "CHR 0x0A \<notin> set b" "b \<noteq> []"
  shows "lines (a @ crlf @ b) = [a, b]"
proof -
  have "split_once (CHR 0x0A) ((a @ [CHR 0x0D]) @ CHR 0x0A # b) = Some (a @ [CHR 0x0D], b)"
    using assms(1) by (intro split_once_append) simp
  then show ?thesis
    using lines_one [OF assms(2,3)] by (simp add: lines.simps [of "a @ CHR 0x0D # CHR 0x0A # b"])
qed

text \<open>A text without line ends is found whole before the blank line.\<close>

lemma find_blank_line_skip:
  assumes "CHR 0x0D \<notin> set l" "CHR 0x0A \<notin> set l"
  shows "find_sub (crlf @ crlf) (l @ r) = map_option ((+) (length l)) (find_sub (crlf @ crlf) r)"
proof (rule find_sub_skip)
  show "\<not> sublist (crlf @ crlf) l"
    using assms(1) by (auto simp: sublist_def)
  show "l = [] \<or> last l \<notin> set (crlf @ crlf)"
  proof (cases "l = []")
    case False
    then have "last l \<in> set l" by simp
    with assms have "last l \<noteq> CHR 0x0D" "last l \<noteq> CHR 0x0A" by metis+
    then show ?thesis by simp
  qed simp
qed simp

lemma head_lines_plain:
  assumes "plain_text n" "plain_text m" "plain_text c"
  shows "plain_text (''Content-Disposition: form-data; name='' @ dquote @ n @ dquote)"
    and "plain_text (''Content-Disposition: form-data; name='' @ dquote @ n @ dquote
           @ ''; filename='' @ dquote @ m @ dquote)"
    and "plain_text (''Content-Type: '' @ c)"
proof -
  have lits: "utf8_valid ''Content-Disposition: form-data; name=''" "utf8_valid dquote"
    "utf8_valid ''; filename=''" "utf8_valid ''Content-Type: ''"
    by (auto intro!: utf8_valid_ascii simp: dquote_def)
  show "plain_text (''Content-Disposition: form-data; name='' @ dquote @ n @ dquote)"
    "plain_text (''Content-Disposition: form-data; name='' @ dquote @ n @ dquote
       @ ''; filename='' @ dquote @ m @ dquote)"
    "plain_text (''Content-Type: '' @ c)"
    using assms unfolding plain_text_def
    by (auto intro!: utf8_valid_append lits simp del: append_Cons append_Nil)
       (auto simp: dquote_def)
qed

lemma utf8_crlf: "utf8_valid crlf"
  by (rule utf8_valid_ascii) simp

definition head_fields :: "string \<Rightarrow> string option \<times> string option \<times> string option" where
  "head_fields head = foldl read_header_line (None, None, None) (lines (from_utf8_lossy head))"

text \<open>The head of a plain field: where it ends, and what it says.\<close>

lemma part_head_read:
  assumes "field_plain f"
  shows "find_sub (crlf @ crlf) (part_head f @ crlf @ crlf @ r) = Some (length (part_head f))"
    and "head_fields (part_head f) = (Some (field_name f),
      (case field_value f of TextValue _ \<Rightarrow> None | FileValue m _ _ \<Rightarrow> Some m),
      (case field_value f of TextValue _ \<Rightarrow> None | FileValue _ c _ \<Rightarrow> Some c))"
proof -
  let ?l = "''Content-Disposition: form-data; name='' @ dquote @ field_name f @ dquote"
  have "find_sub (crlf @ crlf) (part_head f @ crlf @ crlf @ r) = Some (length (part_head f))
    \<and> head_fields (part_head f) = (Some (field_name f),
      (case field_value f of TextValue _ \<Rightarrow> None | FileValue m _ _ \<Rightarrow> Some m),
      (case field_value f of TextValue _ \<Rightarrow> None | FileValue _ c _ \<Rightarrow> Some c))"
  proof (cases "field_value f")
    case (TextValue s)
    have head: "part_head f = ?l" using TextValue by simp
    have plain: "plain_text ?l" and semi: "CHR '';'' \<notin> set (field_name f)"
      using assms TextValue head_lines_plain(1) [of "field_name f" "field_name f" "field_name f"] by auto
    have "find_sub (crlf @ crlf) (?l @ crlf @ crlf @ r) = Some (length ?l)"
      using plain find_blank_line_skip [of ?l "crlf @ crlf @ r"] find_sub_here [of "crlf @ crlf" r]
      by (simp only: plain_text_def) simp
    moreover have "head_fields ?l = (Some (field_name f), None, None)"
    proof -
      have "lines ?l = [?l]" by (rule lines_one) (use plain in \<open>simp_all add: plain_text_def\<close>)
      moreover have "from_utf8_lossy ?l = ?l"
        by (rule from_utf8_lossy_valid) (use plain in \<open>simp only: plain_text_def\<close>)
      ultimately show ?thesis by (simp only: head_fields_def foldl.simps read_head_text [OF semi])
    qed
    ultimately show ?thesis unfolding head TextValue by simp
  next
    case (FileValue m c bytes)
    let ?l1 = "''Content-Disposition: form-data; name='' @ dquote @ field_name f @ dquote
       @ ''; filename='' @ dquote @ m @ dquote" and ?l2 = "''Content-Type: '' @ c"
    have head: "part_head f = ?l1 @ crlf @ ?l2" using FileValue by simp
    have plain: "plain_text ?l1" "plain_text ?l2" and semi: "CHR '';'' \<notin> set (field_name f)" "CHR '';'' \<notin> set m"
      and ct: "trimmed c"
      using assms FileValue head_lines_plain(2,3) [of "field_name f" m c] by auto
    note pl = plain [unfolded plain_text_def]
    have valid: "utf8_valid (?l1 @ crlf @ ?l2)"
      using utf8_valid_append [of ?l1 "crlf @ ?l2"] utf8_valid_append [of crlf ?l2] utf8_crlf pl by blast
    have "find_sub (crlf @ crlf) (crlf @ ?l2 @ crlf @ crlf @ r)
        = map_option ((+) 2) (find_sub (crlf @ crlf) (?l2 @ crlf @ crlf @ r))"
      by (simp add: option.map_comp comp_def)
    then have "find_sub (crlf @ crlf) ((?l1 @ crlf @ ?l2) @ crlf @ crlf @ r) = Some (length (?l1 @ crlf @ ?l2))"
      using find_blank_line_skip [of ?l1 "crlf @ ?l2 @ crlf @ crlf @ r"]
        find_blank_line_skip [of ?l2 "crlf @ crlf @ r"] find_sub_here [of "crlf @ crlf" r] pl
      by (simp only: append_assoc) simp
    moreover have "head_fields (?l1 @ crlf @ ?l2) = (Some (field_name f), Some m, Some c)"
    proof -
      have "lines (?l1 @ crlf @ ?l2) = [?l1, ?l2]" by (rule lines_two) (use pl in simp_all)
      then show ?thesis
        by (simp only: head_fields_def from_utf8_lossy_valid [OF valid] foldl.simps
            read_head_file [OF semi] read_content_type [OF ct])
    qed
    ultimately show ?thesis unfolding head FileValue by simp
  qed
  then show "find_sub (crlf @ crlf) (part_head f @ crlf @ crlf @ r) = Some (length (part_head f))"
    "head_fields (part_head f) = (Some (field_name f),
      (case field_value f of TextValue _ \<Rightarrow> None | FileValue m _ _ \<Rightarrow> Some m),
      (case field_value f of TextValue _ \<Rightarrow> None | FileValue _ c _ \<Rightarrow> Some c))" by auto
qed

text \<open>A part between two delimiters, and the text after the last one.\<close>

lemma strip_render:
  "strip_part (render_part f) = part_head f @ crlf @ crlf @ part_content (field_value f)"
proof -
  have "strip_suffix crlf ((part_head f @ crlf @ crlf @ part_content (field_value f)) @ crlf)
      = Some (part_head f @ crlf @ crlf @ part_content (field_value f))"
    by (rule strip_suffix_append)
  then show ?thesis by (simp add: strip_part_def render_part_def del: part_head.simps)
qed

lemma parse_render:
  assumes "field_plain f"
  shows "parse_part (render_part f) = Some f"
proof -
  let ?c = "part_content (field_value f)"
  note head = part_head_read [OF assms]
  have "utf8_valid t" if "field_value f = TextValue t" for t using assms that by simp
  then have content: "(case (case field_value f of TextValue _ \<Rightarrow> None | FileValue m _ _ \<Rightarrow> Some m) of
        Some fn \<Rightarrow> FileValue fn (case (case field_value f of TextValue _ \<Rightarrow> None | FileValue _ c _ \<Rightarrow> Some c) of
           Some t \<Rightarrow> t | None \<Rightarrow> ''application/octet-stream'') ?c
      | None \<Rightarrow> TextValue (from_utf8_lossy ?c)) = field_value f"
    by (cases "field_value f") (simp_all add: from_utf8_lossy_valid)
  have drop: "drop (length (part_head f) + 4) (part_head f @ crlf @ crlf @ ?c) = ?c"
    by (simp del: part_head.simps)
  show ?thesis
    using head(1) [of ?c] head(2) content drop
    by (simp add: parse_part_def strip_render head_fields_def Let_def del: part_head.simps)
qed

lemma parse_closing: "parse_part (''--'' @ crlf) = None"
  by (simp add: parse_part_def strip_part_def strip_suffix_def suffix_def)

subsection \<open>Properties\<close>

text \<open>C22 (form data): a form serialized with a boundary that occurs in none of its parts reads back as
  the same fields, text and files, in the same order, file contents byte for byte.\<close>

theorem multipart_round_trip:
  assumes "b \<noteq> []" "CHR 0x0D \<notin> set b" "CHR 0x0A \<notin> set b"
    and "\<forall>f \<in> set fs. field_plain f \<and> \<not> sublist (''--'' @ b) (render_part f)"
  shows "parse_multipart (fst (serialize_multipart fs b)) b = fs"
proof -
  have "split_on (fst (serialize_multipart fs b)) (''--'' @ b) = map render_part fs @ [''--'' @ crlf]"
    using assms by (intro split_body) auto
  moreover have "List.map_filter parse_part (map render_part fs) = fs"
    using assms(4) by (induction fs) (auto simp: List.map_filter_simps parse_render simp del: field_plain.simps)
  ultimately show ?thesis
    using parse_closing by (simp add: parse_multipart_def List.map_filter_def)
qed

theorem multipart_round_trip_witness:
  "let fs = [\<lparr>field_name = ''a'', field_value = TextValue ''x=1''\<rparr>,
             \<lparr>field_name = ''f'', field_value = FileValue ''n.bin'' ''t/p'' [CHR 0xFF, CHR 0x0D, CHR 0x0A]\<rparr>]
   in parse_multipart (fst (serialize_multipart fs ''B1'')) ''B1'' = fs"
proof -
  let ?fs = "[\<lparr>field_name = ''a'', field_value = TextValue ''x=1''\<rparr>,
             \<lparr>field_name = ''f'', field_value = FileValue ''n.bin'' ''t/p'' [CHR 0xFF, CHR 0x0D, CHR 0x0A]\<rparr>]"
  have "utf8_valid ''a''" "utf8_valid ''x=1''" "utf8_valid ''f''" "utf8_valid ''n.bin''" "utf8_valid ''t/p''"
    by (auto intro!: utf8_valid_ascii)
  moreover have "trimmed ''t/p''" by (simp add: eval_simps)
  ultimately have "\<forall>f \<in> set ?fs. field_plain f" by (simp add: plain_text_def)
  moreover have "\<forall>f \<in> set ?fs. \<not> sublist (''--'' @ ''B1'') (render_part f)"
    by (simp add: render_part_def dquote_def sublist_Cons_right)
  ultimately show ?thesis using multipart_round_trip [of "''B1''" ?fs] by simp
qed

text \<open>
  The parser does not read quoted parameters as such: a semicolon inside a quoted file name ends
  it, so the file's name comes back cut off, with the quote.
\<close>

lemma semicolon_in_name_cut:
  "header_param (split_char (CHR '';'') ('' name='' @ dquote @ ''a;b'' @ dquote)) ''name''
     = Some (dquote @ ''a'')"
proof -
  have pieces: "split_char (CHR '';'') ('' name='' @ dquote @ ''a;b'' @ dquote)
      = ['' name='' @ dquote @ ''a'', ''b'' @ dquote]" by (simp add: dquote_def)
  have "trim (dquote @ ''a'') = dquote @ ''a''"
    by (rule trimmed_trim) (simp add: dquote_def eval_simps)
  then show ?thesis
    unfolding pieces
    by (simp only: header_param.simps split_eq_name option.case prod.case header_names)
       (simp add: dquote_def unquote_def strip_suffix_def suffix_def)
qed

end
