(* ===== verification/Node_Path.thy ===== *)
theory Node_Path
  imports Prelude
begin

text \<open>
  \<open>node:path\<close>, \<open>crates/ferrijs-std/src/node/path.rs\<close>: paths as texts, normalised in one pass over
  one buffer that a \<open>..\<close> truncates. The reference is a stack of segments; the buffer is shown to
  be its rendering throughout.
\<close>

subsection \<open>Normalising\<close>

text \<open>
  One turn of the loop of \<open>normalize_into\<close>. The state is the buffer and the offsets at which the
  kept segments begin, the last one first. \<open>body\<close> is the buffer's length before the first segment.
\<close>

definition norm_step :: "bool \<Rightarrow> nat \<Rightarrow> string \<times> nat list \<Rightarrow> string \<Rightarrow> string \<times> nat list" where
  "norm_step absolute body s seg =
     (let (out, starts) = s
      in if seg = [] \<or> seg = ''.'' then (out, starts)
         else if seg = ''..'' then
           (case starts of
              start # rest \<Rightarrow> (take start out, rest)
            | [] \<Rightarrow>
                if \<not> absolute then ((if body < length out then out @ ''/'' else out) @ ''..'', [])
                else (out, []))
         else ((if body < length out then out @ ''/'' else out) @ seg, length out # starts))"

definition normalize_into :: "string list \<Rightarrow> bool \<Rightarrow> bool \<Rightarrow> string \<Rightarrow> string" where
  "normalize_into parts absolute trailing buf =
     (let root = length buf;
          buf = (if absolute then buf @ ''/'' else buf);
          body = length buf;
          (out, starts) = foldl (norm_step absolute body) (buf, []) parts
      in if length out = body then (if \<not> absolute then take root out @ ''.'' else out)
         else if trailing then out @ ''/'' else out)"

definition normalize_str :: "string \<Rightarrow> string" where
  "normalize_str p =
     normalize_into (split_char (CHR ''/'') p) (prefix ''/'' p) (1 < length p \<and> suffix ''/'' p) []"

definition join_segments :: "string list \<Rightarrow> string" where
  "join_segments segments =
     (let present = filter (\<lambda>s. s \<noteq> []) segments
      in case present of
           [] \<Rightarrow> ''.''
         | first # _ \<Rightarrow>
             normalize_into (concat (map (split_char (CHR ''/'')) present)) (prefix ''/'' first)
               (1 < length (last present) \<and> suffix ''/'' (last present)) [])"

text \<open>The walk of \<open>resolve_segments\<close> from the right: the parts taken, the leftmost first, and whether
  one of them is absolute.\<close>

fun take_until_absolute :: "string list \<Rightarrow> string list \<Rightarrow> string list \<times> bool" where
  "take_until_absolute [] taken = (taken, False)"
| "take_until_absolute (seg # rest) taken =
     (if seg = [] then take_until_absolute rest taken
      else if prefix ''/'' seg then (seg # taken, True)
      else take_until_absolute rest (seg # taken))"

definition resolve_segments :: "string \<Rightarrow> string list \<Rightarrow> string" where
  "resolve_segments cwd segments =
     (let (parts, absolute) = take_until_absolute (rev segments) [];
          (parts, absolute) = (if \<not> absolute then (cwd # parts, prefix ''/'' cwd) else (parts, absolute))
      in normalize_into (concat (map (split_char (CHR ''/'')) parts)) absolute False [])"

subsection \<open>Taking apart and putting together\<close>

definition dirname_str :: "string \<Rightarrow> string" where
  "dirname_str p =
     (let trimmed = trim_end_matches (CHR ''/'') p
      in case rsplit_once (CHR ''/'') trimmed of
           Some (before, _) \<Rightarrow> if before = [] then ''/'' else before
         | None \<Rightarrow> if prefix ''/'' p then ''/'' else ''.'')"

definition basename_of :: "string \<Rightarrow> string" where
  "basename_of p =
     (let trimmed = trim_end_matches (CHR ''/'') p
      in case rsplit_once (CHR ''/'') trimmed of Some (_, after) \<Rightarrow> after | None \<Rightarrow> trimmed)"

definition basename_str :: "string \<Rightarrow> string option \<Rightarrow> string" where
  "basename_str p ext =
     (let base = basename_of p
      in case ext of
           Some e \<Rightarrow> if length e < length base \<and> suffix e base then take (length base - length e) base else base
         | None \<Rightarrow> base)"

definition extname_of :: "string \<Rightarrow> string" where
  "extname_of base =
     (case rsplit_once (CHR ''.'') base of
        Some (before, after) \<Rightarrow> if before \<noteq> [] then CHR ''.'' # after else []
      | None \<Rightarrow> [])"

definition extname_str :: "string \<Rightarrow> string" where
  "extname_str p = extname_of (basename_of p)"

fun common_prefix :: "string list \<Rightarrow> string list \<Rightarrow> nat" where
  "common_prefix (x # xs) (y # ys) = (if x = y then Suc (common_prefix xs ys) else 0)"
| "common_prefix _ _ = 0"

definition relative_str :: "string \<Rightarrow> string \<Rightarrow> string" where
  "relative_str from_path to_path =
     (let fp = filter (\<lambda>s. s \<noteq> []) (split_char (CHR ''/'') (normalize_str from_path));
          tp = filter (\<lambda>s. s \<noteq> []) (split_char (CHR ''/'') (normalize_str to_path));
          common = common_prefix fp tp
      in join_with ''/'' (replicate (length fp - common) ''..'' @ drop common tp))"

text \<open>\<open>path.relative\<close> as the module exports it.\<close>

definition path_relative :: "string \<Rightarrow> string \<Rightarrow> string \<Rightarrow> string" where
  "path_relative cwd from_path to_path =
     relative_str (resolve_segments cwd [from_path]) (resolve_segments cwd [to_path])"

record parsed_path =
  pp_root :: string
  pp_dir :: string
  pp_base :: string
  pp_ext :: string
  pp_name :: string

definition parse_object :: "string \<Rightarrow> parsed_path" where
  "parse_object p =
     (let base = basename_of p; ext = extname_of base
      in \<lparr>pp_root = (if prefix ''/'' p then ''/'' else []),
          pp_dir = (case rsplit_once (CHR ''/'') (trim_end_matches (CHR ''/'') p) of
                      Some (before, _) \<Rightarrow> if before = [] then ''/'' else before
                    | None \<Rightarrow> []),
          pp_base = base, pp_ext = ext, pp_name = take (length base - length ext) base\<rparr>)"

definition format_str :: "string \<Rightarrow> string \<Rightarrow> string \<Rightarrow> string \<Rightarrow> string \<Rightarrow> string" where
  "format_str root dir base name ext =
     (let base = (if base = [] then
                    name @ (if ext \<noteq> [] \<and> \<not> prefix ''.'' ext then ''.'' else []) @ ext
                  else base)
      in if dir = [] then root @ base
         else if dir = ''/'' then ''/'' @ base
         else dir @ ''/'' @ base)"

subsection \<open>The reference: a stack of segments\<close>

text \<open>The stack has its last segment first. \<open>render_path\<close> writes segments, in order, as a path.\<close>

fun seg_step :: "bool \<Rightarrow> string list \<Rightarrow> string \<Rightarrow> string list" where
  "seg_step absolute stk seg =
     (if seg = [] \<or> seg = ''.'' then stk
      else if seg = ''..'' then
        (case stk of
           [] \<Rightarrow> if absolute then [] else [''..'']
         | s # rest \<Rightarrow> if s \<noteq> ''..'' then rest else if absolute then stk else ''..'' # stk)
      else seg # stk)"

declare seg_step.simps [simp del]

definition render_path :: "bool \<Rightarrow> bool \<Rightarrow> string list \<Rightarrow> string" where
  "render_path absolute trailing segs =
     (if segs = [] then (if absolute then ''/'' else ''.'')
      else (if absolute then ''/'' else []) @ join_with ''/'' segs @ (if trailing then ''/'' else []))"

text \<open>The offsets the buffer keeps: of the segments above the lowest ones that are \<open>..\<close>.\<close>

fun offsets :: "nat \<Rightarrow> string list \<Rightarrow> nat list" where
  "offsets body [] = []"
| "offsets body (s # stk) =
     (if s = ''..'' then [] else (body + length (join_with ''/'' (rev stk))) # offsets body stk)"

definition stack_ok :: "bool \<Rightarrow> string list \<Rightarrow> bool" where
  "stack_ok absolute stk \<longleftrightarrow> [] \<notin> set stk \<and> (absolute \<longrightarrow> ''..'' \<notin> set stk)"

lemma join_with_snoc: "join_with sep (xs @ [x]) = (if xs = [] then x else join_with sep xs @ sep @ x)"
  by (induction sep xs rule: join_with.induct) auto

lemma join_with_snoc2: "join_with sep (xs @ [x, y]) = join_with sep (xs @ [x]) @ sep @ y"
  using join_with_snoc [of sep "xs @ [x]" y] by simp

lemma join_with_eq_Nil: "[] \<notin> set xs \<Longrightarrow> join_with sep xs = [] \<longleftrightarrow> xs = []"
  by (induction sep xs rule: join_with.induct) auto

lemma stack_ok_step: "stack_ok absolute stk \<Longrightarrow> stack_ok absolute (seg_step absolute stk seg)"
  by (auto simp: stack_ok_def seg_step.simps split: list.splits if_splits)

lemma norm_step_refines:
  assumes "stack_ok absolute stk"
  shows "norm_step absolute (length b) (b @ join_with ''/'' (rev stk), offsets (length b) stk) seg
    = (b @ join_with ''/'' (rev (seg_step absolute stk seg)), offsets (length b) (seg_step absolute stk seg))"
proof -
  have len: "length b < length (b @ join_with ''/'' (rev stk)) \<longleftrightarrow> stk \<noteq> []"
    using assms join_with_eq_Nil [of "rev stk" "''/''"] by (auto simp: stack_ok_def)
  show ?thesis
    using assms len
    by (cases stk) (auto simp: norm_step_def seg_step.simps stack_ok_def join_with_snoc join_with_snoc2
        split: if_splits)
qed

lemma foldl_norm_refines:
  assumes "stack_ok absolute stk"
  shows "foldl (norm_step absolute (length b)) (b @ join_with ''/'' (rev stk), offsets (length b) stk) parts
    = (let stk' = foldl (seg_step absolute) stk parts
       in (b @ join_with ''/'' (rev stk'), offsets (length b) stk'))"
  using assms
  by (induction parts arbitrary: stk) (auto simp: Let_def norm_step_refines stack_ok_step)

lemma stack_ok_foldl: "stack_ok absolute stk \<Longrightarrow> stack_ok absolute (foldl (seg_step absolute) stk parts)"
  by (induction parts arbitrary: stk) (auto simp: stack_ok_step)

lemma normalize_into_refines:
  "normalize_into parts absolute trailing buf
     = buf @ render_path absolute trailing (rev (foldl (seg_step absolute) [] parts))"
proof -
  let ?b = "if absolute then buf @ ''/'' else buf"
  let ?stk = "foldl (seg_step absolute) [] parts"
  have "stack_ok absolute []" by (simp add: stack_ok_def)
  from foldl_norm_refines [OF this, of ?b parts]
  have run: "foldl (norm_step absolute (length ?b)) (?b, []) parts
      = (?b @ join_with ''/'' (rev ?stk), offsets (length ?b) ?stk)" by (simp add: Let_def)
  have "[] \<notin> set ?stk" using stack_ok_foldl [of absolute "[]" parts] by (simp add: stack_ok_def)
  then have "join_with ''/'' (rev ?stk) = [] \<longleftrightarrow> ?stk = []" using join_with_eq_Nil [of "rev ?stk"] by simp
  with run show ?thesis by (simp add: normalize_into_def Let_def render_path_def)
qed

subsection \<open>Normal paths\<close>

text \<open>Segments that a normalisation leaves alone: none empty, none \<open>.\<close>, no slash inside, and \<open>..\<close>
  only at the front, and not in an absolute path. The list is in the order of the stack.\<close>

fun normal_stack :: "bool \<Rightarrow> string list \<Rightarrow> bool" where
  "normal_stack absolute [] = True"
| "normal_stack absolute (s # stk) =
     (s \<noteq> [] \<and> s \<noteq> ''.'' \<and> CHR ''/'' \<notin> set s
      \<and> (s = ''..'' \<longrightarrow> \<not> absolute \<and> list_all (\<lambda>x. x = ''..'') stk) \<and> normal_stack absolute stk)"

lemma normal_stack_step:
  "normal_stack absolute stk \<Longrightarrow> CHR ''/'' \<notin> set seg \<Longrightarrow> normal_stack absolute (seg_step absolute stk seg)"
  by (cases stk) (auto simp: seg_step.simps)

lemma normal_stack_foldl:
  "normal_stack absolute stk \<Longrightarrow> \<forall>seg \<in> set parts. CHR ''/'' \<notin> set seg \<Longrightarrow>
     normal_stack absolute (foldl (seg_step absolute) stk parts)"
  by (induction parts arbitrary: stk) (auto simp: normal_stack_step)

lemma normal_stack_elems:
  "normal_stack absolute stk \<Longrightarrow> s \<in> set stk \<Longrightarrow>
     s \<noteq> [] \<and> s \<noteq> ''.'' \<and> CHR ''/'' \<notin> set s \<and> (absolute \<longrightarrow> s \<noteq> ''..'')"
  by (induction stk) auto

lemma foldl_normal_stack:
  "normal_stack absolute stk \<Longrightarrow> foldl (seg_step absolute) [] (rev stk) = stk"
proof (induction stk)
  case (Cons s stk)
  then show ?case by (cases stk) (auto simp: seg_step.simps)
qed simp

text \<open>The empty segments around slashes change nothing.\<close>

lemma seg_step_Nil [simp]: "seg_step absolute stk [] = stk"
  by (simp add: seg_step.simps)

lemma split_join:
  "\<forall>s \<in> set segs. CHR ''/'' \<notin> set s \<Longrightarrow> segs \<noteq> [] \<Longrightarrow>
     split_char (CHR ''/'') (join_with ''/'' segs @ t)
       = butlast segs @ split_char (CHR ''/'') (last segs @ t)"
proof (induction "''/'' :: string" segs rule: join_with.induct)
  case (3 x y ys)
  then show ?case by (simp add: split_char_append)
qed auto

lemma foldl_split_render:
  assumes "normal_stack absolute stk"
  shows "foldl (seg_step absolute) [] (split_char (CHR ''/'') (render_path absolute trailing (rev stk))) = stk"
proof (cases "stk = []")
  case True
  then show ?thesis by (simp add: render_path_def seg_step.simps)
next
  case False
  let ?segs = "rev stk"
  have no: "\<forall>s \<in> set ?segs. CHR ''/'' \<notin> set s" using assms normal_stack_elems by auto
  then have last_no: "CHR ''/'' \<notin> set (last ?segs)" using False last_in_set [of ?segs] by blast
  let ?t = "if trailing then ''/'' else []"
  have "split_char (CHR ''/'') (last ?segs @ ?t) = last ?segs # (if trailing then [[]] else [])"
    using split_char_append [OF last_no, of "[]"] split_char_no_sep [OF last_no] by simp
  then have "split_char (CHR ''/'') (join_with ''/'' ?segs @ ?t)
      = butlast ?segs @ last ?segs # (if trailing then [[]] else [])"
    using split_join [OF no, of ?t] False by simp
  also have "\<dots> = ?segs @ (if trailing then [[]] else [])"
    using append_butlast_last_id [of ?segs] False by simp
  finally have "split_char (CHR ''/'') (join_with ''/'' ?segs @ ?t)
      = ?segs @ (if trailing then [[]] else [])" .
  then show ?thesis
    using foldl_normal_stack [OF assms] False by (auto simp: render_path_def)
qed

lemma slash_prefix_iff: "prefix ''/'' s \<longleftrightarrow> s \<noteq> [] \<and> hd s = CHR ''/''"
  by (cases s) auto

lemma slash_suffix_iff: "suffix ''/'' s \<longleftrightarrow> s \<noteq> [] \<and> last s = CHR ''/''"
  by (cases s rule: rev_cases) (auto simp: suffix_def)

lemma hd_join: "s \<noteq> [] \<Longrightarrow> hd (join_with sep (s # xs) @ t) = hd s"
  by (cases xs) auto

lemma render_prefix:
  assumes "normal_stack absolute stk"
  shows "prefix ''/'' (render_path absolute trailing (rev stk)) \<longleftrightarrow> absolute"
proof (cases "stk = [] \<or> absolute")
  case False
  then obtain s xs where s: "rev stk = s # xs" by (cases "rev stk") auto
  then have "s \<in> set stk" by (metis list.set_intros(1) set_rev)
  with assms have "s \<noteq> []" "hd s \<noteq> CHR ''/''" using normal_stack_elems hd_in_set [of s] by metis+
  with False s hd_join [of s "''/''" xs "''/''"] hd_join [of s "''/''" xs "[]"] show ?thesis
    by (simp add: slash_prefix_iff render_path_def)
qed (auto simp: render_path_def)

lemma render_suffix:
  assumes "normal_stack absolute stk"
  shows "1 < length (render_path absolute trailing (rev stk))
       \<and> suffix ''/'' (render_path absolute trailing (rev stk)) \<longleftrightarrow> trailing \<and> stk \<noteq> []"
proof (cases stk)
  case (Cons s rest)
  with assms have "s \<noteq> []" "CHR ''/'' \<notin> set s" by auto
  then have s: "s \<noteq> []" "last s \<noteq> CHR ''/''" using last_in_set [of s] by metis+
  then have "join_with ''/'' (rev rest @ [s]) \<noteq> []" "last (join_with ''/'' (rev rest @ [s])) = last s"
    by (simp_all add: join_with_snoc)
  with Cons s show ?thesis
    by (cases "join_with ''/'' (rev rest @ [s])") (auto simp: render_path_def slash_suffix_iff)
qed (simp add: render_path_def)

definition stack_of :: "string \<Rightarrow> string list" where
  "stack_of p = foldl (seg_step (prefix ''/'' p)) [] (split_char (CHR ''/'') p)"

lemma normal_stack_of: "normal_stack (prefix ''/'' p) (stack_of p)"
  unfolding stack_of_def by (rule normal_stack_foldl) (auto dest: split_char_elems)

lemma normalize_str_render:
  "normalize_str p = render_path (prefix ''/'' p) (1 < length p \<and> suffix ''/'' p) (rev (stack_of p))"
  by (simp add: normalize_str_def normalize_into_refines stack_of_def)

lemma normalize_render:
  assumes "normal_stack absolute stk"
  shows "normalize_str (render_path absolute trailing (rev stk))
    = render_path absolute (trailing \<and> stk \<noteq> []) (rev stk)"
  unfolding normalize_str_render stack_of_def render_prefix [OF assms] render_suffix [OF assms]
    foldl_split_render [OF assms] ..

subsection \<open>Resolving\<close>

definition base_parts :: "string \<Rightarrow> string \<Rightarrow> string list" where
  "base_parts cwd x = (if x = [] then [cwd] else if prefix ''/'' x then [x] else [cwd, x])"

definition parts_stack :: "string list \<Rightarrow> string list" where
  "parts_stack parts = foldl (seg_step True) [] (concat (map (split_char (CHR ''/'')) parts))"

lemma resolve_one:
  "prefix ''/'' cwd \<Longrightarrow>
     resolve_segments cwd [x] = render_path True False (rev (parts_stack (base_parts cwd x)))"
  by (auto simp: resolve_segments_def base_parts_def parts_stack_def normalize_into_refines)

lemma resolve_two:
  "prefix ''/'' cwd \<Longrightarrow> \<not> prefix ''/'' y \<Longrightarrow>
     resolve_segments cwd [x, y]
       = render_path True False (rev (parts_stack (base_parts cwd x @ (if y = [] then [] else [y]))))"
  by (auto simp: resolve_segments_def base_parts_def parts_stack_def normalize_into_refines)

lemma normal_parts_stack: "normal_stack True (parts_stack parts)"
  unfolding parts_stack_def by (rule normal_stack_foldl) (auto dest: split_char_elems)

lemma filter_split_render:
  assumes "normal_stack True stk"
  shows "filter (\<lambda>s. s \<noteq> []) (split_char (CHR ''/'') (render_path True False (rev stk))) = rev stk"
proof (cases "stk = []")
  case False
  have no: "\<forall>s \<in> set (rev stk). CHR ''/'' \<notin> set s" using assms normal_stack_elems by auto
  then have "CHR ''/'' \<notin> set (last (rev stk))" using False last_in_set [of "rev stk"] by blast
  then have "split_char (CHR ''/'') (join_with ''/'' (rev stk)) = rev stk"
    using split_join [OF no, of "[]"] False append_butlast_last_id [of "rev stk"]
    by (simp add: split_char_no_sep)
  moreover have "\<forall>s \<in> set stk. s \<noteq> []" using assms normal_stack_elems by blast
  ultimately show ?thesis using False by (simp add: render_path_def)
qed (simp add: render_path_def)

lemma common_prefix_take:
  "common_prefix xs ys \<le> length xs \<and> take (common_prefix xs ys) xs = take (common_prefix xs ys) ys"
  by (induction xs ys rule: common_prefix.induct) auto

lemma foldl_pops:
  "normal_stack True stk \<Longrightarrow> n \<le> length stk \<Longrightarrow>
     foldl (seg_step True) stk (replicate n ''..'') = drop n stk"
proof (induction n arbitrary: stk)
  case (Suc n)
  then show ?case by (cases stk) (auto simp: seg_step.simps)
qed simp

lemma foldl_pushes:
  "(\<forall>s \<in> set segs. s \<noteq> [] \<and> s \<noteq> ''.'' \<and> s \<noteq> ''..'') \<Longrightarrow> foldl (seg_step True) stk segs = rev segs @ stk"
  by (induction segs arbitrary: stk) (auto simp: seg_step.simps)

lemma rel_text:
  assumes "\<forall>s \<in> set segs. s \<noteq> [] \<and> CHR ''/'' \<notin> set s"
  shows "\<not> prefix ''/'' (join_with ''/'' segs)" and "join_with ''/'' segs = [] \<longleftrightarrow> segs = []"
    and "segs \<noteq> [] \<Longrightarrow> split_char (CHR ''/'') (join_with ''/'' segs) = segs"
proof -
  show nil: "join_with ''/'' segs = [] \<longleftrightarrow> segs = []" using assms join_with_eq_Nil [of segs] by auto
  show "\<not> prefix ''/'' (join_with ''/'' segs)"
  proof (cases segs)
    case (Cons s xs)
    with assms have "s \<noteq> []" "hd s \<noteq> CHR ''/''" using hd_in_set [of s] by (metis list.set_intros(1))+
    then show ?thesis using Cons hd_join [of s "''/''" xs "[]"] by (simp add: slash_prefix_iff)
  qed simp
  show "split_char (CHR ''/'') (join_with ''/'' segs) = segs" if "segs \<noteq> []"
  proof -
    have "CHR ''/'' \<notin> set (last segs)" using assms that by simp
    then show ?thesis
      using split_join [of segs "[]"] assms that append_butlast_last_id [OF that]
      by (simp add: split_char_no_sep)
  qed
qed

lemma parts_stack_append:
  "parts_stack (ps @ [q]) = foldl (seg_step True) (parts_stack ps) (split_char (CHR ''/'') q)"
  by (simp add: parts_stack_def)

lemma in_replicate_drop: "s \<in> set (replicate n x @ drop k l) \<Longrightarrow> s = x \<or> s \<in> set l"
  by (auto dest: in_set_dropD split: if_splits)

lemma resolve_relative:
  assumes "prefix ''/'' cwd"
  shows "resolve_segments cwd [f, path_relative cwd f t] = resolve_segments cwd [t]"
proof -
  let ?fs = "parts_stack (base_parts cwd f)" and ?ts = "parts_stack (base_parts cwd t)"
  let ?c = "common_prefix (rev ?fs) (rev ?ts)"
  let ?segs = "replicate (length ?fs - ?c) ''..'' @ drop ?c (rev ?ts)"
  have abs_norm: "normalize_str (render_path True False (rev (parts_stack ps)))
      = render_path True False (rev (parts_stack ps))" for ps
    using normalize_render [OF normal_parts_stack, of False ps] by simp
  have rel: "path_relative cwd f t = join_with ''/'' ?segs"
    by (simp add: path_relative_def relative_str_def Let_def resolve_one [OF assms] abs_norm
        filter_split_render normal_parts_stack)
  have elems: "\<forall>s \<in> set (rev ?ts). s \<noteq> [] \<and> s \<noteq> ''.'' \<and> s \<noteq> ''..'' \<and> CHR ''/'' \<notin> set s"
    using normal_stack_elems [OF normal_parts_stack] by auto
  have segs: "\<forall>s \<in> set ?segs. s \<noteq> [] \<and> CHR ''/'' \<notin> set s"
  proof
    fix s assume "s \<in> set ?segs"
    then have "s = ''..'' \<or> s \<in> set (rev ?ts)" by (rule in_replicate_drop)
    then show "s \<noteq> [] \<and> CHR ''/'' \<notin> set s"
    proof
      assume "s \<in> set (rev ?ts)"
      then show ?thesis using elems by blast
    qed simp
  qed
  have tail: "\<forall>s \<in> set (drop ?c (rev ?ts)). s \<noteq> [] \<and> s \<noteq> ''.'' \<and> s \<noteq> ''..''"
    using elems by (meson in_set_dropD)
  note c = common_prefix_take [of "rev ?fs" "rev ?ts"]
  have "foldl (seg_step True) ?fs ?segs = rev (drop ?c (rev ?ts)) @ drop (length ?fs - ?c) ?fs"
    by (simp only: foldl_append foldl_pops [OF normal_parts_stack diff_le_self] foldl_pushes [OF tail])
  also have "drop (length ?fs - ?c) ?fs = rev (take ?c (rev ?fs))"
    using c by (simp add: take_rev)
  also have "rev (drop ?c (rev ?ts)) @ rev (take ?c (rev ?fs)) = ?ts"
  proof -
    have "rev (drop ?c (rev ?ts)) @ rev (take ?c (rev ?fs)) = rev (take ?c (rev ?ts) @ drop ?c (rev ?ts))"
      unfolding rev_append using c by simp
    also have "\<dots> = ?ts" by (simp only: append_take_drop_id rev_rev_ident)
    finally show ?thesis .
  qed
  finally have fold: "foldl (seg_step True) ?fs ?segs = ?ts" .
  have "parts_stack (base_parts cwd f @ (if join_with ''/'' ?segs = [] then [] else [join_with ''/'' ?segs])) = ?ts"
  proof (cases "?segs = []")
    case True
    with fold show ?thesis by simp
  next
    case False
    then show ?thesis
      by (simp only: rel_text(2) [OF segs] if_False parts_stack_append rel_text(3) [OF segs False] fold)
  qed
  then show ?thesis
    using resolve_two [OF assms rel_text(1) [OF segs], of f] resolve_one [OF assms, of t] rel by simp
qed

subsection \<open>Properties\<close>

text \<open>C39 (one pass): the one-pass normalisation into a buffer, which truncates it at a kept offset for
  each \<open>..\<close>, writes exactly the path of the segments that remain on a stack.\<close>

theorem normalize_into_stack:
  "normalize_into parts absolute trailing buf
     = buf @ render_path absolute trailing (rev (foldl (seg_step absolute) [] parts))"
  by (rule normalize_into_refines)

text \<open>Normalising twice is normalising once, and the segments of a normalised path
  are neither empty nor \<open>.\<close>, with \<open>..\<close> only in front of a relative one.\<close>

theorem normalize_str_idempotent:
  "normalize_str (normalize_str p) = normalize_str p \<and> normal_stack (prefix ''/'' p) (stack_of p)"
  using normalize_render [OF normal_stack_of, of p "1 < length p \<and> suffix ''/'' p"] normal_stack_of
  by (auto simp: normalize_str_render render_path_def)

text \<open>C40 (relative): resolving the relative path from one place to another against the first gives the
  second, whatever the two paths and the working directory.\<close>

theorem relative_leads_there:
  assumes "prefix ''/'' cwd"
  shows "resolve_segments cwd [f, path_relative cwd f t] = resolve_segments cwd [t]"
  using assms by (rule resolve_relative)

theorem relative_leads_there_witness:
  "resolve_segments ''/w'' [''a/b'', path_relative ''/w'' ''a/b'' ''../c'']
     = resolve_segments ''/w'' [''../c'']"
  by (rule relative_leads_there) simp

text \<open>Of a normalised absolute path, \<open>basename\<close> is the last segment and
  \<open>dirname\<close> the path of the others.\<close>

theorem dirname_and_basename:
  assumes "normal_stack True (s # stk)"
  shows "dirname_str (render_path True False (rev (s # stk))) = render_path True False (rev stk)
    \<and> basename_of (render_path True False (rev (s # stk))) = s"
proof -
  let ?p = "render_path True False (rev (s # stk))"
  have s: "s \<noteq> []" "CHR ''/'' \<notin> set s" using assms by auto
  then have "last s \<noteq> CHR ''/''" using last_in_set [of s] by metis
  let ?before = "if stk = [] then [] else render_path True False (rev stk)"
  have p: "?p = ?before @ CHR ''/'' # s"
    by (simp add: render_path_def join_with_snoc)
  moreover have "last ?p = last s" using s(1) p by simp
  ultimately have "trim_end_matches (CHR ''/'') ?p = ?p"
    using \<open>last s \<noteq> CHR ''/''\<close> by (intro trim_end_matches_id) simp
  moreover have "rsplit_once (CHR ''/'') ?p = Some (?before, s)"
    unfolding p using s(2) by (rule rsplit_once_append)
  moreover have "?before = [] \<longleftrightarrow> stk = []" by (simp add: render_path_def)
  ultimately show ?thesis
    by (simp add: dirname_str_def basename_of_def del: rev.simps) (simp add: render_path_def)
qed

theorem dirname_and_basename_witness:
  "dirname_str (render_path True False [''usr'', ''lib'', ''a.so'']) = render_path True False [''usr'', ''lib'']"
  using dirname_and_basename [of "''a.so''" "[''lib'', ''usr'']"] by simp

text \<open>Node keeps the slash after a path that normalises to nothing: \<open>./\<close> for \<open>a/../\<close>.\<close>

lemma trailing_slash_lost: "normalize_str ''a/../'' = ''.''"
  by (simp add: normalize_str_render stack_of_def seg_step.simps render_path_def)

end
