(* ===== verification/Chunk_Queue.thy ===== *)
theory Chunk_Queue
  imports F64
begin

text \<open>
  Chunks waiting in a stream, \<open>crates/ferrijs-std/src/stream_web/utils/queue.rs\<close>, and the
  queuing strategies that measure them, \<open>stream_web/queuing_strategy/mod.rs\<close>.

  A JavaScript value is modelled as far as the streams look at it: a number is a size, a symbol of
  the global registry (\<open>Symbol.for(key)\<close>) is determined by its key, anything else is passed
  along. An exception thrown by the engine is the value it throws.
\<close>

datatype js_error = TypeError | RangeError

datatype js =
    JsUndefined
  | JsNumber f64
  | JsString string
  | JsSymbol string
  | JsObject nat
  | JsError js_error string

fun js_number :: "js \<Rightarrow> f64 option" where
  "js_number (JsNumber n) = Some n"
| "js_number _ = None"

fun is_js_object :: "js \<Rightarrow> bool" where
  "is_js_object (JsObject _) = True"
| "is_js_object (JsError _ _) = True"
| "is_js_object _ = False"

subsection \<open>Sizes and strategies\<close>

datatype size_value = SizeValue js | SizeNative f64

fun as_number :: "size_value \<Rightarrow> f64 option" where
  "as_number (SizeValue v) = js_number v"
| "as_number (SizeNative n) = Some n"

definition size_value_from_js :: "js \<Rightarrow> size_value" where
  "size_value_from_js v = (case js_number v of Some n \<Rightarrow> SizeNative n | None \<Rightarrow> SizeValue v)"

datatype native_size_function = ByteLength | Count

datatype size_function = JsFunction | NativeFunction native_size_function

datatype size_algorithm = AlwaysOne | SizeFunction size_function

record queuing_strategy =
  high_water_mark :: "f64 option"
  strategy_size :: "size_function option"

definition extract_high_water_mark :: "queuing_strategy option \<Rightarrow> f64 \<Rightarrow> js + f64" where
  "extract_high_water_mark this default_hwm =
     (case this of
        None \<Rightarrow> Inr default_hwm
      | Some strategy \<Rightarrow>
          (case high_water_mark strategy of
             Some hwm \<Rightarrow>
               if hwm = NaN \<or> fless hwm (Fin 0)
               then Inl (JsError RangeError ''Invalid highWaterMark'')
               else Inr hwm
           | None \<Rightarrow> Inr default_hwm))"

definition extract_size_algorithm :: "queuing_strategy option \<Rightarrow> size_algorithm" where
  "extract_size_algorithm this =
     (case Option.bind this strategy_size of
        None \<Rightarrow> AlwaysOne
      | Some f \<Rightarrow> SizeFunction f)"

subsection \<open>The queue\<close>

record value_with_size =
  chunk_value :: js
  chunk_size :: f64

record queue_with_sizes =
  queue :: "value_with_size list"
  queue_total_size :: f64

definition new_queue :: queue_with_sizes where
  "new_queue = \<lparr>queue = [], queue_total_size = Fin 0\<rparr>"

definition is_non_negative_number :: "size_value \<Rightarrow> f64 option" where
  "is_non_negative_number v =
     (case as_number v of
        None \<Rightarrow> None
      | Some n \<Rightarrow> if n = NaN then None else if fless n (Fin 0) then None else Some n)"

definition is_infinite :: "f64 \<Rightarrow> bool" where
  "is_infinite n \<longleftrightarrow> n = PInf \<or> n = NInf"

definition bad_size :: js where
  "bad_size = JsError RangeError ''Size must be a finite, non-NaN, non-negative number.''"

definition enqueue_value_with_size ::
  "js \<Rightarrow> size_value \<Rightarrow> queue_with_sizes \<Rightarrow> js + queue_with_sizes" where
  "enqueue_value_with_size v sz q =
     (case is_non_negative_number sz of
        None \<Rightarrow> Inl bad_size
      | Some n \<Rightarrow>
          if is_infinite n then Inl bad_size
          else Inr (q\<lparr>queue := queue q @ [\<lparr>chunk_value = v, chunk_size = n\<rparr>],
                      queue_total_size := fadd (queue_total_size q) n\<rparr>))"

text \<open>\<open>None\<close> is the panic of \<open>expect\<close> on an empty queue.\<close>

definition dequeue_value :: "queue_with_sizes \<Rightarrow> (js \<times> queue_with_sizes) option" where
  "dequeue_value q =
     (case queue q of
        [] \<Rightarrow> None
      | front # rest \<Rightarrow>
          (let t = fsub (queue_total_size q) (chunk_size front);
               t = (if fless t (Fin 0) then Fin 0 else t)
           in Some (chunk_value front, q\<lparr>queue := rest, queue_total_size := t\<rparr>)))"

definition reset_queue :: "queue_with_sizes \<Rightarrow> queue_with_sizes" where
  "reset_queue q = q\<lparr>queue := [], queue_total_size := Fin 0\<rparr>"

subsection \<open>The sizes in a queue\<close>

text \<open>
  Every size is finite and non-negative, and the running total is a non-negative number (or
  infinite, after an overflow); in particular neither is ever NaN.
\<close>

definition sized :: "queue_with_sizes \<Rightarrow> bool" where
  "sized q \<longleftrightarrow> (\<forall>c\<in>set (queue q). \<exists>r\<ge>0. chunk_size c = Fin r) \<and> fnonneg (queue_total_size q)"

lemma fnonneg_Fin [simp]: "fnonneg (Fin r) \<longleftrightarrow> 0 \<le> r"
  by (simp add: fnonneg_def)

lemma is_non_negative_number_Some:
  "is_non_negative_number sz = Some n \<Longrightarrow> n = PInf \<or> (\<exists>r\<ge>0. n = Fin r)"
  by (cases n) (auto simp: is_non_negative_number_def not_less split: option.splits if_splits)

lemma sized_new [simp]: "sized new_queue"
  by (simp add: sized_def new_queue_def fnonneg_def)

lemma sized_reset [simp]: "sized (reset_queue q)"
  by (simp add: sized_def reset_queue_def fnonneg_def)

lemma enqueue_Inr:
  assumes "enqueue_value_with_size v sz q = Inr q'"
  obtains r where "0 \<le> r" "as_number sz = Some (Fin r)"
    "q' = q\<lparr>queue := queue q @ [\<lparr>chunk_value = v, chunk_size = Fin r\<rparr>],
             queue_total_size := fadd (queue_total_size q) (Fin r)\<rparr>"
proof -
  from assms obtain n where n: "is_non_negative_number sz = Some n" "\<not> is_infinite n"
    "q' = q\<lparr>queue := queue q @ [\<lparr>chunk_value = v, chunk_size = n\<rparr>],
             queue_total_size := fadd (queue_total_size q) n\<rparr>"
    by (auto simp: enqueue_value_with_size_def split: option.splits if_splits)
  moreover obtain r where "0 \<le> r" "n = Fin r"
    using is_non_negative_number_Some [OF n(1)] n(2) by (auto simp: is_infinite_def)
  moreover have "as_number sz = Some n"
    using n(1) by (auto simp: is_non_negative_number_def split: option.splits if_splits)
  ultimately show ?thesis using that by blast
qed

lemma enqueue_finite:
  "0 \<le> r \<Longrightarrow> enqueue_value_with_size v (SizeNative (Fin r)) q =
     Inr (q\<lparr>queue := queue q @ [\<lparr>chunk_value = v, chunk_size = Fin r\<rparr>],
            queue_total_size := fadd (queue_total_size q) (Fin r)\<rparr>)"
  by (simp add: enqueue_value_with_size_def is_non_negative_number_def is_infinite_def)

lemma enqueue_sized:
  "enqueue_value_with_size v sz q = Inr q' \<Longrightarrow> sized q \<Longrightarrow> sized q'"
  by (elim enqueue_Inr) (auto simp: sized_def intro!: fadd_nonneg)

lemma enqueue_values:
  "enqueue_value_with_size v sz q = Inr q' \<Longrightarrow>
     map chunk_value (queue q') = map chunk_value (queue q) @ [v]"
  by (elim enqueue_Inr) auto

lemma dequeue_values:
  "dequeue_value q = Some (v, q') \<Longrightarrow>
     map chunk_value (queue q) = v # map chunk_value (queue q')"
  by (auto simp: dequeue_value_def Let_def split: list.splits)

lemma dequeue_None_iff: "dequeue_value q = None \<longleftrightarrow> queue q = []"
  by (simp add: dequeue_value_def Let_def split: list.splits)

lemma clamped_nonneg: "t \<noteq> NaN \<Longrightarrow> fnonneg (if fless t (Fin 0) then Fin 0 else t)"
  by (cases t) (auto simp: fnonneg_def)

lemma dequeue_sized:
  assumes "dequeue_value q = Some (v, q')" "sized q"
  shows "sized q'"
proof -
  from assms obtain c cs r where q: "queue q = c # cs" "chunk_size c = Fin r"
    by (auto simp: dequeue_value_def sized_def split: list.splits)
  with assms have "queue q' = cs"
    "queue_total_size q' = (let t = fsub (queue_total_size q) (Fin r) in if fless t (Fin 0) then Fin 0 else t)"
    by (auto simp: dequeue_value_def Let_def)
  with assms(2) q show ?thesis
    by (simp add: sized_def Let_def clamped_nonneg fsub_finite_not_NaN)
qed

subsection \<open>First in, first out\<close>

text \<open>
  What a stream controller expects of its queue. A refused \<open>put\<close> leaves the queue alone; what
  was accepted leaves in the order it came.
\<close>

datatype 'x queue_op = Put 'x | Take

fun run_queue ::
  "('x \<Rightarrow> 'q \<Rightarrow> 'e + 'q) \<Rightarrow> ('q \<Rightarrow> ('v \<times> 'q) option) \<Rightarrow> ('x \<Rightarrow> 'v) \<Rightarrow> 'x queue_op list \<Rightarrow> 'q \<Rightarrow>
     'v list \<times> 'v list \<times> 'q" where
  "run_queue put pull item [] q = ([], [], q)"
| "run_queue put pull item (Put x # ops) q =
     (case put x q of
        Inl _ \<Rightarrow> run_queue put pull item ops q
      | Inr q' \<Rightarrow>
          (let (acc, out, q'') = run_queue put pull item ops q' in (item x # acc, out, q'')))"
| "run_queue put pull item (Take # ops) q =
     (case pull q of
        None \<Rightarrow> run_queue put pull item ops q
      | Some (v, q') \<Rightarrow>
          (let (acc, out, q'') = run_queue put pull item ops q' in (acc, v # out, q'')))"

locale fifo =
  fixes put :: "'x \<Rightarrow> 'q \<Rightarrow> 'e + 'q"
    and pull :: "'q \<Rightarrow> ('v \<times> 'q) option"
    and item :: "'x \<Rightarrow> 'v"
    and content :: "'q \<Rightarrow> 'v list"
  assumes put_content: "put x q = Inr q' \<Longrightarrow> content q' = content q @ [item x]"
    and pull_content: "pull q = Some (v, q') \<Longrightarrow> content q = v # content q'"
    and pull_empty: "pull q = None \<Longrightarrow> content q = []"
begin

lemma run_in_order:
  "run_queue put pull item ops q = (acc, out, q') \<Longrightarrow> content q @ acc = out @ content q'"
proof (induction ops arbitrary: q acc out)
  case (Cons op ops)
  then show ?case
    by (cases op)
      (fastforce split: sum.splits option.splits prod.splits dest!: put_content pull_content)+
qed simp

lemma never_skips: "content q = v # vs \<Longrightarrow> \<exists>q'. pull q = Some (v, q') \<and> content q' = vs"
  using pull_empty [of q] pull_content [of q] by (cases "pull q") auto

end

abbreviation put_chunk :: "js \<times> size_value \<Rightarrow> queue_with_sizes \<Rightarrow> js + queue_with_sizes" where
  "put_chunk x q \<equiv> enqueue_value_with_size (fst x) (snd x) q"

definition chunks :: "queue_with_sizes \<Rightarrow> js list" where
  "chunks q = map chunk_value (queue q)"

interpretation chunk_fifo: fifo put_chunk dequeue_value fst chunks
  by unfold_locales
    (auto simp: chunks_def enqueue_values dequeue_values dequeue_None_iff)

text \<open>Over any sequence of enqueue and dequeue operations, what comes out
  of a stream's queue followed by what is left in it is what was in it followed by the accepted
  values: nothing is lost, duplicated or reordered, and a refused size changes nothing.\<close>

theorem chunk_queue_order:
  "(case run_queue put_chunk dequeue_value fst ops q of
      (acc, out, q') \<Rightarrow> chunks q @ acc = out @ chunks q')"
  using chunk_fifo.run_in_order [of ops q] by (auto split: prod.splits)

subsection \<open>The running total\<close>

lemma run_queue_sized:
  "run_queue put_chunk dequeue_value fst ops q = (acc, out, q') \<Longrightarrow> sized q \<Longrightarrow> sized q'"
proof (induction ops arbitrary: q acc out)
  case (Cons op ops)
  then show ?case
    by (cases op)
      (auto split: sum.splits option.splits prod.splits dest: enqueue_sized dequeue_sized)
qed simp

text \<open>C37 (chunk_queue_total_sane): whatever sizes a strategy answers with, the total size of a
  queue that started empty is never NaN and never negative, and every queued size is a finite
  non-negative number.\<close>

theorem chunk_queue_total_sane:
  "(case run_queue put_chunk dequeue_value fst ops new_queue of
      (_, _, q) \<Rightarrow> queue_total_size q \<noteq> NaN \<and> \<not> fless (queue_total_size q) (Fin 0) \<and>
        (\<forall>c\<in>set (queue q). case chunk_size c of Fin r \<Rightarrow> 0 \<le> r | _ \<Rightarrow> False))"
proof -
  obtain acc out q where run: "run_queue put_chunk dequeue_value fst ops new_queue = (acc, out, q)"
    by (cases "run_queue put_chunk dequeue_value fst ops new_queue")
  then have "sized q" using run_queue_sized sized_new by blast
  then have "fnonneg (queue_total_size q)" and "\<forall>c\<in>set (queue q). \<exists>r\<ge>0. chunk_size c = Fin r"
    by (simp_all add: sized_def)
  then show ?thesis by (cases "queue_total_size q") (auto simp: run fnonneg_def)
qed

text \<open>C37 (chunk_queue_total_sane): applied to a refused and an accepted size.\<close>

theorem chunk_queue_total_sane_witness:
  "case run_queue put_chunk dequeue_value fst
      [Put (JsUndefined, SizeNative NaN), Put (JsUndefined, SizeNative (Fin 2)), Take] new_queue of
      (acc, out, q) \<Rightarrow> queue_total_size q \<noteq> NaN \<and> \<not> fless (queue_total_size q) (Fin 0) \<and>
        (\<forall>c\<in>set (queue q). case chunk_size c of Fin r \<Rightarrow> 0 \<le> r | _ \<Rightarrow> False)"
  by (rule chunk_queue_total_sane)

text \<open>
  Integral sizes are summed exactly: below \<open>2 ^ 52\<close> the total is the sum of the queued sizes,
  so a count strategy counts and a byte length strategy adds bytes.
\<close>

definition counts :: "queue_with_sizes \<Rightarrow> nat list \<Rightarrow> bool" where
  "counts q ns \<longleftrightarrow>
     map chunk_size (queue q) = map (\<lambda>n. Fin (of_nat n)) ns \<and>
     queue_total_size q = Fin (of_nat (sum_list ns))"

lemma fadd_nats:
  assumes "a < 2 ^ 52" "b < 2 ^ 52"
  shows "fadd (Fin (of_nat a)) (Fin (of_nat b)) = Fin (of_nat (a + b))"
proof -
  have "fadd (Fin (of_int (int a))) (Fin (of_int (int b))) = Fin (of_int (int a + int b))"
    using assms by (intro fadd_ints) simp_all
  then show ?thesis by (simp only: of_int_of_nat_eq flip: of_nat_add)
qed

lemma fsub_nats:
  assumes "b \<le> a" "a < 2 ^ 52"
  shows "fsub (Fin (of_nat a)) (Fin (of_nat b)) = Fin (of_nat (a - b))"
proof -
  have "fadd (Fin (of_int (int a))) (Fin (of_int (- int b))) = Fin (of_int (int a + - int b))"
    using assms by (intro fadd_ints) simp_all
  moreover have "int a + - int b = int (a - b)" using assms by simp
  ultimately have "fadd (Fin (of_int (int a))) (Fin (of_int (- int b))) = Fin (of_int (int (a - b)))"
    by (simp only:)
  then show ?thesis by (simp only: fsub_def fneg.simps of_int_of_nat_eq of_int_minus)
qed

text \<open>While the sizes are whole numbers whose sum stays below
  2 to the 52, queueing adds a size to the total exactly and taking the front chunk subtracts it
  exactly: backpressure never drifts from rounding.\<close>

theorem chunk_queue_counts_exactly:
  assumes "counts q (m # ns)" and "m + sum_list ns + n < 2 ^ 52"
  shows "(case enqueue_value_with_size v (SizeNative (Fin (of_nat n))) q of
            Inl _ \<Rightarrow> False | Inr q' \<Rightarrow> counts q' (m # ns @ [n])) \<and>
         (case dequeue_value q of None \<Rightarrow> False | Some (_, q') \<Rightarrow> counts q' ns)"
proof
  show "case enqueue_value_with_size v (SizeNative (Fin (of_nat n))) q of
      Inl _ \<Rightarrow> False | Inr q' \<Rightarrow> counts q' (m # ns @ [n])"
    using assms fadd_nats [of "m + sum_list ns" n]
    by (simp add: counts_def enqueue_finite algebra_simps del: fadd.simps)
  obtain c cs where q: "queue q = c # cs" and c: "chunk_size c = Fin (of_nat m)"
    using assms(1) by (auto simp: counts_def map_eq_Cons_conv)
  show "case dequeue_value q of None \<Rightarrow> False | Some (_, q') \<Rightarrow> counts q' ns"
    using assms q c fsub_nats [of m "m + sum_list ns"]
    by (simp add: counts_def dequeue_value_def Let_def)
qed

text \<open>A count strategy with one chunk queued.\<close>

theorem chunk_queue_counts_exactly_witness:
  "let q = \<lparr>queue = [\<lparr>chunk_value = JsUndefined, chunk_size = Fin 1\<rparr>], queue_total_size = Fin 1\<rparr>
   in (case enqueue_value_with_size JsUndefined (SizeNative (Fin (of_nat 1))) q of
         Inl _ \<Rightarrow> False | Inr q' \<Rightarrow> counts q' (1 # [] @ [1])) \<and>
      (case dequeue_value q of None \<Rightarrow> False | Some (_, q') \<Rightarrow> counts q' [])"
  unfolding Let_def
  by (rule chunk_queue_counts_exactly) (simp_all add: counts_def)

end
