(* ===== verification/Promises.thy ===== *)
theory Promises
  imports Chunk_Queue "HOL-Library.Monad_Syntax"
begin

text \<open>
  What the two kinds of streams share: promises and their settlement
  (\<open>crates/ferrijs-std/src/stream_web/utils/promise.rs\<close>), the answers of callbacks, and the facts
  about pending reactions that the invariants of both count with.
\<close>

subsection \<open>Promises\<close>

datatype settlement = Fulfilled js | Rejected js

text \<open>
  A \<open>ResolveablePromise\<close> with its resolving functions is \<open>Deferred\<close> and names a cell of
  the promise store; one made already settled has no resolving functions.
\<close>

datatype promise = Deferred nat | Settled settlement

text \<open>Settling a promise a second time does nothing, nor does settling one made settled.\<close>

fun settle_cell :: "settlement \<Rightarrow> promise \<Rightarrow> settlement option list \<Rightarrow> settlement option list" where
  "settle_cell r (Deferred i) cells =
     (if i < length cells \<and> cells ! i = None then cells[i := Some r] else cells)"
| "settle_cell r (Settled _) cells = cells"

definition resolved_with_undefined :: promise where
  "resolved_with_undefined = Settled (Fulfilled JsUndefined)"

definition rejected_with :: "js \<Rightarrow> promise" where
  "rejected_with e = Settled (Rejected e)"

definition rejected_with_constructor :: "string \<Rightarrow> promise" where
  "rejected_with_constructor msg = Settled (Rejected (JsError TypeError msg))"

subsection \<open>Callbacks\<close>

text \<open>
  What a callback answered: \<open>Inl e\<close> when it threw \<open>e\<close>, \<open>Inr v\<close> when it returned \<open>v\<close>.
\<close>

type_synonym answer = "js + js"

datatype algorithm = ReturnPromiseUndefined | Callback

definition unwrap_or_undefined :: "js option \<Rightarrow> js" where
  "unwrap_or_undefined v = (case v of None \<Rightarrow> JsUndefined | Some v \<Rightarrow> v)"

text \<open>
  How the promise made from a callback's answer can settle: a thrown exception rejects it, a
  returned object may be a promise and settle either way, any other value fulfills it.
\<close>

fun may_settle :: "answer \<Rightarrow> settlement \<Rightarrow> bool" where
  "may_settle (Inl e) r = (r = Rejected e)"
| "may_settle (Inr v) r = (is_js_object v \<or> r = Fulfilled v)"

subsection \<open>Pending reactions\<close>

fun remove_nth :: "nat \<Rightarrow> 'a list \<Rightarrow> 'a list" where
  "remove_nth k xs = List.take k xs @ drop (Suc k) xs"

definition owing :: "('a \<Rightarrow> nat) \<Rightarrow> 'a list \<Rightarrow> nat" where
  "owing f rs = sum_list (map f rs)"

lemma owing_simps [simp]:
  "owing f (rs @ [r]) = owing f rs + f r" "owing f [] = 0"
  by (simp_all add: owing_def)

lemma owing_remove_nth:
  "k < length rs \<Longrightarrow> owing f rs = f (rs ! k) + owing f (remove_nth k rs)"
  by (subst id_take_nth_drop [of k rs]) (simp_all add: owing_def)

declare remove_nth.simps [simp del]

subsection \<open>Queues and results\<close>

lemma chunks_simps [simp]:
  "chunks (reset_queue q) = []" "chunks new_queue = []"
  by (simp_all add: chunks_def reset_queue_def new_queue_def)

lemma dequeue_chunks:
  assumes "chunks q = v # vs" "sized q"
  obtains q' where "dequeue_value q = Some (v, q')" "chunks q' = vs" "sized q'"
proof -
  obtain q' where "dequeue_value q = Some (v, q')" "chunks q' = vs"
    using chunk_fifo.never_skips [OF assms(1)] by blast
  then show ?thesis using that dequeue_sized [OF _ assms(2)] by blast
qed

text \<open>A result that is there and satisfies a predicate.\<close>

definition yields :: "('a \<Rightarrow> bool) \<Rightarrow> 'a option \<Rightarrow> bool" where
  "yields P m = (case m of None \<Rightarrow> False | Some x \<Rightarrow> P x)"

lemma yields_simps [simp]: "yields P (Some x) = P x" "\<not> yields P None"
  by (simp_all add: yields_def)

lemma yields_bind [simp]: "yields P (Option.bind m f) = yields (\<lambda>x. yields P (f x)) m"
  by (cases m) auto

lemma yields_map [simp]: "yields P (map_option f m) = yields (\<lambda>x. P (f x)) m"
  by (cases m) auto

lemma yields_mono: "yields P m \<Longrightarrow> (\<And>x. P x \<Longrightarrow> Q x) \<Longrightarrow> yields Q m"
  by (cases m) auto

lemma yieldsE: "yields P m \<Longrightarrow> m = Some x \<Longrightarrow> P x"
  by simp

subsection \<open>Small sizes, for examples\<close>

lemma f64_small:
  "fadd (Fin 0) (Fin 1) = Fin 1" "fadd (Fin 1) (Fin 1) = Fin 2" "fadd (Fin 1) (Fin 0) = Fin 1"
  "fadd (Fin 2) (Fin 0) = Fin 2" "fadd (Fin 0) (Fin 0) = Fin 0"
  "fsub (Fin 1) (Fin 0) = Fin 1" "fsub (Fin 1) (Fin 1) = Fin 0" "fsub (Fin 2) (Fin 1) = Fin 1"
  "fsub (Fin 0) (Fin 0) = Fin 0" "fle (fsub (Fin 1) (Fin 2)) (Fin 0)"
  using fadd_nats [of 0 1] fadd_nats [of 1 1] fadd_nats [of 1 0] fadd_nats [of 2 0] fadd_nats [of 0 0]
    fsub_nats [of 0 1] fsub_nats [of 1 1] fsub_nats [of 1 2] fsub_nats [of 0 0]
    fadd_ints [of 1 "- 2"]
  by (simp_all add: fsub_def)

end
