(* ===== verification/Readable.thy ===== *)
theory Readable
  imports Promises
begin

text \<open>
  Readable streams with a default controller, \<open>crates/ferrijs-std/src/stream_web/readable/\<close>: the
  stream (\<open>stream/mod.rs\<close>), its default controller (\<open>default_controller.rs\<close>) and its default readers
  (\<open>default_reader.rs\<close>, \<open>reader.rs\<close>), as the state of one stream and the operations on it, in the
  way of \<open>Writable\<close>: a panic is \<open>None\<close>, a thrown exception \<open>Inl\<close>, user code is the parameter
  \<open>user\<close>, reactions to promises are pending jobs run by \<open>react\<close>.

  The promises of readers and streams are settled by the runtime alone. \<open>set_is_handled\<close> calls the method
  \<open>catch\<close> of such a promise with a function that does nothing, so that no unhandled rejection is reported;
  it is left out, on the assumption that scripts leave \<open>Promise.prototype.catch\<close> as the engine made it,
  which neither throws nor runs code of the script here.

  Byte controllers and their readers, \<open>tee\<close>, \<open>pipeTo\<close> and the asynchronous iterator are not
  modelled; \<open>native_pull\<close>, which the sources only ever set to \<open>None\<close>, is left out.
\<close>

subsection \<open>The state of a stream\<close>

text \<open>
  What a \<open>read\<close> promise settles with: an object with \<open>value\<close> and \<open>done\<close>, or an error. The promises
  returned by \<open>read\<close> have a store of their own, in the order of the calls.
\<close>

datatype read_result = ReadValue js | ReadDone | ReadFailed js

record default_reader =
  closed_promise :: promise
  attached :: bool
  read_requests :: "nat list"

datatype stream_state = Readable | Closed | Errored js

datatype job =
    StartJob answer
  | PullJob answer
  | CancelJob promise answer

record readable =
  promises :: "settlement option list"
  reads :: "read_result option list"
  readers :: "default_reader list"
  jobs :: "job list"
  disturbed :: bool
  state :: stream_state
  reader :: "nat option"
  cancel_algorithm :: "algorithm option"
  close_requested :: bool
  pull_again :: bool
  pull_algorithm :: "algorithm option"
  pulling :: bool
  container :: queue_with_sizes
  started :: bool
  strategy_hwm :: f64
  strategy_size_algorithm :: "size_algorithm option"
  is_owning_type :: bool

datatype call =
    StartCall
  | PullCall
  | CancelCall js
  | SizeCall js
  | ByteLengthGet js
  | TransferCall js

type_synonym user = "call \<Rightarrow> readable \<Rightarrow> answer \<times> readable"

definition new_promise :: "readable \<Rightarrow> promise \<times> readable" where
  "new_promise s = (Deferred (length (promises s)), s\<lparr>promises := promises s @ [None]\<rparr>)"

definition settle :: "settlement \<Rightarrow> promise \<Rightarrow> readable \<Rightarrow> readable" where
  "settle r p s = s\<lparr>promises := settle_cell r p (promises s)\<rparr>"

definition upon_promise :: "job \<Rightarrow> readable \<Rightarrow> readable" where
  "upon_promise j s = s\<lparr>jobs := jobs s @ [j]\<rparr>"

text \<open>The three steps of the read request that \<open>read\<close> makes.\<close>

definition settle_read :: "read_result \<Rightarrow> nat \<Rightarrow> readable \<Rightarrow> readable" where
  "settle_read r p s =
     (if p < length (reads s) \<and> reads s ! p = None then s\<lparr>reads := (reads s)[p := Some r]\<rparr> else s)"

definition chunk_steps :: "js \<Rightarrow> nat \<Rightarrow> readable \<Rightarrow> readable" where
  "chunk_steps chunk = settle_read (ReadValue chunk)"

definition close_steps :: "nat \<Rightarrow> readable \<Rightarrow> readable" where
  "close_steps = settle_read ReadDone"

definition error_steps :: "js \<Rightarrow> nat \<Rightarrow> readable \<Rightarrow> readable" where
  "error_steps e = settle_read (ReadFailed e)"

text \<open>\<open>with_reader\<close> on the reader the caller holds, and \<open>refresh_reader\<close>.\<close>

definition with_reader :: "nat option \<Rightarrow> (nat \<Rightarrow> readable \<Rightarrow> readable) \<Rightarrow> readable \<Rightarrow> readable" where
  "with_reader w f s = (case w of None \<Rightarrow> s | Some i \<Rightarrow> f i s)"

definition update_reader :: "nat \<Rightarrow> (default_reader \<Rightarrow> default_reader) \<Rightarrow> readable \<Rightarrow> readable" where
  "update_reader i f s = s\<lparr>readers := (readers s)[i := f (readers s ! i)]\<rparr>"

abbreviation refresh_reader :: "readable \<Rightarrow> nat option" where
  "refresh_reader \<equiv> reader"

subsection \<open>The stream and its readers\<close>

definition is_readable_stream_locked :: "readable \<Rightarrow> bool" where
  "is_readable_stream_locked s \<longleftrightarrow> reader s \<noteq> None"

definition error_read_requests :: "nat \<Rightarrow> js \<Rightarrow> readable \<Rightarrow> readable" where
  "error_read_requests i e s =
     (let requests = read_requests (readers s ! i);
          s = update_reader i (read_requests_update (\<lambda>_. [])) s
      in fold (error_steps e) requests s)"

definition readable_stream_error :: "nat option \<Rightarrow> js \<Rightarrow> readable \<Rightarrow> readable" where
  "readable_stream_error w e s =
     with_reader w
       (\<lambda>i s. error_read_requests i e (settle (Rejected e) (closed_promise (readers s ! i)) s))
       (s\<lparr>state := Errored e\<rparr>)"

definition readable_stream_get_num_read_requests :: "nat \<Rightarrow> readable \<Rightarrow> nat" where
  "readable_stream_get_num_read_requests i s = length (read_requests (readers s ! i))"

definition readable_stream_fulfill_read_request :: "nat \<Rightarrow> js \<Rightarrow> bool \<Rightarrow> readable \<Rightarrow> readable option" where
  "readable_stream_fulfill_read_request i chunk finished s =
     (case read_requests (readers s ! i) of
        [] \<Rightarrow> None
      | p # ps \<Rightarrow>
          (let s = update_reader i (read_requests_update (\<lambda>_. ps)) s
           in Some (if finished then close_steps p s else chunk_steps chunk p s)))"

definition readable_stream_close :: "nat option \<Rightarrow> readable \<Rightarrow> readable" where
  "readable_stream_close w s =
     with_reader w
       (\<lambda>i s.
          let s = settle (Fulfilled JsUndefined) (closed_promise (readers s ! i)) s;
              requests = read_requests (readers s ! i);
              s = update_reader i (read_requests_update (\<lambda>_. [])) s
          in fold close_steps requests s)
       (s\<lparr>state := Closed\<rparr>)"

definition readable_stream_add_read_request :: "nat \<Rightarrow> nat \<Rightarrow> readable \<Rightarrow> readable" where
  "readable_stream_add_read_request i p = update_reader i (read_requests_update (\<lambda>ps. ps @ [p]))"

definition readable_stream_reader_generic_initialize :: "readable \<Rightarrow> promise \<times> readable" where
  "readable_stream_reader_generic_initialize s =
     (case state s of
        Readable \<Rightarrow> new_promise s
      | Closed \<Rightarrow> (resolved_with_undefined, s)
      | Errored e \<Rightarrow> (rejected_with e, s))"

definition set_up_readable_stream_default_reader :: "readable \<Rightarrow> (js + nat) \<times> readable" where
  "set_up_readable_stream_default_reader s =
     (if is_readable_stream_locked s
      then (Inl (JsError TypeError
              ''This stream has already been locked for exclusive reading by another reader''), s)
      else (let (p, s) = readable_stream_reader_generic_initialize s;
                i = length (readers s)
            in (Inr i, s\<lparr>readers := readers s @ [\<lparr>closed_promise = p, attached = True, read_requests = []\<rparr>],
                         reader := Some i\<rparr>)))"

definition released_message :: string where
  "released_message =
     ''Reader was released and can no longer be used to monitor the stream's closedness''"

definition readable_stream_reader_generic_release :: "nat \<Rightarrow> readable \<Rightarrow> readable" where
  "readable_stream_reader_generic_release i s =
     (let s = (case state s of
                 Readable \<Rightarrow>
                   settle (Rejected (JsError TypeError released_message)) (closed_promise (readers s ! i)) s
               | _ \<Rightarrow>
                   update_reader i (closed_promise_update (\<lambda>_. rejected_with_constructor released_message)) s)
      in update_reader i (attached_update (\<lambda>_. False)) (s\<lparr>reader := None\<rparr>))"

text \<open>The requests are cleared before they could be rejected.\<close>

definition readable_stream_default_reader_release :: "nat \<Rightarrow> readable \<Rightarrow> readable" where
  "readable_stream_default_reader_release i s =
     (let s = update_reader i (read_requests_update (\<lambda>_. [])) s;
          s = readable_stream_reader_generic_release i s
      in error_read_requests i (JsError TypeError ''Reader was released'') s)"

subsection \<open>The controller\<close>

definition call_algorithm :: "user \<Rightarrow> call \<Rightarrow> algorithm option \<Rightarrow> readable \<Rightarrow> (answer \<times> readable) option" where
  "call_algorithm user c a s =
     (case a of
        None \<Rightarrow> None
      | Some ReturnPromiseUndefined \<Rightarrow> Some (Inr JsUndefined, s)
      | Some Callback \<Rightarrow> Some (user c s))"

definition call_size_algorithm ::
  "user \<Rightarrow> js \<Rightarrow> readable \<Rightarrow> ((js + size_value) \<times> readable) option" where
  "call_size_algorithm user chunk s =
     (case strategy_size_algorithm s of
        None \<Rightarrow> None
      | Some AlwaysOne \<Rightarrow> Some (Inr (SizeNative (Fin 1)), s)
      | Some (SizeFunction (NativeFunction Count)) \<Rightarrow> Some (Inr (SizeNative (Fin 1)), s)
      | Some (SizeFunction JsFunction) \<Rightarrow>
          (let (r, s) = user (SizeCall chunk) s in Some (map_sum id size_value_from_js r, s))
      | Some (SizeFunction (NativeFunction ByteLength)) \<Rightarrow>
          if is_js_object chunk
          then (let (r, s) = user (ByteLengthGet chunk) s in Some (map_sum id size_value_from_js r, s))
          else Some (Inl (JsError TypeError
                 ''ByteLengthQueuingStrategy argument 'chunk' must be an object''), s))"

definition clear_algorithms :: "readable \<Rightarrow> readable" where
  "clear_algorithms s =
     s\<lparr>pull_algorithm := None, cancel_algorithm := None, strategy_size_algorithm := None\<rparr>"

definition can_close_or_enqueue :: "readable \<Rightarrow> bool" where
  "can_close_or_enqueue s \<longleftrightarrow> state s = Readable \<and> \<not> close_requested s"

definition get_desired_size :: "readable \<Rightarrow> f64 option" where
  "get_desired_size s =
     (case state s of
        Errored _ \<Rightarrow> None
      | Closed \<Rightarrow> Some (Fin 0)
      | Readable \<Rightarrow> Some (fsub (strategy_hwm s) (queue_total_size (container s))))"

definition should_call_pull :: "nat option \<Rightarrow> readable \<Rightarrow> bool option" where
  "should_call_pull w s =
     (if \<not> can_close_or_enqueue s then Some False
      else if \<not> started s then Some False
      else if (case w of None \<Rightarrow> False | Some i \<Rightarrow> 0 < readable_stream_get_num_read_requests i s)
      then Some True
      else map_option (\<lambda>size. fless (Fin 0) size) (get_desired_size s))"

definition call_pull_if_needed :: "user \<Rightarrow> nat option \<Rightarrow> readable \<Rightarrow> readable option" where
  "call_pull_if_needed user w s =
     do {
       should_pull \<leftarrow> should_call_pull w s;
       if \<not> should_pull then Some s
       else if pulling s then Some (s\<lparr>pull_again := True\<rparr>)
       else do {
         (result, s) \<leftarrow> call_algorithm user PullCall (pull_algorithm s) (s\<lparr>pulling := True\<rparr>);
         Some (upon_promise (PullJob result) s)
       }
     }"

definition controller_error :: "nat option \<Rightarrow> js \<Rightarrow> readable \<Rightarrow> readable" where
  "controller_error w e s =
     (if state s \<noteq> Readable then s
      else readable_stream_error w e (clear_algorithms (s\<lparr>container := reset_queue (container s)\<rparr>)))"

definition controller_close :: "nat option \<Rightarrow> readable \<Rightarrow> readable" where
  "controller_close w s =
     (if \<not> can_close_or_enqueue s then s
      else (let s = s\<lparr>close_requested := True\<rparr>
            in if queue (container s) = [] then readable_stream_close w (clear_algorithms s) else s))"

text \<open>The part of \<open>enqueue\<close> for a chunk no read waits for.\<close>

definition enqueue_sized :: "user \<Rightarrow> nat option \<Rightarrow> js \<Rightarrow> readable \<Rightarrow> ((js + unit) \<times> readable) option" where
  "enqueue_sized user w chunk s =
     do {
       (result, s) \<leftarrow> call_size_algorithm user chunk s;
       case result of
         Inl e \<Rightarrow> Some (Inl e, controller_error w e s)
       | Inr sz \<Rightarrow>
           (case enqueue_value_with_size chunk sz (container s) of
              Inl e \<Rightarrow> Some (Inl e, controller_error w e s)
            | Inr q \<Rightarrow>
                do {
                  s \<leftarrow> call_pull_if_needed user w (s\<lparr>container := q\<rparr>);
                  Some (Inr (), s)
                })
     }"

definition controller_enqueue :: "user \<Rightarrow> nat option \<Rightarrow> js \<Rightarrow> readable \<Rightarrow> ((js + unit) \<times> readable) option" where
  "controller_enqueue user w chunk s =
     (if \<not> can_close_or_enqueue s then Some (Inr (), s)
      else (case w of
              Some i \<Rightarrow>
                if 0 < readable_stream_get_num_read_requests i s
                then do {
                  s \<leftarrow> readable_stream_fulfill_read_request i chunk False s;
                  s \<leftarrow> call_pull_if_needed user w s;
                  Some (Inr (), s)
                }
                else enqueue_sized user w chunk s
            | None \<Rightarrow> enqueue_sized user w chunk s))"

definition pull_steps :: "user \<Rightarrow> nat \<Rightarrow> nat \<Rightarrow> readable \<Rightarrow> readable option" where
  "pull_steps user i p s =
     (if queue (container s) \<noteq> []
      then do {
        (chunk, q) \<leftarrow> dequeue_value (container s);
        let s = s\<lparr>container := q\<rparr>;
        s \<leftarrow> (if close_requested s \<and> queue q = []
              then Some (readable_stream_close (Some i) (clear_algorithms s))
              else call_pull_if_needed user (Some i) s);
        Some (chunk_steps chunk p s)
      }
      else call_pull_if_needed user (Some i) (readable_stream_add_read_request i p s))"

definition cancel_steps :: "user \<Rightarrow> js \<Rightarrow> readable \<Rightarrow> (answer \<times> readable) option" where
  "cancel_steps user reason s =
     do {
       let s = s\<lparr>container := reset_queue (container s)\<rparr>;
       (result, s) \<leftarrow> call_algorithm user (CancelCall reason) (cancel_algorithm s) s;
       Some (result, clear_algorithms s)
     }"

definition readable_stream_cancel ::
  "user \<Rightarrow> nat option \<Rightarrow> js \<Rightarrow> readable \<Rightarrow> (promise \<times> readable) option" where
  "readable_stream_cancel user w reason s =
     (let s = s\<lparr>disturbed := True\<rparr>
      in case state s of
           Closed \<Rightarrow> Some (resolved_with_undefined, s)
         | Errored e \<Rightarrow> Some (rejected_with e, s)
         | Readable \<Rightarrow>
             do {
               (result, s) \<leftarrow> cancel_steps user reason (readable_stream_close w s);
               let (p, s) = new_promise s;
               Some (p, upon_promise (CancelJob p result) s)
             })"

definition default_reader_read :: "user \<Rightarrow> nat \<Rightarrow> nat \<Rightarrow> readable \<Rightarrow> readable option" where
  "default_reader_read user i p s =
     (let s = s\<lparr>disturbed := True\<rparr>
      in case state s of
           Closed \<Rightarrow> Some (close_steps p s)
         | Errored e \<Rightarrow> Some (error_steps e p s)
         | Readable \<Rightarrow> pull_steps user i p s)"

definition read_default :: "user \<Rightarrow> nat \<Rightarrow> readable \<Rightarrow> (nat \<times> readable) option" where
  "read_default user i s =
     (let p = length (reads s)
      in map_option (\<lambda>s. (p, s)) (default_reader_read user i p (s\<lparr>reads := reads s @ [None]\<rparr>)))"

text \<open>Draining a stream that was closed from \<open>start\<close> without going through promises.\<close>

function drain_queue :: "queue_with_sizes \<Rightarrow> js list \<times> queue_with_sizes" where
  "drain_queue q =
     (case dequeue_value q of
        None \<Rightarrow> ([], q)
      | Some (chunk, q) \<Rightarrow> (let (chunks, q) = drain_queue q in (chunk # chunks, q)))"
  by pat_completeness auto

termination
  by (relation "measure (\<lambda>q. length (queue q))")
    (auto simp: dequeue_value_def Let_def split: list.splits)

declare drain_queue.simps [simp del]

definition try_sync_drain_closed_stream :: "readable \<Rightarrow> js list option \<times> readable" where
  "try_sync_drain_closed_stream s =
     (if disturbed s \<or> is_readable_stream_locked s \<or> state s \<noteq> Readable \<or> \<not> close_requested s
      then (None, s)
      else (let (chunks, q) = drain_queue (container s)
            in (Some chunks, s\<lparr>container := q, disturbed := True, state := Closed\<rparr>)))"

subsection \<open>Setting a stream up\<close>

definition initial_readable :: "algorithm \<Rightarrow> algorithm \<Rightarrow> f64 \<Rightarrow> size_algorithm \<Rightarrow> bool \<Rightarrow> readable" where
  "initial_readable pull_alg cancel_alg hwm size_alg owning =
     \<lparr>promises = [], reads = [], readers = [], jobs = [], disturbed = False, state = Readable,
      reader = None, cancel_algorithm = Some cancel_alg, close_requested = False,
      pull_again = False, pull_algorithm = Some pull_alg, pulling = False, container = new_queue,
      started = False, strategy_hwm = hwm, strategy_size_algorithm = Some size_alg,
      is_owning_type = owning\<rparr>"

text \<open>\<open>start\<close> is \<open>StartAlgorithm::Function\<close> when there is one.\<close>

definition set_up_readable_stream_default_controller ::
  "user \<Rightarrow> bool \<Rightarrow> algorithm \<Rightarrow> algorithm \<Rightarrow> f64 \<Rightarrow> size_algorithm \<Rightarrow> bool \<Rightarrow> (js + unit) \<times> readable" where
  "set_up_readable_stream_default_controller user start pull_alg cancel_alg hwm size_alg owning =
     (let s = initial_readable pull_alg cancel_alg hwm size_alg owning
      in case (if start then user StartCall s else (Inr JsUndefined, s)) of
           (Inl e, s) \<Rightarrow> (Inl e, s)
         | (Inr v, s) \<Rightarrow> (Inr (), upon_promise (StartJob (Inr v)) s))"

record underlying_source =
  source_start :: bool
  source_pull :: bool
  source_cancel :: bool
  source_owning :: bool

definition source_algorithm :: "bool \<Rightarrow> algorithm" where
  "source_algorithm present = (if present then Callback else ReturnPromiseUndefined)"

definition set_up_from_underlying_source ::
  "user \<Rightarrow> underlying_source \<Rightarrow> f64 \<Rightarrow> size_algorithm \<Rightarrow> (js + unit) \<times> readable" where
  "set_up_from_underlying_source user source hwm size_alg =
     set_up_readable_stream_default_controller user (source_start source)
       (source_algorithm (source_pull source)) (source_algorithm (source_cancel source)) hwm size_alg
       (source_owning source)"

definition new_readable_stream :: "user \<Rightarrow> underlying_source \<Rightarrow> queuing_strategy option \<Rightarrow> js + readable" where
  "new_readable_stream user source strategy =
     (let size_alg = extract_size_algorithm strategy
      in case extract_high_water_mark strategy (Fin 1) of
           Inl e \<Rightarrow> Inl e
         | Inr hwm \<Rightarrow>
             (case set_up_from_underlying_source user source hwm size_alg of
                (Inl e, _) \<Rightarrow> Inl e
              | (Inr _, s) \<Rightarrow> Inr s))"

subsection \<open>The methods scripts call\<close>

datatype api =
    GetReader
  | StreamCancel "js option"
  | ReaderRead nat
  | ReaderReleaseLock nat
  | ReaderCancel nat "js option"
  | ControllerEnqueue "js option" "js list"
  | ControllerClose
  | ControllerError "js option"
  | EnqueueValue js
  | CloseStream
  | ErrorStream js
  | SyncDrain

datatype returned =
    ReturnedUnit
  | ReturnedPromise promise
  | ReturnedRead nat
  | ReturnedReader nat
  | ReturnedChunks "js list option"

abbreviation type_error_promise :: "string \<Rightarrow> readable \<Rightarrow> ((js + returned) \<times> readable) option" where
  "type_error_promise msg s \<equiv> Some (Inr (ReturnedPromise (rejected_with_constructor msg)), s)"

definition method_get_reader :: "readable \<Rightarrow> (js + returned) \<times> readable" where
  "method_get_reader s =
     (let (r, s) = set_up_readable_stream_default_reader s in (map_sum id ReturnedReader r, s))"

definition method_stream_cancel :: "user \<Rightarrow> js option \<Rightarrow> readable \<Rightarrow> ((js + returned) \<times> readable) option" where
  "method_stream_cancel user reason s =
     (if is_readable_stream_locked s
      then type_error_promise ''Cannot cancel a stream that already has a reader'' s
      else map_option (\<lambda>(p, s). (Inr (ReturnedPromise p), s))
             (readable_stream_cancel user (refresh_reader s) (unwrap_or_undefined reason) s))"

definition method_reader_read :: "user \<Rightarrow> nat \<Rightarrow> readable \<Rightarrow> ((js + returned) \<times> readable) option" where
  "method_reader_read user i s =
     (if \<not> attached (readers s ! i)
      then type_error_promise ''Cannot read from a stream using a released reader'' s
      else map_option (\<lambda>(p, s). (Inr (ReturnedRead p), s)) (read_default user i s))"

definition method_release_lock :: "nat \<Rightarrow> readable \<Rightarrow> readable" where
  "method_release_lock i s =
     (if \<not> attached (readers s ! i) then s else readable_stream_default_reader_release i s)"

definition method_reader_cancel ::
  "user \<Rightarrow> nat \<Rightarrow> js option \<Rightarrow> readable \<Rightarrow> ((js + returned) \<times> readable) option" where
  "method_reader_cancel user i reason s =
     (if \<not> attached (readers s ! i)
      then type_error_promise ''Cannot cancel a stream using a released reader'' s
      else map_option (\<lambda>(p, s). (Inr (ReturnedPromise p), s))
             (readable_stream_cancel user (Some i) (unwrap_or_undefined reason) s))"

text \<open>
  A list item that is not an \<open>ArrayBuffer\<close>, and a \<open>transfer\<close> method that throws, make the call
  answer with an exception.
\<close>

fun transfer_owning_chunk ::
  "user \<Rightarrow> js \<Rightarrow> js option \<Rightarrow> js list \<Rightarrow> readable \<Rightarrow> (js + js) \<times> readable" where
  "transfer_owning_chunk user chunk replacement [] s =
     (Inr (case replacement of None \<Rightarrow> chunk | Some b \<Rightarrow> b), s)"
| "transfer_owning_chunk user chunk replacement (v # vs) s =
     (case user (TransferCall v) s of
        (Inl e, s) \<Rightarrow> (Inl e, s)
      | (Inr b, s) \<Rightarrow>
          transfer_owning_chunk user chunk
            (if chunk = v \<and> replacement = None then Some b else replacement) vs s)"

definition method_controller_enqueue ::
  "user \<Rightarrow> js option \<Rightarrow> js list \<Rightarrow> readable \<Rightarrow> ((js + returned) \<times> readable) option" where
  "method_controller_enqueue user chunk transfer s =
     (let chunk = unwrap_or_undefined chunk
      in if transfer \<noteq> [] \<and> \<not> is_owning_type s
         then Some (Inl (JsError TypeError ''transfer list is not empty''), s)
         else case (if transfer \<noteq> [] \<and> is_owning_type s
                    then transfer_owning_chunk user chunk None transfer s else (Inr chunk, s)) of
           (Inl e, s) \<Rightarrow> Some (Inl e, s)
         | (Inr chunk, s) \<Rightarrow>
             if \<not> can_close_or_enqueue s
             then Some (Inl (JsError TypeError ''The stream is not in a state that permits enqueue''), s)
             else map_option (\<lambda>(r, s). (map_sum id (\<lambda>_. ReturnedUnit) r, s))
                    (controller_enqueue user (refresh_reader s) chunk s))"

definition method_controller_close :: "readable \<Rightarrow> (js + returned) \<times> readable" where
  "method_controller_close s =
     (if \<not> can_close_or_enqueue s
      then (Inl (JsError TypeError ''The stream is not in a state that permits close''), s)
      else (Inr ReturnedUnit, controller_close (refresh_reader s) s))"

definition method_controller_error :: "js option \<Rightarrow> readable \<Rightarrow> readable" where
  "method_controller_error e s = controller_error (refresh_reader s) (unwrap_or_undefined e) s"

subsubsection \<open>Of a controller, for Rust code\<close>

definition enqueue_value :: "user \<Rightarrow> js \<Rightarrow> readable \<Rightarrow> ((js + unit) \<times> readable) option" where
  "enqueue_value user chunk s =
     (if \<not> can_close_or_enqueue s then Some (Inr (), s)
      else controller_enqueue user (refresh_reader s) chunk s)"

definition close_stream :: "readable \<Rightarrow> readable" where
  "close_stream s =
     (if \<not> can_close_or_enqueue s then s else controller_close (refresh_reader s) s)"

definition error_stream :: "js \<Rightarrow> readable \<Rightarrow> readable" where
  "error_stream e s = controller_error (refresh_reader s) e s"

fun invoke :: "user \<Rightarrow> api \<Rightarrow> readable \<Rightarrow> ((js + returned) \<times> readable) option" where
  "invoke user GetReader s = Some (method_get_reader s)"
| "invoke user (StreamCancel reason) s = method_stream_cancel user reason s"
| "invoke user (ReaderRead i) s = method_reader_read user i s"
| "invoke user (ReaderReleaseLock i) s = Some (Inr ReturnedUnit, method_release_lock i s)"
| "invoke user (ReaderCancel i reason) s = method_reader_cancel user i reason s"
| "invoke user (ControllerEnqueue chunk transfer) s = method_controller_enqueue user chunk transfer s"
| "invoke user ControllerClose s = Some (method_controller_close s)"
| "invoke user (ControllerError e) s = Some (Inr ReturnedUnit, method_controller_error e s)"
| "invoke user (EnqueueValue chunk) s =
     map_option (\<lambda>(r, s). (map_sum id (\<lambda>_. ReturnedUnit) r, s)) (enqueue_value user chunk s)"
| "invoke user CloseStream s = Some (Inr ReturnedUnit, close_stream s)"
| "invoke user (ErrorStream e) s = Some (Inr ReturnedUnit, error_stream e s)"
| "invoke user SyncDrain s =
     (let (chunks, s) = try_sync_drain_closed_stream s in Some (Inr (ReturnedChunks chunks), s))"

subsection \<open>Reactions\<close>

definition start_settled :: "user \<Rightarrow> settlement \<Rightarrow> readable \<Rightarrow> readable option" where
  "start_settled user result s =
     (let w = refresh_reader s
      in case result of
           Fulfilled _ \<Rightarrow> call_pull_if_needed user w (s\<lparr>started := True\<rparr>)
         | Rejected r \<Rightarrow> Some (controller_error w r s))"

definition pull_settled :: "user \<Rightarrow> settlement \<Rightarrow> readable \<Rightarrow> readable option" where
  "pull_settled user result s =
     (let w = refresh_reader s
      in case result of
           Fulfilled _ \<Rightarrow>
             (let s = s\<lparr>pulling := False\<rparr>
              in if pull_again s then call_pull_if_needed user w (s\<lparr>pull_again := False\<rparr>) else Some s)
         | Rejected e \<Rightarrow> Some (controller_error w e s))"

text \<open>
  \<open>upon_promise_fulfilment\<close> passes a rejection on. The closure takes \<open>()\<close>, into which any value converts:
  what \<open>cancel\<close> answered is ignored, as in the standard.
\<close>

definition cancel_settled :: "promise \<Rightarrow> settlement \<Rightarrow> readable \<Rightarrow> readable" where
  "cancel_settled p result s =
     (case result of
        Fulfilled _ \<Rightarrow> settle (Fulfilled JsUndefined) p s
      | Rejected e \<Rightarrow> settle (Rejected e) p s)"

fun react :: "user \<Rightarrow> job \<Rightarrow> settlement \<Rightarrow> readable \<Rightarrow> readable option" where
  "react user (StartJob _) result s = start_settled user result s"
| "react user (PullJob _) result s = pull_settled user result s"
| "react user (CancelJob p _) result s = Some (cancel_settled p result s)"

fun job_answer :: "job \<Rightarrow> answer" where
  "job_answer (StartJob a) = a"
| "job_answer (PullJob a) = a"
| "job_answer (CancelJob _ a) = a"

subsection \<open>Runs\<close>

datatype event = Invoke api | Settle nat settlement

fun reader_named :: "api \<Rightarrow> nat option" where
  "reader_named (ReaderRead i) = Some i"
| "reader_named (ReaderReleaseLock i) = Some i"
| "reader_named (ReaderCancel i _) = Some i"
| "reader_named _ = None"

fun enabled :: "event \<Rightarrow> readable \<Rightarrow> bool" where
  "enabled (Invoke a) s =
     (case reader_named a of None \<Rightarrow> True | Some i \<Rightarrow> i < length (readers s))"
| "enabled (Settle k r) s = (k < length (jobs s) \<and> may_settle (job_answer (jobs s ! k)) r)"

fun run_event :: "user \<Rightarrow> event \<Rightarrow> readable \<Rightarrow> readable option" where
  "run_event user (Invoke a) s = map_option snd (invoke user a s)"
| "run_event user (Settle k r) s = react user (jobs s ! k) r (s\<lparr>jobs := remove_nth k (jobs s)\<rparr>)"

inductive stream_step :: "user \<Rightarrow> readable \<Rightarrow> readable \<Rightarrow> bool" for user where
  step: "enabled e s \<Longrightarrow> run_event user e s = Some s' \<Longrightarrow> stream_step user s s'"

inductive reachable :: "user \<Rightarrow> readable \<Rightarrow> bool" for user where
  created: "new_readable_stream user source strategy = Inr s \<Longrightarrow> reachable user s"
| stepped: "reachable user s \<Longrightarrow> stream_step user s s' \<Longrightarrow> reachable user s'"

inductive_cases stream_stepE: "stream_step user s s'"

end
