(* ===== verification/Readable_Safety.thy ===== *)
theory Readable_Safety
  imports Readable "HOL-Library.Sublist"
begin

text \<open>
  What holds of a readable stream at every moment user code can look at it, and what every
  operation keeps.

  The invariant \<open>wf plain k d\<close> is indexed by what the running calls still owe: \<open>k\<close> is the job whose
  callback is running, \<open>d\<close> maps a read to the chunk already taken from the queue for it. With
  \<open>plain\<close> it says in addition that reads and chunks meet in order; this needs a strategy whose
  \<open>size\<close> does not use the stream it measures for.
\<close>

subsection \<open>Reads\<close>

type_synonym debt = "nat \<Rightarrow> js option"

fun item :: "read_result option \<Rightarrow> js option \<Rightarrow> js list" where
  "item (Some (ReadValue c)) _ = [c]"
| "item (Some _) _ = []"
| "item None (Some c) = [c]"
| "item None None = []"

text \<open>The chunks given to reads, in the order of the calls of \<open>read\<close>.\<close>

definition answered :: "debt \<Rightarrow> read_result option list \<Rightarrow> js list" where
  "answered d rs = concat (map (\<lambda>i. item (rs ! i) (d i)) [0..<length rs])"

definition answers_before :: "debt \<Rightarrow> read_result option list \<Rightarrow> nat \<Rightarrow> bool" where
  "answers_before d rs p \<longleftrightarrow> (\<forall>q<length rs. item (rs ! q) (d q) \<noteq> [] \<longrightarrow> q < p)"

lemma answered_cong:
  "length rs = length rs' \<Longrightarrow> (\<And>i. i < length rs \<Longrightarrow> item (rs ! i) (d i) = item (rs' ! i) (d' i)) \<Longrightarrow>
     answered d rs = answered d' rs'"
  unfolding answered_def by (rule arg_cong [where f = concat]) auto

lemma answered_snoc [simp]: "answered d (rs @ [r]) = answered d rs @ item r (d (length rs))"
proof -
  have "answered d (rs @ [r]) =
      concat (map (\<lambda>i. item ((rs @ [r]) ! i) (d i)) [0..<length rs]) @ item r (d (length rs))"
    by (simp add: answered_def)
  moreover have "concat (map (\<lambda>i. item ((rs @ [r]) ! i) (d i)) [0..<length rs]) = answered d rs"
    unfolding answered_def by (rule arg_cong [where f = concat]) (auto simp: nth_append)
  ultimately show ?thesis by simp
qed

lemma answered_split:
  assumes "p < length rs"
  shows "answered d rs = concat (map (\<lambda>i. item (rs ! i) (d i)) [0..<p]) @ item (rs ! p) (d p)
    @ concat (map (\<lambda>i. item (rs ! i) (d i)) [Suc p..<length rs])"
proof -
  have "[0..<length rs] = [0..<p] @ p # [Suc p..<length rs]"
    using assms by (metis le_add_same_cancel1 less_imp_le_nat upt_add_eq_append upt_conv_Cons zero_le add_0 le_add_diff_inverse)
  then show ?thesis by (simp add: answered_def)
qed

lemma answered_last:
  assumes "p < length rs" "answers_before d rs p" "rs ! p = None" "d p = None"
    and "length rs' = length rs" "item (rs' ! p) (d' p) = [c]"
    and "\<And>i. i < length rs \<Longrightarrow> i \<noteq> p \<Longrightarrow> item (rs' ! i) (d' i) = item (rs ! i) (d i)"
  shows "answered d' rs' = answered d rs @ [c]"
proof -
  have none: "concat (map (\<lambda>i. item (rs ! i) (d i)) [Suc p..<length rs]) = []"
    using assms(2) by (auto simp: answers_before_def)
  have "concat (map (\<lambda>i. item (rs' ! i) (d' i)) [Suc p..<length rs]) = concat (map (\<lambda>i. item (rs ! i) (d i)) [Suc p..<length rs])"
    by (rule arg_cong [where f = concat]) (auto simp: assms(7))
  moreover have "concat (map (\<lambda>i. item (rs' ! i) (d' i)) [0..<p]) = concat (map (\<lambda>i. item (rs ! i) (d i)) [0..<p])"
    using assms(1) by (intro arg_cong [where f = concat]) (auto simp: assms(7))
  ultimately show ?thesis
    using answered_split [of p rs d] answered_split [of p rs' d'] assms none by simp
qed

text \<open>What settling a number of reads without a chunk does to their store.\<close>

definition settle_reads :: "read_result \<Rightarrow> nat list \<Rightarrow> read_result option list \<Rightarrow> read_result option list" where
  "settle_reads r ps rs = fold (\<lambda>p rs. if p < length rs \<and> rs ! p = None then rs[p := Some r] else rs) ps rs"

lemma fold_settle_read: "fold (settle_read r) ps s = s\<lparr>reads := settle_reads r ps (reads s)\<rparr>"
  by (induction ps arbitrary: s) (auto simp: settle_reads_def settle_read_def)

lemma settle_reads_Nil [simp]: "settle_reads r [] rs = rs"
  by (simp add: settle_reads_def)

lemma length_settle_reads [simp]: "length (settle_reads r ps rs) = length rs"
  by (induction ps arbitrary: rs) (simp_all add: settle_reads_def)

lemma nth_settle_reads:
  "i < length rs \<Longrightarrow> settle_reads r ps rs ! i = (if i \<in> set ps \<and> rs ! i = None then Some r else rs ! i)"
proof (induction ps arbitrary: rs)
  case (Cons p ps)
  let ?rs = "if p < length rs \<and> rs ! p = None then rs[p := Some r] else rs"
  have "settle_reads r (p # ps) rs = settle_reads r ps ?rs" by (simp add: settle_reads_def)
  moreover have "i < length ?rs" using Cons.prems by simp
  ultimately show ?case using Cons.IH [of ?rs] Cons.prems by (auto simp: nth_list_update)
qed simp

lemma answered_settle_reads:
  "\<forall>p \<in> set ps. d p = None \<Longrightarrow> \<forall>c. r \<noteq> ReadValue c \<Longrightarrow> answered d (settle_reads r ps rs) = answered d rs"
  by (rule answered_cong) (cases r; auto simp: nth_settle_reads)+

subsection \<open>The invariant\<close>

datatype owed = Nothing | OwesStart | OwesPull

fun starts :: "job \<Rightarrow> nat" where
  "starts (StartJob _) = 1"
| "starts _ = 0"

fun pulls :: "job \<Rightarrow> nat" where
  "pulls (PullJob _) = 1"
| "pulls _ = 0"

definition waiting :: "readable \<Rightarrow> nat list" where
  "waiting s = (case reader s of None \<Rightarrow> [] | Some i \<Rightarrow> read_requests (readers s ! i))"

definition lock_ok :: "readable \<Rightarrow> bool" where
  "lock_ok s \<longleftrightarrow>
     (\<forall>i. reader s = Some i \<longrightarrow> i < length (readers s)) \<and>
     (\<forall>i<length (readers s). (attached (readers s ! i) \<longleftrightarrow> reader s = Some i)
        \<and> (reader s \<noteq> Some i \<longrightarrow> read_requests (readers s ! i) = []))"

definition reads_ok :: "debt \<Rightarrow> readable \<Rightarrow> bool" where
  "reads_ok d s \<longleftrightarrow>
     sorted_wrt (<) (waiting s) \<and>
     (\<forall>p \<in> set (waiting s). p < length (reads s) \<and> reads s ! p = None \<and> d p = None) \<and>
     (\<forall>p. d p \<noteq> None \<longrightarrow> p < length (reads s) \<and> reads s ! p = None)"

definition algorithms_ok :: "readable \<Rightarrow> bool" where
  "algorithms_ok s \<longleftrightarrow>
     (state s = Readable \<longrightarrow>
        pull_algorithm s \<noteq> None \<and> cancel_algorithm s \<noteq> None \<and> strategy_size_algorithm s \<noteq> None \<and>
        (close_requested s \<longrightarrow> queue (container s) \<noteq> []))"

definition jobs_ok :: "owed \<Rightarrow> readable \<Rightarrow> bool" where
  "jobs_ok k s \<longleftrightarrow>
     (let n = owing starts (jobs s) + (if k = OwesStart then 1 else 0);
          m = owing pulls (jobs s) + (if k = OwesPull then 1 else 0)
      in n \<le> 1 \<and> (started s \<longrightarrow> n = 0) \<and> (state s = Readable \<and> \<not> started s \<longrightarrow> n = 1) \<and>
         m \<le> 1 \<and> (0 < m \<longrightarrow> pulling s) \<and> (state s = Readable \<and> pulling s \<longrightarrow> m = 1) \<and>
         (pull_again s \<longrightarrow> pulling s))"

definition order_ok :: "debt \<Rightarrow> readable \<Rightarrow> bool" where
  "order_ok d s \<longleftrightarrow>
     (waiting s \<noteq> [] \<longrightarrow> state s = Readable \<and> queue (container s) = []) \<and>
     (\<forall>p \<in> set (waiting s). answers_before d (reads s) p)"

definition wf :: "bool \<Rightarrow> owed \<Rightarrow> debt \<Rightarrow> readable \<Rightarrow> bool" where
  "wf plain k d s \<longleftrightarrow>
     sized (container s) \<and> lock_ok s \<and> reads_ok d s \<and> algorithms_ok s \<and> jobs_ok k s \<and>
     (plain \<longrightarrow> order_ok d s)"

text \<open>
  How a stream may change. Given to reads or queued, the chunks form a line: it only grows at its
  end while the stream is readable, and what reads got is always an initial part of it.
\<close>

definition line :: "debt \<Rightarrow> readable \<Rightarrow> js list" where
  "line d s = answered d (reads s) @ chunks (container s)"

definition continues :: "debt \<Rightarrow> js list \<Rightarrow> readable \<Rightarrow> readable \<Rightarrow> bool" where
  "continues d l s s' \<longleftrightarrow>
     (\<exists>new. prefix (answered d (reads s')) (l @ new) \<and>
        (state s' = Readable \<longrightarrow> line d s' = l @ new) \<and>
        (state s \<noteq> Readable \<longrightarrow> answered d (reads s') = answered d (reads s)))"

definition progress :: "readable \<Rightarrow> readable \<Rightarrow> bool" where
  "progress s s' \<longleftrightarrow>
     (state s \<noteq> Readable \<longrightarrow> state s' = state s) \<and> (disturbed s \<longrightarrow> disturbed s') \<and>
     length (readers s) \<le> length (readers s') \<and> length (reads s) \<le> length (reads s') \<and>
     (\<forall>i<length (reads s). reads s ! i \<noteq> None \<longrightarrow> reads s' ! i = reads s ! i)"

definition later :: "bool \<Rightarrow> debt \<Rightarrow> readable \<Rightarrow> readable \<Rightarrow> bool" where
  "later plain d s s' \<longleftrightarrow> progress s s' \<and> (plain \<longrightarrow> continues d (line d s) s s')"

lemma progress_refl [simp]: "progress s s"
  by (simp add: progress_def)

lemma progress_trans: "progress a b \<Longrightarrow> progress b c \<Longrightarrow> progress a c"
  unfolding progress_def by (metis le_trans less_le_trans)

lemma continues_trans:
  assumes "progress a b" "progress b c" "continues d l a b" "continues d (line d b) b c"
  shows "continues d l a c"
proof -
  obtain new1 where 1: "prefix (answered d (reads b)) (l @ new1)" "state b = Readable \<Longrightarrow> line d b = l @ new1"
    "state a \<noteq> Readable \<Longrightarrow> answered d (reads b) = answered d (reads a)"
    using assms(3) by (auto simp: continues_def)
  obtain new2 where 2: "prefix (answered d (reads c)) (line d b @ new2)"
    "state c = Readable \<Longrightarrow> line d c = line d b @ new2"
    "state b \<noteq> Readable \<Longrightarrow> answered d (reads c) = answered d (reads b)"
    using assms(4) by (auto simp: continues_def)
  have st: "state c = Readable \<Longrightarrow> state b = Readable" "state a \<noteq> Readable \<Longrightarrow> state b \<noteq> Readable"
    using assms(1,2) by (auto simp: progress_def)
  show ?thesis
  proof (cases "state b = Readable")
    case True
    then show ?thesis using 1 2 st unfolding continues_def by (intro exI [of _ "new1 @ new2"]) auto
  next
    case False
    then show ?thesis using 1 2 st unfolding continues_def by (intro exI [of _ new1]) auto
  qed
qed

lemma continues_refl: "continues d (line d s) s s"
  unfolding continues_def by (intro exI [of _ "[]"]) (simp add: line_def)

lemma readable_later_refl [simp]: "later plain d s s"
  by (simp add: later_def continues_refl)

lemma readable_later_trans [trans]: "later plain d a b \<Longrightarrow> later plain d b c \<Longrightarrow> later plain d a c"
  by (auto simp: later_def intro: progress_trans continues_trans)

lemmas wf_simps = wf_def lock_ok_def reads_ok_def algorithms_ok_def jobs_ok_def order_ok_def
  waiting_def Let_def

text \<open>What an operation changes that neither the invariant nor the line looks at.\<close>

lemma parts_irrelevant [simp]:
  "lock_ok (s\<lparr>promises := ps\<rparr>) = lock_ok s" "lock_ok (s\<lparr>disturbed := b\<rparr>) = lock_ok s"
  "waiting (s\<lparr>promises := ps\<rparr>) = waiting s" "waiting (s\<lparr>disturbed := b\<rparr>) = waiting s"
  by (simp_all add: lock_ok_def waiting_def split: option.split)

lemma readable_wf_irrelevant [simp]:
  "wf plain k d (s\<lparr>promises := ps\<rparr>) = wf plain k d s"
  "wf plain k d (s\<lparr>disturbed := b\<rparr>) = wf plain k d s"
  by (simp_all add: wf_def reads_ok_def algorithms_ok_def jobs_ok_def order_ok_def)

lemma line_irrelevant [simp]:
  "line d (s\<lparr>promises := ps\<rparr>) = line d s" "line d (s\<lparr>disturbed := b\<rparr>) = line d s"
  by (simp_all add: line_def)

lemma later_irrelevant [simp]:
  "later plain d s (s\<lparr>promises := ps\<rparr>)" "later plain d s (s\<lparr>disturbed := True\<rparr>)"
  unfolding later_def continues_def progress_def
  by (auto intro!: exI [of _ "[]"] simp: line_def)

subsection \<open>User code\<close>

text \<open>
  What the language promises about a callback: it reaches the stream through the methods of its
  objects only, so it keeps what they keep. Scripts built from those methods are shown to be such
  below (\<open>readable_script_ok\<close>).
\<close>

fun measures :: "call \<Rightarrow> bool" where
  "measures (SizeCall _) = True"
| "measures (ByteLengthGet _) = True"
| "measures _ = False"

definition user_ok :: "bool \<Rightarrow> user \<Rightarrow> bool" where
  "user_ok plain user \<longleftrightarrow>
     (\<forall>k d c s. wf plain k d s \<longrightarrow> wf plain k d (snd (user c s)) \<and> later plain d s (snd (user c s))) \<and>
     (plain \<longrightarrow> (\<forall>c s. measures c \<longrightarrow> snd (user c s) = s))"

lemma readable_user_okD:
  "user_ok plain user \<Longrightarrow> user c s = (a, s') \<Longrightarrow> wf plain k d s \<Longrightarrow> wf plain k d s' \<and> later plain d s s'"
  by (metis snd_conv user_ok_def)

lemma readable_call_algorithm_ok:
  assumes "user_ok plain user" "wf plain k d s" "a \<noteq> None"
  shows "yields (\<lambda>(_, s'). wf plain k d s' \<and> later plain d s s') (call_algorithm user c a s)"
  using assms readable_user_okD [OF assms(1) _ assms(2)]
  by (auto simp: call_algorithm_def split: option.splits algorithm.splits prod.splits)

subsection \<open>Closing and erroring\<close>

definition requests_of :: "nat option \<Rightarrow> readable \<Rightarrow> nat list" where
  "requests_of w s = (case w of None \<Rightarrow> [] | Some i \<Rightarrow> read_requests (readers s ! i))"

lemma requests_of_simps [simp]:
  "requests_of None s = []" "requests_of (Some i) s = read_requests (readers s ! i)"
  by (simp_all add: requests_of_def)

lemma waiting_requests: "waiting s = requests_of (reader s) s"
  by (simp add: waiting_def requests_of_def)

abbreviation held :: "nat option \<Rightarrow> readable \<Rightarrow> bool" where
  "held w s \<equiv> (\<forall>i. w = Some i \<longrightarrow> i < length (readers s))"

lemma lock_held: "lock_ok s \<Longrightarrow> held (reader s) s"
  by (auto simp: lock_ok_def split: option.split)

lemma requests_waiting:
  "lock_ok s \<Longrightarrow> held w s \<Longrightarrow> requests_of w s = (if w = reader s then waiting s else [])"
  by (cases w; cases "w = reader s") (simp_all add: lock_ok_def waiting_requests)

definition finishes :: "nat option \<Rightarrow> stream_state \<Rightarrow> readable \<Rightarrow> readable \<Rightarrow> bool" where
  "finishes w st s s' \<longleftrightarrow>
     (\<exists>ps rs r. s' = s\<lparr>state := st, promises := ps, readers := rs,
          reads := settle_reads r (requests_of w s) (reads s)\<rparr> \<and>
        (\<forall>c. r \<noteq> ReadValue c) \<and> length rs = length (readers s) \<and>
        (\<forall>i<length rs. attached (rs ! i) = attached (readers s ! i) \<and>
           read_requests (rs ! i) = (if w = Some i then [] else read_requests (readers s ! i))))"

lemma close_finishes: "finishes w Closed s (readable_stream_close w s)"
proof (cases w)
  case (Some i)
  then show ?thesis unfolding finishes_def
    by (intro exI [of _ "promises (readable_stream_close w s)"] exI [of _ "readers (readable_stream_close w s)"]
        exI [of _ ReadDone])
      (simp add: readable_stream_close_def with_reader_def settle_def update_reader_def Let_def
        close_steps_def fold_settle_read nth_list_update)
next
  case None
  then show ?thesis unfolding finishes_def
    by (intro exI [of _ "promises s"] exI [of _ "readers s"] exI [of _ ReadDone])
      (simp add: readable_stream_close_def with_reader_def)
qed

lemma error_finishes: "finishes w (Errored e) s (readable_stream_error w e s)"
proof (cases w)
  case (Some i)
  then show ?thesis unfolding finishes_def
    by (intro exI [of _ "promises (readable_stream_error w e s)"] exI [of _ "readers (readable_stream_error w e s)"]
        exI [of _ "ReadFailed e"])
      (simp add: readable_stream_error_def with_reader_def settle_def update_reader_def Let_def
        error_read_requests_def error_steps_def [abs_def] fold_settle_read nth_list_update)
next
  case None
  then show ?thesis unfolding finishes_def
    by (intro exI [of _ "promises s"] exI [of _ "readers s"] exI [of _ ReadDone])
      (simp add: readable_stream_error_def with_reader_def)
qed

lemma jobs_finished: "st \<noteq> Readable \<Longrightarrow> jobs_ok k s \<Longrightarrow> jobs_ok k (s\<lparr>state := st\<rparr>)"
  by (simp add: jobs_ok_def Let_def)

lemma finishes_ok:
  assumes f: "finishes w st s s'" and st: "st \<noteq> Readable" "state s = Readable"
    and s: "sized (container s)" "lock_ok s" "reads_ok d s" "jobs_ok k (s\<lparr>state := st\<rparr>)" "held w s" "plain \<longrightarrow> w = reader s"
  shows "wf plain k d s'" "progress s s'" "answered d (reads s') = answered d (reads s)"
    "state s' = st" "container s' = container s" "reader s' = reader s"
    "pull_algorithm s' = pull_algorithm s" "cancel_algorithm s' = cancel_algorithm s"
    "\<And>p. p \<notin> set (waiting s) \<Longrightarrow> p < length (reads s) \<Longrightarrow> reads s' ! p = reads s ! p"
    "length (reads s') = length (reads s)" "plain \<Longrightarrow> waiting s' = []"
proof -
  let ?R = "requests_of w s"
  obtain ps rs r where s': "s' = s\<lparr>state := st, promises := ps, readers := rs, reads := settle_reads r ?R (reads s)\<rparr>"
    and r: "\<forall>c. r \<noteq> ReadValue c" and rs: "length rs = length (readers s)"
    "\<And>i. i < length rs \<Longrightarrow> attached (rs ! i) = attached (readers s ! i) \<and>
           read_requests (rs ! i) = (if w = Some i then [] else read_requests (readers s ! i))"
    using f by (auto simp: finishes_def)
  have R: "?R = (if w = reader s then waiting s else [])" using requests_waiting s by blast
  have d: "\<forall>p \<in> set ?R. d p = None" using R s(3) by (auto simp: reads_ok_def)
  show same: "answered d (reads s') = answered d (reads s)"
    using answered_settle_reads [OF d r] by (simp add: s')
  show "state s' = st" "container s' = container s" "reader s' = reader s"
    "pull_algorithm s' = pull_algorithm s" "cancel_algorithm s' = cancel_algorithm s"
    "length (reads s') = length (reads s)" by (simp_all add: s')
  show "reads s' ! p = reads s ! p" if "p \<notin> set (waiting s)" "p < length (reads s)" for p
    using that R by (auto simp: s' nth_settle_reads)
  show "progress s s'" using st rs(1) by (simp add: progress_def s' nth_settle_reads)
  have lock: "lock_ok s'" using s(2) rs by (auto simp: lock_ok_def s')
  have waiting: "waiting s' = (if w = reader s then [] else waiting s)"
    using s(2) rs by (auto simp: waiting_def s' lock_ok_def split: option.splits)
  then show "plain \<Longrightarrow> waiting s' = []" using s(6) by simp
  have debt: "reads s ! p = None \<and> p \<notin> set ?R \<and> p < length (reads s)" if "d p \<noteq> None" for p
    using that s(3) d by (auto simp: reads_ok_def)
  have "reads_ok d s'"
  proof (cases "w = reader s")
    case True
    then show ?thesis using debt waiting by (auto simp: reads_ok_def s' nth_settle_reads)
  next
    case False
    then show ?thesis using s(3) waiting R by (simp add: reads_ok_def) (simp add: s')
  qed
  moreover have "algorithms_ok s'" using st by (simp add: algorithms_ok_def s')
  moreover have "jobs_ok k s'" using s(4) st by (simp add: jobs_ok_def Let_def s')
  moreover have "sized (container s')" using s(1) by (simp add: s')
  moreover have "plain \<longrightarrow> order_ok d s'" using waiting s(6) by (simp add: order_ok_def)
  ultimately show "wf plain k d s'" using lock by (simp add: wf_def)
qed

lemma finished_later:
  assumes "progress s s'" "answered d (reads s') = answered d (reads s)" "state s' \<noteq> Readable"
  shows "later plain d s s'"
  using assms by (auto simp: later_def continues_def line_def intro!: exI [of _ "[]"])

text \<open>What the operations change before they close or error a stream.\<close>

lemma clear_algorithms_parts [simp]:
  "lock_ok (clear_algorithms s) = lock_ok s" "reads_ok d (clear_algorithms s) = reads_ok d s"
  "jobs_ok k (clear_algorithms s) = jobs_ok k s" "order_ok d (clear_algorithms s) = order_ok d s"
  "container (clear_algorithms s) = container s" "state (clear_algorithms s) = state s"
  "reader (clear_algorithms s) = reader s" "readers (clear_algorithms s) = readers s"
  "reads (clear_algorithms s) = reads s" "waiting (clear_algorithms s) = waiting s"
  "disturbed (clear_algorithms s) = disturbed s"
  "promises (clear_algorithms s) = promises s" "jobs (clear_algorithms s) = jobs s"
  "progress a (clear_algorithms s) = progress a s" "progress (clear_algorithms s) a = progress s a"
  by (simp_all add: clear_algorithms_def lock_ok_def reads_ok_def jobs_ok_def order_ok_def waiting_def
      progress_def split: option.split)

lemma container_parts [simp]:
  "lock_ok (s\<lparr>container := q\<rparr>) = lock_ok s" "reads_ok d (s\<lparr>container := q\<rparr>) = reads_ok d s"
  "jobs_ok k (s\<lparr>container := q\<rparr>) = jobs_ok k s" "waiting (s\<lparr>container := q\<rparr>) = waiting s"
  "progress a (s\<lparr>container := q\<rparr>) = progress a s" "progress (s\<lparr>container := q\<rparr>) a = progress s a"
  by (simp_all add: lock_ok_def reads_ok_def jobs_ok_def waiting_def progress_def split: option.split)

lemma close_requested_parts [simp]:
  "lock_ok (s\<lparr>close_requested := b\<rparr>) = lock_ok s" "reads_ok d (s\<lparr>close_requested := b\<rparr>) = reads_ok d s"
  "jobs_ok k (s\<lparr>close_requested := b\<rparr>) = jobs_ok k s" "waiting (s\<lparr>close_requested := b\<rparr>) = waiting s"
  "order_ok d (s\<lparr>close_requested := b\<rparr>) = order_ok d s"
  "progress a (s\<lparr>close_requested := b\<rparr>) = progress a s" "progress (s\<lparr>close_requested := b\<rparr>) a = progress s a"
  by (simp_all add: lock_ok_def reads_ok_def jobs_ok_def waiting_def progress_def order_ok_def split: option.split)

lemma erroring_ok:
  assumes st: "state s = Readable" and s: "lock_ok s" "reads_ok d s" "jobs_ok k (s\<lparr>state := Errored e\<rparr>)"
    and w: "held w s" "plain \<longrightarrow> w = reader s"
  shows "wf plain k d (controller_error w e s) \<and> later plain d s (controller_error w e s)"
proof -
  let ?s = "clear_algorithms (s\<lparr>container := reset_queue (container s)\<rparr>)"
  have "jobs_ok k (?s\<lparr>state := Errored e\<rparr>)" using s(3) by (simp add: jobs_ok_def clear_algorithms_def)
  then have pre: "Errored e \<noteq> Readable" "state ?s = Readable" "sized (container ?s)" "lock_ok ?s" "reads_ok d ?s"
    "jobs_ok k (?s\<lparr>state := Errored e\<rparr>)" "held w ?s" "plain \<longrightarrow> w = reader ?s" using s w st by simp_all
  note f = finishes_ok [OF error_finishes pre]
  from f(1-4) have "wf plain k d (readable_stream_error w e ?s)" "progress s (readable_stream_error w e ?s)"
    "answered d (reads (readable_stream_error w e ?s)) = answered d (reads s)"
    "state (readable_stream_error w e ?s) \<noteq> Readable" by simp_all
  then show ?thesis using st finished_later [of s "readable_stream_error w e ?s" d plain]
    by (simp add: controller_error_def)
qed

lemma readable_controller_error_ok:
  assumes "wf plain k d s" "held w s" "plain \<longrightarrow> w = reader s"
  shows "wf plain k d (controller_error w e s) \<and> later plain d s (controller_error w e s)"
proof (cases "state s = Readable")
  case True
  then show ?thesis using assms by (intro erroring_ok) (simp_all add: wf_def jobs_finished)
qed (simp add: controller_error_def assms)

lemma controller_close_ok:
  assumes wf: "wf plain k d s" and w: "held w s" "plain \<longrightarrow> w = reader s"
  shows "wf plain k d (controller_close w s) \<and> later plain d s (controller_close w s)"
proof (cases "can_close_or_enqueue s")
  case True
  then have st: "state s = Readable" by (simp add: can_close_or_enqueue_def)
  note parts = wf [unfolded wf_def]
  show ?thesis
  proof (cases "queue (container s) = []")
    case empty: True
    let ?s = "clear_algorithms (s\<lparr>close_requested := True\<rparr>)"
      have pre: "Closed \<noteq> Readable" "state ?s = Readable" "sized (container ?s)" "lock_ok ?s" "reads_ok d ?s"
      "jobs_ok k (?s\<lparr>state := Closed\<rparr>)" "held w ?s" "plain \<longrightarrow> w = reader ?s"
      using parts w st by (simp_all add: jobs_finished)
    note f = finishes_ok [OF close_finishes pre]
    from f(1-4) have "wf plain k d (readable_stream_close w ?s)" "progress s (readable_stream_close w ?s)"
      "answered d (reads (readable_stream_close w ?s)) = answered d (reads s)"
      "state (readable_stream_close w ?s) \<noteq> Readable" by simp_all
    then show ?thesis using True empty finished_later [of s "readable_stream_close w ?s" d plain]
      by (simp add: controller_close_def)
  next
    case False
    then have "wf plain k d (s\<lparr>close_requested := True\<rparr>)"
      using parts by (auto simp: wf_def algorithms_ok_def)
    moreover have "later plain d s (s\<lparr>close_requested := True\<rparr>)"
      by (auto simp: later_def continues_def line_def intro!: exI [of _ "[]"])
    ultimately show ?thesis using True False by (simp add: controller_close_def)
  qed
qed (simp add: controller_close_def wf)

subsection \<open>Pulling\<close>

lemma should_call_pull_total: "state s = Readable \<Longrightarrow> should_call_pull w s \<noteq> None"
  by (auto simp: should_call_pull_def get_desired_size_def)

lemma should_call_pull_True:
  "should_call_pull w s = Some True \<Longrightarrow> state s = Readable \<and> started s \<and> \<not> close_requested s"
  by (auto simp: should_call_pull_def can_close_or_enqueue_def split: if_splits)

lemma pulling_parts [simp]:
  "lock_ok (s\<lparr>pulling := b\<rparr>) = lock_ok s" "reads_ok d (s\<lparr>pulling := b\<rparr>) = reads_ok d s"
  "waiting (s\<lparr>pulling := b\<rparr>) = waiting s" "order_ok d (s\<lparr>pulling := b\<rparr>) = order_ok d s"
  "later plain d (s\<lparr>pulling := b\<rparr>) a = later plain d s a" "line d (s\<lparr>pulling := b\<rparr>) = line d s"
  "algorithms_ok (s\<lparr>pulling := b\<rparr>) = algorithms_ok s" "progress (s\<lparr>pulling := b\<rparr>) a = progress s a"
  by (simp_all add: lock_ok_def reads_ok_def waiting_def order_ok_def later_def continues_def line_def
      algorithms_ok_def progress_def split: option.split)

lemma pull_again_parts [simp]:
  "lock_ok (s\<lparr>pull_again := b\<rparr>) = lock_ok s" "reads_ok d (s\<lparr>pull_again := b\<rparr>) = reads_ok d s"
  "waiting (s\<lparr>pull_again := b\<rparr>) = waiting s" "order_ok d (s\<lparr>pull_again := b\<rparr>) = order_ok d s"
  "later plain d a (s\<lparr>pull_again := b\<rparr>) = later plain d a s" "algorithms_ok (s\<lparr>pull_again := b\<rparr>) = algorithms_ok s"
  "later plain d (s\<lparr>pull_again := b\<rparr>) a = later plain d s a"
  by (simp_all add: lock_ok_def reads_ok_def waiting_def order_ok_def later_def continues_def line_def
      algorithms_ok_def progress_def split: option.split)

lemma jobs_parts [simp]:
  "lock_ok (s\<lparr>jobs := js\<rparr>) = lock_ok s" "reads_ok d (s\<lparr>jobs := js\<rparr>) = reads_ok d s"
  "waiting (s\<lparr>jobs := js\<rparr>) = waiting s" "order_ok d (s\<lparr>jobs := js\<rparr>) = order_ok d s"
  "later plain d a (s\<lparr>jobs := js\<rparr>) = later plain d a s" "algorithms_ok (s\<lparr>jobs := js\<rparr>) = algorithms_ok s"
  "later plain d (s\<lparr>jobs := js\<rparr>) a = later plain d s a"
  by (simp_all add: lock_ok_def reads_ok_def waiting_def order_ok_def later_def continues_def line_def
      algorithms_ok_def progress_def split: option.split)

lemma call_pull_ok:
  assumes user: "user_ok plain user" and wf: "wf plain k d s"
  shows "yields (\<lambda>s'. wf plain k d s' \<and> later plain d s s') (call_pull_if_needed user w s)"
proof (cases "should_call_pull w s = Some True")
  case True
  then have st: "state s = Readable" "started s" "\<not> close_requested s"
    using should_call_pull_True by blast+
  note parts = wf [unfolded wf_def]
  show ?thesis
  proof (cases "pulling s")
    case pulling: True
    then have "jobs_ok k (s\<lparr>pull_again := True\<rparr>)" using parts by (simp add: jobs_ok_def Let_def)
    then have "wf plain k d (s\<lparr>pull_again := True\<rparr>)" using parts by (simp add: wf_def)
    then show ?thesis using True pulling by (simp add: call_pull_if_needed_def)
  next
    case False
    then have k: "k = Nothing" using parts st by (cases k) (auto simp: jobs_ok_def Let_def)
    have "jobs_ok OwesPull (s\<lparr>pulling := True\<rparr>)" using parts st False k by (auto simp: jobs_ok_def Let_def)
    then have wf': "wf plain OwesPull d (s\<lparr>pulling := True\<rparr>)" using parts by (simp add: wf_def)
    have "pull_algorithm s \<noteq> None" using parts st by (simp add: algorithms_ok_def)
    from readable_call_algorithm_ok [OF user wf' this, of PullCall]
    have "yields (\<lambda>(_, s'). wf plain OwesPull d s' \<and> later plain d s s')
        (call_algorithm user PullCall (pull_algorithm s) (s\<lparr>pulling := True\<rparr>))" by simp
    moreover have "wf plain Nothing d (upon_promise (PullJob a) s') \<and> later plain d s (upon_promise (PullJob a) s')"
      if "wf plain OwesPull d s'" "later plain d s s'" for a s'
      using that by (auto simp: wf_def upon_promise_def jobs_ok_def Let_def)
    ultimately show ?thesis using True False k
      by (simp add: call_pull_if_needed_def split_def) (auto elim!: yields_mono)
  qed
next
  case False
  then have "call_pull_if_needed user w s = Some s"
    using should_call_pull_total [of s w]
    by (cases "should_call_pull w s"; cases "state s")
      (auto simp: call_pull_if_needed_def should_call_pull_def can_close_or_enqueue_def split: if_splits)
  then show ?thesis using wf by simp
qed

subsection \<open>Enqueueing\<close>

text \<open>A step that puts a chunk at the end of the line.\<close>

definition appends :: "bool \<Rightarrow> debt \<Rightarrow> js \<Rightarrow> readable \<Rightarrow> readable \<Rightarrow> bool" where
  "appends plain d c s s' \<longleftrightarrow> progress s s' \<and> (plain \<longrightarrow> continues d (line d s @ [c]) s s')"

lemma appends_later: "appends plain d c s s' \<Longrightarrow> later plain d s s'"
  unfolding appends_def later_def continues_def by (auto simp del: append_assoc) (metis append.assoc)+

lemma appends_trans: "appends plain d c a b \<Longrightarrow> later plain d b s' \<Longrightarrow> appends plain d c a s'"
  by (auto simp: appends_def later_def intro: progress_trans continues_trans)

lemma queued_ok:
  assumes wf: "wf plain k d s" and q: "enqueue_value_with_size c sz (container s) = Inr q"
    and idle: "plain \<longrightarrow> waiting s = [] \<and> state s = Readable"
  shows "wf plain k d (s\<lparr>container := q\<rparr>) \<and> appends plain d c s (s\<lparr>container := q\<rparr>)"
proof -
  have q': "sized q" "chunks q = chunks (container s) @ [c]" "queue q \<noteq> []"
    using q wf enqueue_sized enqueue_values by (fastforce simp: wf_def chunks_def)+
  then have "wf plain k d (s\<lparr>container := q\<rparr>)"
    using wf idle by (auto simp: wf_def algorithms_ok_def order_ok_def)
  moreover have "continues d (line d s @ [c]) s (s\<lparr>container := q\<rparr>)"
    unfolding continues_def by (intro exI [of _ "[]"]) (simp add: line_def q')
  ultimately show ?thesis by (simp add: appends_def)
qed

lemma enqueue_sized_ok:
  assumes user: "user_ok plain user" and wf: "wf plain k d s" and w: "held w s" "plain \<longrightarrow> w = reader s"
    and can: "can_close_or_enqueue s" and idle: "requests_of w s = []"
  shows "yields (\<lambda>(r, s'). wf plain k d s' \<and> later plain d s s' \<and> (r = Inr () \<and> plain \<longrightarrow> appends plain d c s s'))
    (enqueue_sized user w c s)"
proof -
  have st: "state s = Readable" using can by (simp add: can_close_or_enqueue_def)
  then have alg: "strategy_size_algorithm s \<noteq> None" using wf by (simp add: wf_def algorithms_ok_def)
  have "yields (\<lambda>(_, s'). wf plain k d s' \<and> later plain d s s' \<and> (plain \<longrightarrow> s' = s)) (call_size_algorithm user c s)"
  proof -
    have "snd (user (SizeCall c) s) = s" "snd (user (ByteLengthGet c) s) = s" if plain
      using user that by (auto simp: user_ok_def)
    then show ?thesis using alg wf readable_user_okD [OF user _ wf]
      by (auto simp: call_size_algorithm_def split: size_algorithm.splits size_function.splits
          native_size_function.splits prod.splits)
  qed
  then obtain r s1 where sz: "call_size_algorithm user c s = Some (r, s1)" "wf plain k d s1"
    "later plain d s s1" "plain \<longrightarrow> s1 = s"
    by (auto simp: yields_def split: option.splits)
  have w1: "held w s1" "plain \<longrightarrow> w = reader s1"
    using w sz(3,4) by (auto simp: later_def progress_def less_le_trans)
  have error: "wf plain k d (controller_error w e s1) \<and> later plain d s (controller_error w e s1)" for e
    using readable_controller_error_ok [OF sz(2) w1] sz(3) readable_later_trans by blast
  show ?thesis
  proof (cases r)
    case (Inl e)
    then show ?thesis using sz(1) error by (simp add: enqueue_sized_def)
  next
    case (Inr v)
    show ?thesis
    proof (cases "enqueue_value_with_size c v (container s1)")
      case (Inl e)
      then show ?thesis using sz(1) error Inr by (simp add: enqueue_sized_def)
    next
      case Inr': (Inr q)
      have "plain \<longrightarrow> waiting s1 = [] \<and> state s1 = Readable"
        using sz(4) idle w st by (auto simp: waiting_requests)
      from queued_ok [OF sz(2) Inr' this]
      have q: "wf plain k d (s1\<lparr>container := q\<rparr>)" "appends plain d c s1 (s1\<lparr>container := q\<rparr>)" by auto
      have "wf plain k d s' \<and> later plain d s s' \<and> (plain \<longrightarrow> appends plain d c s s')"
        if "wf plain k d s'" "later plain d (s1\<lparr>container := q\<rparr>) s'" for s'
        using that q(2) sz(3,4) appends_trans appends_later readable_later_trans by blast
      with call_pull_ok [OF user q(1), of w] show ?thesis
        using sz(1) Inr Inr' by (simp add: enqueue_sized_def) (auto elim!: yields_mono)
    qed
  qed
qed

text \<open>Giving a chunk to the read that waits longest.\<close>

lemma settle_read_frame: "settle_read r p s = s\<lparr>reads := settle_reads r [p] (reads s)\<rparr>"
  using fold_settle_read [of r "[p]" s] by simp

lemma fulfill_ok:
  assumes wf: "wf plain k d s" and i: "reader s = Some i" and ps: "read_requests (readers s ! i) = p # ps"
  shows "\<exists>s'. readable_stream_fulfill_read_request i c False s = Some s' \<and> wf plain k d s' \<and> appends plain d c s s'"
proof -
  note parts = wf [unfolded wf_def]
  let ?rs = "(readers s)[i := (readers s ! i)\<lparr>read_requests := ps\<rparr>]"
  let ?s = "s\<lparr>readers := ?rs, reads := settle_reads (ReadValue c) [p] (reads s)\<rparr>"
  have waiting: "waiting s = p # ps" using i ps by (simp add: waiting_def)
  then have p: "p < length (reads s)" "reads s ! p = None" "d p = None" "p \<notin> set ps"
    using parts by (auto simp: reads_ok_def)
  have len: "i < length (readers s)" using parts i by (simp add: lock_ok_def)
  have waiting': "waiting ?s = ps" using i len by (simp add: waiting_def)
  have "lock_ok ?s" using parts i by (auto simp: lock_ok_def nth_list_update)
  moreover have "reads_ok d ?s" unfolding reads_ok_def waiting'
    using parts waiting p by (auto simp: reads_ok_def nth_settle_reads)
  moreover have "plain \<longrightarrow> order_ok d ?s"
  proof
    assume plain
    then have o: "order_ok d s" using parts by simp
    have "answers_before d (settle_reads (ReadValue c) [p] (reads s)) q" if "q \<in> set ps" for q
    proof -
      have "answers_before d (reads s) q" "p < q"
        using that o parts waiting by (auto simp: order_ok_def reads_ok_def)
      then show ?thesis by (auto simp: answers_before_def nth_settle_reads split: if_splits)
    qed
    then show "order_ok d ?s" unfolding order_ok_def waiting' using o waiting by (simp add: order_ok_def)
  qed
  ultimately have "wf plain k d ?s" using parts
    by (auto simp: wf_def algorithms_ok_def jobs_ok_def Let_def)
  moreover have "appends plain d c s ?s"
  proof -
    have "continues d (line d s @ [c]) s ?s" if plain
    proof -
      have o: "order_ok d s" using parts that by simp
      then have "answered d (settle_reads (ReadValue c) [p] (reads s)) = answered d (reads s) @ [c]"
        using waiting p by (intro answered_last [of p]) (auto simp: order_ok_def nth_settle_reads)
      moreover have "chunks (container s) = []" "state s = Readable"
        using o waiting by (auto simp: order_ok_def chunks_def)
      ultimately show ?thesis unfolding continues_def by (intro exI [of _ "[]"]) (simp add: line_def)
    qed
    moreover have "progress s ?s" by (simp add: progress_def nth_settle_reads)
    ultimately show ?thesis by (simp add: appends_def)
  qed
  ultimately show ?thesis using ps
    by (simp add: readable_stream_fulfill_read_request_def update_reader_def chunk_steps_def settle_read_frame)
qed

lemma controller_enqueue_ok:
  assumes user: "user_ok plain user" and wf: "wf plain k d s"
  shows "yields (\<lambda>(r, s'). wf plain k d s' \<and> later plain d s s' \<and>
      (r = Inr () \<and> plain \<and> can_close_or_enqueue s \<longrightarrow> appends plain d c s s'))
    (controller_enqueue user (reader s) c s)"
proof (cases "can_close_or_enqueue s")
  case True
  have held: "held (reader s) s" using wf by (simp add: wf_def lock_ok_def)
  have sized: "requests_of (reader s) s = [] \<Longrightarrow>
      yields (\<lambda>(r, s'). wf plain k d s' \<and> later plain d s s' \<and> (r = Inr () \<and> plain \<longrightarrow> appends plain d c s s'))
        (enqueue_sized user (reader s) c s)"
    using enqueue_sized_ok [OF user wf held _ True] by simp
  show ?thesis
  proof (cases "requests_of (reader s) s")
    case Nil
    then show ?thesis using sized True
      by (cases "reader s") (auto simp: controller_enqueue_def readable_stream_get_num_read_requests_def)
  next
    case (Cons p ps)
    then obtain i where i: "reader s = Some i" "read_requests (readers s ! i) = p # ps"
      by (cases "reader s") auto
    from fulfill_ok [OF wf i] obtain s1 where s1: "readable_stream_fulfill_read_request i c False s = Some s1"
      "wf plain k d s1" "appends plain d c s s1" by blast
    have "wf plain k d s' \<and> later plain d s s' \<and> (plain \<longrightarrow> appends plain d c s s')"
      if "wf plain k d s'" "later plain d s1 s'" for s'
      using that s1(3) appends_trans appends_later by blast
    with call_pull_ok [OF user s1(2), of "Some i"] show ?thesis using True i s1(1)
      by (simp add: controller_enqueue_def readable_stream_get_num_read_requests_def) (auto elim!: yields_mono)
  qed
qed (simp add: controller_enqueue_def wf)

subsection \<open>Reading\<close>

lemma answers_before_cong:
  "length rs = length rs' \<Longrightarrow> (\<And>i. i < length rs \<Longrightarrow> item (rs ! i) (d i) = item (rs' ! i) (d' i)) \<Longrightarrow>
     answers_before d rs p = answers_before d' rs' p"
  by (auto simp: answers_before_def)

text \<open>A read that is settled without a chunk.\<close>

lemma settle_free_ok:
  assumes wf: "wf plain k d s" and p: "p \<notin> set (waiting s)" "d p = None" and r: "\<forall>c. r \<noteq> ReadValue c"
  shows "wf plain k d (settle_read r p s) \<and> later plain d s (settle_read r p s)"
proof -
  let ?s = "s\<lparr>reads := settle_reads r [p] (reads s)\<rparr>"
  note parts = wf [unfolded wf_def]
  have waiting: "waiting ?s = waiting s" by (simp add: waiting_def split: option.split)
  have items: "item (settle_reads r [p] (reads s) ! i) (d i) = item (reads s ! i) (d i)" if "i < length (reads s)" for i
    using that r p by (cases r) (auto simp: nth_settle_reads)
  then have "answered d (settle_reads r [p] (reads s)) = answered d (reads s)"
    by (intro answered_cong) simp_all
  moreover have "answers_before d (settle_reads r [p] (reads s)) q = answers_before d (reads s) q" for q
    using items by (intro answers_before_cong) simp_all
  moreover have "reads_ok d ?s" using parts p unfolding reads_ok_def waiting
    by (auto simp: nth_settle_reads)
  moreover have "lock_ok ?s" using parts by (simp add: lock_ok_def)
  ultimately have "wf plain k d ?s" "later plain d s ?s" using parts
    by (auto simp: wf_def order_ok_def waiting algorithms_ok_def jobs_ok_def Let_def later_def progress_def
        continues_def line_def nth_settle_reads intro!: exI [of _ "[]"])
  then show ?thesis by (simp add: settle_read_frame)
qed

text \<open>The chunk owed to a read is paid.\<close>

lemma pay_debt:
  assumes wf: "wf plain k (d(p \<mapsto> c)) s" and p: "d p = None"
  shows "wf plain k d (chunk_steps c p s)"
    "answered d (reads (chunk_steps c p s)) = answered (d(p \<mapsto> c)) (reads s)"
    "container (chunk_steps c p s) = container s" "state (chunk_steps c p s) = state s" "progress s (chunk_steps c p s)"
proof -
  let ?rs = "settle_reads (ReadValue c) [p] (reads s)"
  let ?s = "s\<lparr>reads := ?rs\<rparr>"
  note parts = wf [unfolded wf_def]
  have s: "chunk_steps c p s = ?s" by (simp add: chunk_steps_def settle_read_frame)
  have read: "p < length (reads s)" "reads s ! p = None" "p \<notin> set (waiting s)"
    using parts by (auto simp: reads_ok_def)
  have waiting: "waiting ?s = waiting s" by (simp add: waiting_def split: option.split)
  have items: "item (?rs ! i) (d i) = item (reads s ! i) ((d(p \<mapsto> c)) i)" if "i < length (reads s)" for i
    using that read by (auto simp: nth_settle_reads)
  then show "answered d (reads (chunk_steps c p s)) = answered (d(p \<mapsto> c)) (reads s)"
    unfolding s by (intro answered_cong) simp_all
  have before: "answers_before d ?rs q = answers_before (d(p \<mapsto> c)) (reads s) q" for q
    using items by (intro answers_before_cong) simp_all
  have "reads_ok d ?s" using parts read p unfolding reads_ok_def waiting
    by (auto simp: nth_settle_reads split: if_splits)
  moreover have "lock_ok ?s" using parts by (simp add: lock_ok_def)
  ultimately show "wf plain k d (chunk_steps c p s)" using parts unfolding s
    by (auto simp: wf_def order_ok_def waiting before algorithms_ok_def jobs_ok_def Let_def)
  show "container (chunk_steps c p s) = container s" "state (chunk_steps c p s) = state s"
    "progress s (chunk_steps c p s)" by (simp_all add: s progress_def nth_settle_reads)
qed

definition asks :: "debt \<Rightarrow> nat \<Rightarrow> readable \<Rightarrow> bool" where
  "asks d p s \<longleftrightarrow> p < length (reads s) \<and> reads s ! p = None \<and> d p = None \<and> answers_before d (reads s) p
     \<and> (\<forall>q \<in> set (waiting s). q < p)"

lemma added_read:
  assumes wf: "wf plain k d s"
  defines "s0 \<equiv> s\<lparr>reads := reads s @ [None], disturbed := True\<rparr>"
  shows "wf plain k d s0" "later plain d s s0" "asks d (length (reads s)) s0"
proof -
  note parts = wf [unfolded wf_def]
  let ?p = "length (reads s)"
  have d: "d ?p = None" using parts by (auto simp: reads_ok_def)
  have waiting: "waiting s0 = waiting s" by (simp add: s0_def waiting_def split: option.split)
  have lt: "\<forall>q \<in> set (waiting s). q < ?p" using parts by (auto simp: reads_ok_def)
  have before: "answers_before d (reads s @ [None]) q \<longleftrightarrow> answers_before d (reads s) q" for q
    using d by (auto simp: answers_before_def nth_append less_Suc_eq)
  have "reads_ok d s0" using parts unfolding reads_ok_def waiting
    by (auto simp: s0_def nth_append reads_ok_def)
  moreover have "lock_ok s0" using parts by (simp add: lock_ok_def s0_def)
  moreover have "plain \<longrightarrow> order_ok d s0" using parts unfolding order_ok_def waiting by (simp add: s0_def before)
  ultimately show "wf plain k d s0" using parts
    by (simp add: wf_def algorithms_ok_def jobs_ok_def Let_def s0_def)
  show "later plain d s s0" using d
    by (auto simp: later_def progress_def s0_def nth_append continues_def line_def intro!: exI [of _ "[]"])
  show "asks d ?p s0" unfolding asks_def waiting using d lt
    by (simp add: s0_def before) (simp add: answers_before_def)
qed

lemma answered_debt:
  "asks d p s \<Longrightarrow> answered (d(p \<mapsto> c)) (reads s) = answered d (reads s) @ [c]"
  by (rule answered_last) (auto simp: asks_def)

lemma pull_steps_ok:
  assumes user: "user_ok plain user" and wf: "wf plain k d s" and i: "reader s = Some i"
    and st: "state s = Readable" and asks: "asks d p s"
  shows "yields (\<lambda>s'. wf plain k d s' \<and> later plain d s s') (pull_steps user i p s)"
proof (cases "chunks (container s)")
  case Nil
  note parts = wf [unfolded wf_def]
  let ?s = "readable_stream_add_read_request i p s"
  let ?rs = "(readers s)[i := read_requests_update (\<lambda>ps. ps @ [p]) (readers s ! i)]"
  have s: "?s = s\<lparr>readers := ?rs\<rparr>" by (simp add: readable_stream_add_read_request_def update_reader_def)
  have len: "i < length (readers s)" using parts i by (simp add: lock_ok_def)
  have waiting: "waiting ?s = waiting s @ [p]" using i len by (simp add: waiting_def s)
  have empty: "queue (container s) = []" using Nil by (simp add: chunks_def)
  have "lock_ok ?s" using parts i by (auto simp: lock_ok_def nth_list_update s)
  moreover have "reads_ok d ?s" using parts asks unfolding reads_ok_def waiting
    by (auto simp: sorted_wrt_append asks_def s)
  moreover have "plain \<longrightarrow> order_ok d ?s" using parts asks st empty unfolding order_ok_def waiting
    by (auto simp: asks_def s)
  ultimately have "wf plain k d ?s" using parts by (simp add: wf_def algorithms_ok_def jobs_ok_def Let_def s)
  moreover have "later plain d s ?s"
    by (auto simp: later_def progress_def continues_def line_def s intro!: exI [of _ "[]"])
  ultimately show ?thesis using call_pull_ok [OF user, of k d ?s "Some i"] empty
    by (auto simp: pull_steps_def elim!: yields_mono intro: readable_later_trans)
next
  case (Cons c cs)
  note parts = wf [unfolded wf_def]
  obtain q where q: "dequeue_value (container s) = Some (c, q)" "chunks q = cs" "sized q"
    using dequeue_chunks [OF Cons] parts by blast
  have nonempty: "queue (container s) \<noteq> []" using Cons by (auto simp: chunks_def)
  let ?s = "s\<lparr>container := q\<rparr>"
  have p: "p \<notin> set (waiting s)" "d p = None" "p < length (reads s)" "reads s ! p = None"
    using asks by (auto simp: asks_def)
  have reads: "reads_ok (d(p \<mapsto> c)) s" using parts p by (auto simp: reads_ok_def)
  have finish: "wf plain k d (chunk_steps c p s2) \<and> later plain d s (chunk_steps c p s2)"
    if s2: "wf plain k (d(p \<mapsto> c)) s2" "later plain (d(p \<mapsto> c)) ?s s2" for s2
  proof -
    note paid = pay_debt [OF s2(1) p(2)]
    have "continues d (line d s) s (chunk_steps c p s2)" if pl: plain
    proof -
      have "line (d(p \<mapsto> c)) ?s = line d s" using answered_debt [OF asks] q Cons by (simp add: line_def)
      then obtain new where "prefix (answered (d(p \<mapsto> c)) (reads s2)) (line d s @ new)"
        "state s2 = Readable \<longrightarrow> line (d(p \<mapsto> c)) s2 = line d s @ new"
        using s2(2) pl by (auto simp: later_def continues_def)
      then show ?thesis using paid st unfolding continues_def by (intro exI [of _ new]) (simp add: line_def)
    qed
    moreover have "progress s (chunk_steps c p s2)"
      using s2(2) paid(5) progress_trans [of ?s s2] by (simp add: later_def)
    ultimately show ?thesis using paid(1) by (simp add: later_def)
  qed
  show ?thesis
  proof (cases "close_requested s \<and> queue q = []")
    case True
    let ?t = "clear_algorithms ?s"
    have pre: "Closed \<noteq> Readable" "state ?t = Readable" "sized (container ?t)" "lock_ok ?t"
      "reads_ok (d(p \<mapsto> c)) ?t" "jobs_ok k (?t\<lparr>state := Closed\<rparr>)" "held (Some i) ?t"
      "plain \<longrightarrow> Some i = reader ?t"
      using parts q st i reads by (auto simp: lock_ok_def jobs_finished)
    note f = finishes_ok [OF close_finishes pre]
    have "later plain (d(p \<mapsto> c)) ?s (readable_stream_close (Some i) ?t)"
      using f(2-4) by (intro finished_later) simp_all
    then show ?thesis using finish f(1) True q nonempty by (simp add: pull_steps_def)
  next
    case False
    have "wf plain k (d(p \<mapsto> c)) ?s" using parts q reads False nonempty
      by (auto simp: wf_def algorithms_ok_def order_ok_def)
    from call_pull_ok [OF user this, of "Some i"] show ?thesis
      using finish False q nonempty by (auto simp: pull_steps_def elim!: yields_mono)
  qed
qed

lemma read_default_ok:
  assumes user: "user_ok plain user" and wf: "wf plain k d s" and i: "reader s = Some i"
  shows "yields (\<lambda>(_, s'). wf plain k d s' \<and> later plain d s s') (read_default user i s)"
proof -
  let ?p = "length (reads s)" and ?s = "s\<lparr>reads := reads s @ [None], disturbed := True\<rparr>"
  note added = added_read [OF wf]
  have free: "?p \<notin> set (waiting ?s)" "d ?p = None" using added(3) by (auto simp: asks_def)
  have "yields (\<lambda>s'. wf plain k d s' \<and> later plain d ?s s') (default_reader_read user i ?p (s\<lparr>reads := reads s @ [None]\<rparr>))"
  proof (cases "state s")
    case Readable
    then show ?thesis using pull_steps_ok [OF user added(1) _ _ added(3)] i by (simp add: default_reader_read_def)
  next
    case Closed
    then show ?thesis using settle_free_ok [OF added(1) free, of ReadDone]
      by (simp add: default_reader_read_def close_steps_def)
  next
    case (Errored e)
    then show ?thesis using settle_free_ok [OF added(1) free, of "ReadFailed e"]
      by (simp add: default_reader_read_def error_steps_def)
  qed
  then show ?thesis using added(2)
    by (simp add: read_default_def Let_def) (auto elim!: yields_mono intro: readable_later_trans)
qed

subsection \<open>Cancelling, locking, draining\<close>

lemma clear_finished: "state s \<noteq> Readable \<Longrightarrow> wf plain k d s \<Longrightarrow> wf plain k d (clear_algorithms s)"
  by (simp add: wf_def algorithms_ok_def)

lemma later_clear [simp]: "later plain d s (clear_algorithms s') = later plain d s s'"
  by (simp add: later_def continues_def line_def)

lemma cancel_ok:
  assumes user: "user_ok plain user" and wf: "wf plain k d s" and w: "w = reader s"
  shows "yields (\<lambda>(_, s'). wf plain k d s' \<and> later plain d s s') (readable_stream_cancel user w reason s)"
proof (cases "state s")
  case Readable
  note parts = wf [unfolded wf_def]
  let ?s = "s\<lparr>disturbed := True\<rparr>"
  let ?t = "readable_stream_close w ?s"
  let ?u = "?t\<lparr>container := reset_queue (container ?t)\<rparr>"
  have "reads_ok d ?s" "jobs_ok k (?s\<lparr>state := Closed\<rparr>)" using parts
    by (simp_all add: reads_ok_def jobs_ok_def Let_def)
  then have pre: "Closed \<noteq> Readable" "state ?s = Readable" "sized (container ?s)" "lock_ok ?s" "reads_ok d ?s"
    "jobs_ok k (?s\<lparr>state := Closed\<rparr>)" "held w ?s" "plain \<longrightarrow> w = reader ?s"
    using parts w Readable by (simp_all add: lock_ok_def)
  note f = finishes_ok [OF close_finishes pre]
  have wf': "wf plain k d ?u" using f(1) f(4) f(11) by (auto simp: wf_def algorithms_ok_def order_ok_def)
  have later: "later plain d s ?u"
    using f(2-4) Readable by (intro finished_later) (auto simp: progress_def)
  have "cancel_algorithm ?t \<noteq> None" using f(8) parts Readable by (simp add: algorithms_ok_def)
  from readable_call_algorithm_ok [OF user wf' this, of "CancelCall reason"]
  have "yields (\<lambda>(_, s'). wf plain k d s' \<and> later plain d ?u s') (call_algorithm user (CancelCall reason) (cancel_algorithm ?t) ?u)" .
  moreover have "wf plain k d ((upon_promise (CancelJob p a) ((clear_algorithms s')\<lparr>promises := ps\<rparr>)))
      \<and> later plain d s ((upon_promise (CancelJob p a) ((clear_algorithms s')\<lparr>promises := ps\<rparr>)))"
    if s': "wf plain k d s'" "later plain d ?u s'" for s' p a ps
  proof -
    have "state s' \<noteq> Readable" using s'(2) f(4) by (auto simp: later_def progress_def)
    then have "wf plain k d (clear_algorithms s')" using s'(1) clear_finished by blast
    then have "wf plain k d ((clear_algorithms s')\<lparr>promises := ps\<rparr>)" by simp
    moreover have "later plain d s ((clear_algorithms s')\<lparr>promises := ps\<rparr>)"
      using readable_later_trans [OF later s'(2)] by (simp add: later_def continues_def line_def progress_def)
    ultimately show ?thesis by (auto simp: wf_def upon_promise_def jobs_ok_def Let_def)
  qed
  ultimately show ?thesis using Readable
    by (simp add: readable_stream_cancel_def cancel_steps_def split_def new_promise_def Let_def)
      (auto elim!: yields_mono)
qed (simp_all add: readable_stream_cancel_def wf)

lemma release_frame:
  assumes "i < length (readers s)"
  shows "\<exists>ps rs. readable_stream_default_reader_release i s = s\<lparr>promises := ps, readers := rs, reader := None\<rparr> \<and>
     length rs = length (readers s) \<and>
     (\<forall>j<length rs. attached (rs ! j) = (j \<noteq> i \<and> attached (readers s ! j)) \<and>
        read_requests (rs ! j) = (if j = i then [] else read_requests (readers s ! j)))"
  using assms
  by (intro exI [of _ "promises (readable_stream_default_reader_release i s)"]
      exI [of _ "readers (readable_stream_default_reader_release i s)"])
    (cases "state s"; simp add: readable_stream_default_reader_release_def
      readable_stream_reader_generic_release_def error_read_requests_def settle_def update_reader_def Let_def
      nth_list_update)

lemma release_ok:
  assumes wf: "wf plain k d s" and i: "reader s = Some i"
  shows "wf plain k d (readable_stream_default_reader_release i s)
    \<and> later plain d s (readable_stream_default_reader_release i s)"
proof -
  note parts = wf [unfolded wf_def]
  obtain ps rs where s': "readable_stream_default_reader_release i s = s\<lparr>promises := ps, readers := rs, reader := None\<rparr>"
    and rs: "length rs = length (readers s)" "\<And>j. j < length rs \<Longrightarrow> attached (rs ! j) = (j \<noteq> i \<and> attached (readers s ! j))
      \<and> read_requests (rs ! j) = (if j = i then [] else read_requests (readers s ! j))"
    using release_frame [of i s] parts i by (auto simp: lock_ok_def)
  let ?s = "s\<lparr>promises := ps, readers := rs, reader := None\<rparr>"
  have "lock_ok ?s" using parts rs i by (auto simp: lock_ok_def)
  moreover have "waiting ?s = []" by (simp add: waiting_def)
  ultimately have "wf plain k d ?s" using parts
    by (auto simp: wf_def reads_ok_def order_ok_def algorithms_ok_def jobs_ok_def Let_def)
  moreover have "later plain d s ?s" using rs(1)
    by (auto simp: later_def progress_def continues_def line_def intro!: exI [of _ "[]"])
  ultimately show ?thesis by (simp add: s')
qed

lemma set_up_reader_ok:
  assumes wf: "wf plain k d s"
  shows "wf plain k d (snd (set_up_readable_stream_default_reader s))
    \<and> later plain d s (snd (set_up_readable_stream_default_reader s))"
proof (cases "is_readable_stream_locked s")
  case False
  note parts = wf [unfolded wf_def]
  obtain p ps where p: "readable_stream_reader_generic_initialize s = (p, s\<lparr>promises := ps\<rparr>)"
    by (cases "state s")
      (auto simp: readable_stream_reader_generic_initialize_def new_promise_def intro!: that [of _ "promises s"])
  let ?n = "length (readers s)"
  let ?s = "s\<lparr>promises := ps, readers := readers s @ [\<lparr>closed_promise = p, attached = True, read_requests = []\<rparr>],
      reader := Some ?n\<rparr>"
  have none: "reader s = None" using False by (simp add: is_readable_stream_locked_def)
  have "lock_ok ?s" using parts none by (auto simp: lock_ok_def nth_append less_Suc_eq)
  moreover have "waiting ?s = []" by (simp add: waiting_def)
  ultimately have "wf plain k d ?s" using parts
    by (auto simp: wf_def reads_ok_def order_ok_def algorithms_ok_def jobs_ok_def Let_def)
  moreover have "later plain d s ?s"
    by (auto simp: later_def progress_def continues_def line_def intro!: exI [of _ "[]"])
  ultimately show ?thesis using False by (simp add: set_up_readable_stream_default_reader_def p Let_def)
qed (simp add: set_up_readable_stream_default_reader_def wf)

lemma drain_queue_all:
  "drain_queue q = (chunks q, snd (drain_queue q)) \<and> queue (snd (drain_queue q)) = [] \<and>
     (sized q \<longrightarrow> sized (snd (drain_queue q)))"
proof (induction q rule: drain_queue.induct)
  case (1 q)
  show ?case
  proof (cases "dequeue_value q")
    case None
    then have "drain_queue q = ([], q)" by (subst drain_queue.simps) simp
    then show ?thesis using None by (simp add: dequeue_None_iff chunks_def)
  next
    case (Some r)
    obtain c q' where r: "r = (c, q')" by (cases r)
    have q: "dequeue_value q = Some (c, q')" using Some r by simp
    have "drain_queue q = (c # fst (drain_queue q'), snd (drain_queue q'))"
      by (subst drain_queue.simps) (simp add: q split_def Let_def)
    moreover have "chunks q = c # chunks q'" using dequeue_values [OF q] by (simp add: chunks_def)
    moreover have "drain_queue q' = (chunks q', snd (drain_queue q')) \<and> queue (snd (drain_queue q')) = [] \<and>
        (sized q' \<longrightarrow> sized (snd (drain_queue q')))" by (rule "1.IH" [OF Some r [symmetric]])
    ultimately show ?thesis using dequeue_sized [OF q] by (metis fst_conv snd_conv)
  qed
qed

lemma drain_ok:
  assumes wf: "wf plain k d s"
  shows "wf plain k d (snd (try_sync_drain_closed_stream s)) \<and> later plain d s (snd (try_sync_drain_closed_stream s))"
proof (cases "disturbed s \<or> is_readable_stream_locked s \<or> state s \<noteq> Readable \<or> \<not> close_requested s")
  case True
  then show ?thesis using wf by (auto simp: try_sync_drain_closed_stream_def)
next
  case False
  note parts = wf [unfolded wf_def]
  let ?q = "snd (drain_queue (container s))"
  let ?s = "s\<lparr>container := ?q, disturbed := True, state := Closed\<rparr>"
  have none: "reader s = None" using False by (simp add: is_readable_stream_locked_def)
  have "sized ?q" using parts drain_queue_all by blast
  moreover have "lock_ok ?s" using parts by (simp add: lock_ok_def)
  moreover have "waiting ?s = []" using none by (simp add: waiting_def)
  ultimately have "wf plain k d ?s" using parts
    by (auto simp: wf_def reads_ok_def order_ok_def algorithms_ok_def jobs_ok_def Let_def)
  moreover have "later plain d s ?s" using False by (intro finished_later) (auto simp: progress_def)
  ultimately show ?thesis using False by (simp add: try_sync_drain_closed_stream_def split_def Let_def)
qed

subsection \<open>Methods\<close>

lemma transfer_ok:
  assumes "user_ok plain user" "wf plain k d s"
  shows "wf plain k d (snd (transfer_owning_chunk user c r vs s)) \<and> later plain d s (snd (transfer_owning_chunk user c r vs s))"
  using assms(2)
proof (induction vs arbitrary: r s)
  case (Cons v vs)
  obtain a s1 where a: "user (TransferCall v) s = (a, s1)" by (cases "user (TransferCall v) s")
  have "wf plain k d s1" "later plain d s s1" using readable_user_okD [OF assms(1) a Cons.prems] by auto
  then show ?case using Cons.IH [of s1] readable_later_trans by (cases a) (fastforce simp: a)+
qed simp

lemma readable_invoke_ok:
  assumes user: "user_ok plain user" and wf: "wf plain k d s" and enabled: "enabled (Invoke a) s"
  shows "yields (\<lambda>(_, s'). wf plain k d s' \<and> later plain d s s') (invoke user a s)"
proof -
  have held: "held (reader s) s" using wf by (simp add: wf_def lock_ok_def)
  have mine: "reader s = Some i" if "attached (readers s ! i)" "i < length (readers s)" for i
    using that wf by (simp add: wf_def lock_ok_def)
  have enqueue: "yields (\<lambda>(_, s'). wf plain k d s' \<and> later plain d s s') (controller_enqueue user (reader s) c s)"
    if "wf plain k d s" for c s
    by (rule yields_mono [OF controller_enqueue_ok [OF user that]]) auto
  have drop: "yields (\<lambda>(_, s'). P s') (map_option (\<lambda>(x, s). (f x, s)) m)"
    if "yields (\<lambda>(_, s'). P s') m" for P m and f :: "'x \<Rightarrow> 'y"
    using that by (cases m) auto
  show ?thesis
  proof (cases a)
    case GetReader
    then show ?thesis using set_up_reader_ok [OF wf] by (simp add: method_get_reader_def split_def Let_def)
  next
    case (StreamCancel reason)
    then show ?thesis using cancel_ok [OF user wf] wf
      by (simp add: method_stream_cancel_def drop del: yields_map)
  next
    case (ReaderRead i)
    then show ?thesis using read_default_ok [OF user wf mine] enabled wf
      by (simp add: method_reader_read_def drop del: yields_map)
  next
    case (ReaderReleaseLock i)
    then show ?thesis using release_ok [OF wf mine] enabled wf by (simp add: method_release_lock_def)
  next
    case (ReaderCancel i reason)
    have "yields (\<lambda>(_, s'). wf plain k d s' \<and> later plain d s s')
        (readable_stream_cancel user (Some i) (unwrap_or_undefined reason) s)" if "attached (readers s ! i)"
      using that enabled ReaderCancel by (intro cancel_ok [OF user wf]) (simp add: mine)
    then show ?thesis using ReaderCancel wf by (simp add: method_reader_cancel_def drop del: yields_map)
  next
    case (ControllerEnqueue chunk transfer)
    let ?t = "if transfer \<noteq> [] \<and> is_owning_type s then transfer_owning_chunk user (unwrap_or_undefined chunk) None transfer s
      else (Inr (unwrap_or_undefined chunk), s)"
    obtain r s1 where t: "?t = (r, s1)" by (cases ?t)
    have s1: "wf plain k d s1" "later plain d s s1"
      using t wf transfer_ok [OF user wf, of "unwrap_or_undefined chunk" None transfer] by (auto split: if_splits)
    have "yields (\<lambda>(_, s'). wf plain k d s' \<and> later plain d s s') (controller_enqueue user (reader s1) c s1)" for c
      using enqueue [OF s1(1), of c] s1(2) by (auto elim!: yields_mono intro: readable_later_trans)
    then show ?thesis using s1 wf
      unfolding ControllerEnqueue invoke.simps method_controller_enqueue_def Let_def t
      by (cases r) (auto simp: drop simp del: yields_map)
  next
    case ControllerClose
    then show ?thesis using controller_close_ok [OF wf held] wf by (simp add: method_controller_close_def)
  next
    case (ControllerError e)
    then show ?thesis using readable_controller_error_ok [OF wf held] by (simp add: method_controller_error_def)
  next
    case (EnqueueValue c)
    then show ?thesis using enqueue [OF wf] wf by (simp add: enqueue_value_def drop del: yields_map)
  next
    case CloseStream
    then show ?thesis using controller_close_ok [OF wf held] wf by (simp add: close_stream_def)
  next
    case (ErrorStream e)
    then show ?thesis using readable_controller_error_ok [OF wf held] by (simp add: error_stream_def)
  next
    case SyncDrain
    then show ?thesis using drain_ok [OF wf] by (simp add: split_def Let_def)
  qed
qed

subsection \<open>Reactions\<close>

abbreviation removed :: "nat \<Rightarrow> readable \<Rightarrow> readable" where
  "removed n s \<equiv> s\<lparr>jobs := remove_nth n (jobs s)\<rparr>"

lemma readable_start_settled_ok:
  assumes user: "user_ok plain user" and wf: "wf plain Nothing d s" and n: "n < length (jobs s)" "jobs s ! n = StartJob a"
  shows "yields (\<lambda>s'. wf plain Nothing d s' \<and> later plain d s s') (start_settled user result (removed n s))"
proof -
  note parts = wf [unfolded wf_def]
  have owing: "owing starts (jobs s) = Suc (owing starts (remove_nth n (jobs s)))"
    "owing pulls (jobs s) = owing pulls (remove_nth n (jobs s))"
    using owing_remove_nth [OF n(1), of starts] owing_remove_nth [OF n(1), of pulls] n(2) by simp_all
  let ?t = "(removed n s)\<lparr>started := True\<rparr>"
  have same: "lock_ok ?t = lock_ok s" "waiting ?t = waiting s"
    by (simp_all add: lock_ok_def waiting_def split: option.split)
  show ?thesis
  proof (cases result)
    case (Fulfilled v)
    have "jobs_ok Nothing ?t" using parts owing by (auto simp: jobs_ok_def Let_def)
    then have "wf plain Nothing d ?t" using parts same
      by (simp add: wf_def reads_ok_def order_ok_def algorithms_ok_def)
    moreover have "later plain d s ?t"
      by (auto simp: later_def progress_def continues_def line_def intro!: exI [of _ "[]"])
    ultimately show ?thesis using call_pull_ok [OF user, of Nothing d ?t "reader s"] Fulfilled
      by (auto simp: start_settled_def elim!: yields_mono intro: readable_later_trans)
  next
    case (Rejected e)
    have bound: "jobs_ok Nothing ((removed n s)\<lparr>state := st\<rparr>)" if "st \<noteq> Readable" for st
      using that parts owing by (auto simp: jobs_ok_def Let_def)
    show ?thesis
    proof (cases "state s = Readable")
      case True
      have "wf plain Nothing d (controller_error (reader s) e (removed n s))
          \<and> later plain d (removed n s) (controller_error (reader s) e (removed n s))"
        using True parts bound by (intro erroring_ok) (simp_all add: lock_ok_def)
      then show ?thesis using Rejected by (simp add: start_settled_def)
    next
      case False
      then have "jobs_ok Nothing (removed n s)" using bound [of "state s"] by simp
      then have "wf plain Nothing d (removed n s)" using parts by (simp add: wf_def)
      then show ?thesis using False Rejected by (simp add: start_settled_def controller_error_def)
    qed
  qed
qed

lemma pull_settled_ok:
  assumes user: "user_ok plain user" and wf: "wf plain Nothing d s" and n: "n < length (jobs s)" "jobs s ! n = PullJob a"
  shows "yields (\<lambda>s'. wf plain Nothing d s' \<and> later plain d s s') (pull_settled user result (removed n s))"
proof -
  note parts = wf [unfolded wf_def]
  have owing: "owing starts (jobs s) = owing starts (remove_nth n (jobs s))"
    "owing pulls (jobs s) = Suc (owing pulls (remove_nth n (jobs s)))"
    using owing_remove_nth [OF n(1), of starts] owing_remove_nth [OF n(1), of pulls] n(2) by simp_all
  show ?thesis
  proof (cases result)
    case (Fulfilled v)
    let ?t = "(removed n s)\<lparr>pulling := False, pull_again := False\<rparr>"
    have "jobs_ok Nothing ?t" using parts owing by (auto simp: jobs_ok_def Let_def)
    then have wf': "wf plain Nothing d ?t" using parts by (simp add: wf_def)
    have again: "(removed n s)\<lparr>pulling := False\<rparr> = ?t" if "\<not> pull_again s" using that by simp
    show ?thesis
    proof (cases "pull_again s")
      case True
      have "later plain d s ?t"
        by (auto simp: later_def progress_def continues_def line_def intro!: exI [of _ "[]"])
      then show ?thesis using call_pull_ok [OF user wf', of "reader s"] Fulfilled True
        by (auto simp: pull_settled_def elim!: yields_mono intro: readable_later_trans)
    next
      case False
      have "wf plain Nothing d ((removed n s)\<lparr>pulling := False\<rparr>)" using wf' again [OF False] by simp
      moreover have "later plain d s ((removed n s)\<lparr>pulling := False\<rparr>)"
        by (auto simp: later_def progress_def continues_def line_def intro!: exI [of _ "[]"])
      ultimately show ?thesis using Fulfilled False by (simp add: pull_settled_def)
    qed
  next
    case (Rejected e)
    have bound: "jobs_ok Nothing ((removed n s)\<lparr>state := st\<rparr>)" if "st \<noteq> Readable" for st
      using that parts owing by (auto simp: jobs_ok_def Let_def)
    show ?thesis
    proof (cases "state s = Readable")
      case True
      have "wf plain Nothing d (controller_error (reader s) e (removed n s))
          \<and> later plain d (removed n s) (controller_error (reader s) e (removed n s))"
        using True parts bound by (intro erroring_ok) (simp_all add: lock_ok_def)
      then show ?thesis using Rejected by (simp add: pull_settled_def)
    next
      case False
      then have "jobs_ok Nothing (removed n s)" using bound [of "state s"] by simp
      then have "wf plain Nothing d (removed n s)" using parts by (simp add: wf_def)
      then show ?thesis using False Rejected by (simp add: pull_settled_def controller_error_def)
    qed
  qed
qed

lemma cancel_settled_ok:
  assumes wf: "wf plain Nothing d s" and n: "n < length (jobs s)" "jobs s ! n = CancelJob p a"
  shows "wf plain Nothing d (cancel_settled p result (removed n s)) \<and> later plain d s (cancel_settled p result (removed n s))"
proof -
  have "owing starts (jobs s) = owing starts (remove_nth n (jobs s))" "owing pulls (jobs s) = owing pulls (remove_nth n (jobs s))"
    using owing_remove_nth [OF n(1), of starts] owing_remove_nth [OF n(1), of pulls] n(2) by simp_all
  then have "wf plain Nothing d (removed n s)" using wf by (auto simp: wf_def jobs_ok_def Let_def)
  moreover have "later plain d s ((removed n s)\<lparr>promises := ps\<rparr>)" for ps
    by (auto simp: later_def progress_def continues_def line_def intro!: exI [of _ "[]"])
  moreover have "cancel_settled p result (removed n s) = (removed n s)\<lparr>promises := promises (cancel_settled p result (removed n s))\<rparr>"
    by (cases result) (simp_all add: cancel_settled_def settle_def)
  ultimately show ?thesis by (metis readable_wf_irrelevant(1))
qed

lemma readable_run_event_ok:
  assumes "user_ok plain user" "wf plain Nothing d s" "enabled e s"
  shows "yields (\<lambda>s'. wf plain Nothing d s' \<and> later plain d s s') (run_event user e s)"
proof (cases e)
  case (Invoke a)
  then show ?thesis using readable_invoke_ok [OF assms(1,2), of a] assms(3) by (simp add: split_def)
next
  case (Settle n r)
  then show ?thesis using assms readable_start_settled_ok pull_settled_ok cancel_settled_ok
    by (cases "jobs s ! n") simp_all
qed

end
