(* ===== verification/Readable_Runs.thy ===== *)
theory Readable_Runs
  imports Readable_Safety
begin

text \<open>
  Runs of a readable stream: every stream a script can reach, whatever its source does and in
  whatever order promises settle.
\<close>

subsection \<open>Reachable streams\<close>

lemma readable_created_wf:
  assumes user: "user_ok plain user" and new: "new_readable_stream user source strategy = Inr s"
  shows "wf plain Nothing Map.empty s"
proof -
  obtain hwm u where hwm: "set_up_from_underlying_source user source hwm (extract_size_algorithm strategy) = (Inr u, s)"
    using new by (auto simp: new_readable_stream_def Let_def split: sum.splits prod.splits)
  let ?i = "initial_readable (source_algorithm (source_pull source)) (source_algorithm (source_cancel source))
      hwm (extract_size_algorithm strategy) (source_owning source)"
  from hwm obtain v s1 where call: "(if source_start source then user StartCall ?i else (Inr JsUndefined, ?i)) = (Inr v, s1)"
    and s: "s = upon_promise (StartJob (Inr v)) s1"
    by (auto simp: set_up_from_underlying_source_def set_up_readable_stream_default_controller_def Let_def
        split: sum.splits prod.splits)
  have "wf plain OwesStart Map.empty ?i" by (simp add: wf_simps initial_readable_def)
  then have "wf plain OwesStart Map.empty s1" using call readable_user_okD [OF user] by (auto split: if_splits)
  then show ?thesis by (auto simp: s upon_promise_def wf_def jobs_ok_def Let_def)
qed

lemma readable_reachable_wf: "reachable user s \<Longrightarrow> user_ok plain user \<Longrightarrow> wf plain Nothing Map.empty s"
proof (induction rule: reachable.induct)
  case (created source strategy s)
  then show ?case by (simp add: readable_created_wf)
next
  case (stepped s s')
  then obtain e where "enabled e s" "run_event user e s = Some s'" by (auto elim: stream_stepE)
  then show ?case using readable_run_event_ok [of plain user Map.empty s e] stepped by simp
qed

lemma step_later:
  "user_ok plain user \<Longrightarrow> reachable user s \<Longrightarrow> stream_step user s s' \<Longrightarrow> later plain Map.empty s s'"
  using readable_run_event_ok readable_reachable_wf by (fastforce elim: stream_stepE)

subsection \<open>Scripts are such user code\<close>

text \<open>A callback given as the methods it calls in turn, and its answer.\<close>

type_synonym script = "call \<Rightarrow> readable \<Rightarrow> api list \<times> answer"

fun perform :: "user \<Rightarrow> api list \<Rightarrow> readable \<Rightarrow> readable" where
  "perform user [] s = s"
| "perform user (a # as) s =
     perform user as
       (if enabled (Invoke a) s then (case invoke user a s of None \<Rightarrow> s | Some (_, s') \<Rightarrow> s') else s)"

fun run_script :: "nat \<Rightarrow> script \<Rightarrow> user" where
  "run_script 0 script c s = (snd (script c s), s)"
| "run_script (Suc n) script c s =
     (snd (script c s), perform (run_script n script) (fst (script c s)) s)"

lemma readable_perform_ok:
  "user_ok plain user \<Longrightarrow> wf plain k d s \<Longrightarrow> wf plain k d (perform user as s) \<and> later plain d s (perform user as s)"
proof (induction as arbitrary: s)
  case (Cons a as)
  let ?s = "if enabled (Invoke a) s then (case invoke user a s of None \<Rightarrow> s | Some (_, s') \<Rightarrow> s') else s"
  have "wf plain k d ?s \<and> later plain d s ?s"
    using readable_invoke_ok [OF Cons.prems, of a] Cons.prems(2) by (auto split: option.splits)
  then show ?case using Cons.IH [OF Cons.prems(1), of ?s] by (auto intro: readable_later_trans)
qed simp

lemma readable_script_ok:
  "(plain \<Longrightarrow> \<forall>c s. measures c \<longrightarrow> fst (script c s) = []) \<Longrightarrow> user_ok plain (run_script n script)"
proof (induction n)
  case (Suc n)
  then show ?case unfolding user_ok_def by (auto simp: readable_perform_ok [OF Suc.IH])
qed (simp add: user_ok_def)

text \<open>A source that enqueues a letter whenever it is pulled.\<close>

definition demo_user :: user where
  "demo_user = run_script (Suc (Suc 0)) (\<lambda>c s. (if c = PullCall then [ControllerEnqueue (Some (JsString ''p'')) []] else [],
     Inr JsUndefined))"

definition demo_source :: underlying_source where
  "demo_source = \<lparr>source_start = False, source_pull = True, source_cancel = True, source_owning = False\<rparr>"

fun run_checked :: "user \<Rightarrow> event list \<Rightarrow> readable \<Rightarrow> readable option" where
  "run_checked user [] s = Some s"
| "run_checked user (e # es) s =
     (if enabled e s then Option.bind (run_event user e s) (run_checked user es) else None)"

definition demo_after :: "user \<Rightarrow> underlying_source \<Rightarrow> event list \<Rightarrow> readable option" where
  "demo_after user source es =
     (case new_readable_stream user source None of Inl _ \<Rightarrow> None | Inr s \<Rightarrow> run_checked user es s)"

lemma readable_run_checked_reachable: "run_checked user es s = Some s' \<Longrightarrow> reachable user s \<Longrightarrow> reachable user s'"
proof (induction es arbitrary: s)
  case (Cons e es)
  then obtain s1 where "enabled e s" "run_event user e s = Some s1" and rest: "run_checked user es s1 = Some s'"
    by (auto split: if_splits Option.bind_splits)
  then have "stream_step user s s1" by (blast intro: stream_step.step)
  then show ?case using Cons rest reachable.stepped by blast
qed simp

lemma readable_demo_reachable: "demo_after user source es = Some s \<Longrightarrow> reachable user s"
  by (auto simp: demo_after_def split: sum.splits intro: readable_run_checked_reachable reachable.created)

lemma readable_demo_user_ok: "user_ok plain demo_user"
  unfolding demo_user_def by (rule readable_script_ok) (auto elim: measures.elims)

lemmas stream_eval = demo_after_def demo_user_def demo_source_def new_readable_stream_def
  extract_high_water_mark_def extract_size_algorithm_def set_up_from_underlying_source_def
  set_up_readable_stream_default_controller_def source_algorithm_def initial_readable_def upon_promise_def
  new_queue_def start_settled_def pull_settled_def cancel_settled_def call_pull_if_needed_def should_call_pull_def
  can_close_or_enqueue_def get_desired_size_def call_algorithm_def call_size_algorithm_def
  method_controller_enqueue_def method_get_reader_def set_up_readable_stream_default_reader_def
  is_readable_stream_locked_def readable_stream_reader_generic_initialize_def new_promise_def
  method_reader_read_def read_default_def default_reader_read_def pull_steps_def controller_enqueue_def
  enqueue_sized_def enqueue_value_with_size_def is_non_negative_number_def is_infinite_def dequeue_value_def
  unwrap_or_undefined_def readable_stream_get_num_read_requests_def readable_stream_fulfill_read_request_def
  chunk_steps_def settle_read_def update_reader_def readable_stream_add_read_request_def settle_def remove_nth.simps

subsection \<open>Properties\<close>

definition received :: "readable \<Rightarrow> js list" where
  "received s = concat (map (\<lambda>r. case r of Some (ReadValue c) \<Rightarrow> [c] | _ \<Rightarrow> []) (reads s))"

lemma received_answered: "answered Map.empty (reads s) = received s"
proof -
  have "item r None = (case r of Some (ReadValue c) \<Rightarrow> [c] | _ \<Rightarrow> [])" for r
    by (cases r) (auto split: read_result.split)
  then have "answered Map.empty (reads s) = concat (map (\<lambda>i. case reads s ! i of Some (ReadValue c) \<Rightarrow> [c] | _ \<Rightarrow> []) [0..<length (reads s)])"
    by (simp add: answered_def)
  also have "\<dots> = received s" unfolding received_def
    by (rule arg_cong [where f = concat], rule nth_equalityI) simp_all
  finally show ?thesis .
qed

abbreviation fulfilled :: settlement where
  "fulfilled \<equiv> Fulfilled JsUndefined"

definition demo_stream :: readable where
  "demo_stream = (case demo_after demo_user demo_source [Settle 0 fulfilled, Invoke GetReader] of
     Some s \<Rightarrow> s | None \<Rightarrow> undefined)"

lemma demo_stream_facts:
  "demo_after demo_user demo_source [Settle 0 fulfilled, Invoke GetReader] = Some demo_stream"
  "jobs demo_stream = [PullJob (Inr JsUndefined)]" "state demo_stream = Readable"
  "queue (container demo_stream) = [\<lparr>chunk_value = JsString ''p'', chunk_size = Fin 1\<rparr>]"
  "length (readers demo_stream) = 1" "attached (readers demo_stream ! 0)" "reads demo_stream = []"
  "pulling demo_stream" "close_requested demo_stream = False" "queue_total_size (container demo_stream) = Fin 1"
  "reader demo_stream = Some 0" "read_requests (readers demo_stream ! 0) = []"
  "strategy_size_algorithm demo_stream = Some AlwaysOne" "strategy_hwm demo_stream = Fin 1" "started demo_stream"
  by (simp_all add: demo_stream_def stream_eval f64_small Let_def del: fadd.simps)

lemma readable_demo_stream_reachable: "reachable demo_user demo_stream"
  by (rule readable_demo_reachable [OF demo_stream_facts(1)])

text \<open>Two reads wait at a stream whose source enqueues nothing.\<close>

definition silent_user :: user where
  "silent_user c s = (Inr JsUndefined, s)"

lemma silent_user_ok: "user_ok plain silent_user"
  by (simp add: user_ok_def silent_user_def)

definition silent_stream :: readable where
  "silent_stream = (case demo_after silent_user demo_source [Settle 0 fulfilled, Invoke GetReader,
     Invoke (ReaderRead 0), Invoke (ReaderRead 0)] of Some s \<Rightarrow> s | None \<Rightarrow> undefined)"

lemma silent_stream:
  "demo_after silent_user demo_source [Settle 0 fulfilled, Invoke GetReader,
     Invoke (ReaderRead 0), Invoke (ReaderRead 0)] = Some silent_stream"
  "length (readers silent_stream) = 1" "read_requests (readers silent_stream ! 0) = [0, 1]"
  by (simp_all add: silent_stream_def stream_eval silent_user_def f64_small Let_def del: fadd.simps)

text \<open>C14 (no panic): whatever callbacks a source and its strategy have and in whatever order promises
  settle, no method call and no reaction on a reachable readable stream runs into one of the
  \<open>expect\<close> of the implementation (an algorithm used after it was cleared, a missing desired size, a
  chunk taken from an empty queue, a read request that is not there).\<close>

theorem readable_never_panics:
  assumes "user_ok plain user" "reachable user s" "enabled e s"
  shows "run_event user e s \<noteq> None"
  using readable_run_event_ok [OF assms(1) readable_reachable_wf [OF assms(2,1)] assms(3)]
  by (auto simp: yields_def split: option.splits)

theorem readable_never_panics_witness:
  "run_event demo_user (Invoke (ReaderRead 0)) demo_stream \<noteq> None"
  by (rule readable_never_panics [OF readable_demo_user_ok [of True] readable_demo_stream_reachable]) (simp add: demo_stream_facts)

text \<open>C13 (order): on a stream whose strategy's \<open>size\<close> does not use the stream (one that does can get ahead
  of the chunk it measures), whatever the source's callbacks do. The chunks reads received so far, in
  the order of the calls of \<open>read\<close>, followed by those in the queue, form a line. A step that leaves the
  stream readable only makes that line longer at its end: no chunk is lost, doubled or overtaken. A
  step that closes, cancels or errors the stream may drop queued chunks, but what reads have received
  is still an initial part of the line; after that reads receive nothing more.\<close>

theorem chunks_keep_order:
  assumes "user_ok True user" "reachable user s" "stream_step user s s'"
  shows "\<exists>new. prefix (received s') (received s @ chunks (container s) @ new)
    \<and> (if state s' = Readable then received s' @ chunks (container s') = received s @ chunks (container s) @ new
       else state s = Readable \<or> received s' = received s)"
proof -
  from step_later [OF assms] obtain new where
    "prefix (answered Map.empty (reads s')) (line Map.empty s @ new)"
    "state s' = Readable \<longrightarrow> line Map.empty s' = line Map.empty s @ new"
    "state s \<noteq> Readable \<longrightarrow> answered Map.empty (reads s') = answered Map.empty (reads s)"
    by (auto simp: later_def continues_def)
  then show ?thesis by (intro exI [of _ new]) (auto simp: line_def received_answered)
qed

text \<open>C13: a read of the demo stream takes its chunk; the source is still pulling.\<close>

theorem chunks_keep_order_witness:
  "case run_event demo_user (Invoke (ReaderRead 0)) demo_stream of None \<Rightarrow> False
   | Some s' \<Rightarrow> (\<exists>new. prefix (received s') (received demo_stream @ chunks (container demo_stream) @ new)
      \<and> (if state s' = Readable then received s' @ chunks (container s') = received demo_stream @ chunks (container demo_stream) @ new
         else state demo_stream = Readable \<or> received s' = received demo_stream))"
proof -
  have e: "enabled (Invoke (ReaderRead 0)) demo_stream" by (simp add: demo_stream_facts)
  obtain s' where s': "run_event demo_user (Invoke (ReaderRead 0)) demo_stream = Some s'"
    using readable_run_event_ok [OF readable_demo_user_ok readable_reachable_wf [OF readable_demo_stream_reachable readable_demo_user_ok] e, of True]
    by (auto simp: yields_def split: option.splits)
  then have "stream_step demo_user demo_stream s'" using e by (blast intro: stream_step.step)
  from chunks_keep_order [OF readable_demo_user_ok readable_demo_stream_reachable this] show ?thesis by (simp only: s' option.case)
qed

text \<open>The read a chunk goes to keeps it, whatever the pull does that follows.\<close>

lemma enqueue_answers_first:
  assumes user: "user_ok plain user" and wf: "wf plain k Map.empty s" and ok: "can_close_or_enqueue s"
    and run: "controller_enqueue user (reader s) c s = Some (r, s')" and ps: "waiting s = p # ps"
  shows "reads s' ! p = Some (ReadValue c)"
proof -
  obtain i where i: "reader s = Some i" "read_requests (readers s ! i) = p # ps"
    using ps by (auto simp: waiting_def split: option.splits)
  have p: "p < length (reads s)" "reads s ! p = None" using wf ps by (auto simp: wf_def reads_ok_def)
  from fulfill_ok [OF wf i] obtain s1 where s1: "readable_stream_fulfill_read_request i c False s = Some s1"
    "wf plain k Map.empty s1" by blast
  then have got: "p < length (reads s1)" "reads s1 ! p = Some (ReadValue c)"
    using p by (auto simp: readable_stream_fulfill_read_request_def i update_reader_def chunk_steps_def settle_read_def)
  have "call_pull_if_needed user (Some i) s1 = Some s'"
    using run ok i s1(1) by (auto simp: controller_enqueue_def readable_stream_get_num_read_requests_def
        split: Option.bind_splits)
  then have "later plain Map.empty s1 s'" using call_pull_ok [OF user s1(2), of "Some i"] i got
    by (auto simp: yields_def)
  then show ?thesis using got by (simp add: later_def progress_def)
qed

text \<open>C18 (enqueue): on a stream whose strategy's \<open>size\<close> does not use the stream, a chunk a controller
  accepts goes to the read that waits longest, if one waits, and that read keeps it. In any case it
  takes the next place of the line of received and queued chunks, before whatever the pull it may
  cause enqueues, as long as that pull leaves the stream readable; if it does not, what reads received
  is an initial part of the line.\<close>

theorem enqueued_chunk_is_next:
  assumes "user_ok True user" "reachable user s" "can_close_or_enqueue s"
    and "enqueue_value user c s = Some (Inr (), s')"
  shows "(case waiting s of [] \<Rightarrow> True | p # _ \<Rightarrow> reads s' ! p = Some (ReadValue c))
    \<and> (\<exists>new. prefix (received s') (received s @ chunks (container s) @ c # new)
      \<and> (if state s' = Readable then received s' @ chunks (container s') = received s @ chunks (container s) @ c # new
         else True))"
proof -
  note wf = readable_reachable_wf [OF assms(2,1)]
  have run: "controller_enqueue user (reader s) c s = Some (Inr (), s')"
    using assms(3,4) by (simp add: enqueue_value_def)
  have "appends True Map.empty c s s'"
    using controller_enqueue_ok [OF assms(1) wf, of c] assms(3) run by simp
  then obtain new where
    "prefix (answered Map.empty (reads s')) ((line Map.empty s @ [c]) @ new)"
    "state s' = Readable \<longrightarrow> line Map.empty s' = (line Map.empty s @ [c]) @ new"
    by (auto simp: appends_def continues_def)
  then have "\<exists>new. prefix (received s') (received s @ chunks (container s) @ c # new)
      \<and> (if state s' = Readable then received s' @ chunks (container s') = received s @ chunks (container s) @ c # new
         else True)"
    by (intro exI [of _ new]) (auto simp: line_def received_answered)
  then show ?thesis using enqueue_answers_first [OF assms(1) wf assms(3) run] by (auto split: list.split)
qed

text \<open>C18: the first of two waiting reads gets the chunk.\<close>

theorem enqueued_chunk_is_next_witness:
  "case enqueue_value silent_user (JsString ''a'') silent_stream of None \<Rightarrow> False
   | Some (_, s') \<Rightarrow> reads s' ! 0 = Some (ReadValue (JsString ''a''))"
proof -
  obtain s' where s': "enqueue_value silent_user (JsString ''a'') silent_stream = Some (Inr (), s')"
    by (simp add: silent_stream_def silent_user_def enqueue_value_def stream_eval f64_small Let_def del: fadd.simps)
  have "can_close_or_enqueue silent_stream" "waiting silent_stream = [0, 1]"
    by (simp_all add: silent_stream_def silent_user_def waiting_def stream_eval f64_small Let_def del: fadd.simps)
  with enqueued_chunk_is_next [OF silent_user_ok readable_demo_reachable [OF silent_stream(1)] _ s'] show ?thesis
    by (simp only: s' option.case prod.case list.case)
qed

text \<open>C15 (read requests): on a stream whose strategy's \<open>size\<close> does not use the stream, a reader that has
  read requests holds the lock of a readable stream that has no chunk and is not closing. Its requests
  are pending, in the order of their calls, and later than every read that received a chunk. So a
  closed or errored stream has no read request. (The promise of a read can be pending without a
  request, after its reader was released: \<open>release_leaves_reads_pending\<close>; and a \<open>size\<close> that uses the
  stream can leave a request at an errored one: \<open>size_error_misses_reader\<close>.)\<close>

theorem waiting_reads_see_no_chunk:
  assumes "user_ok True user" "reachable user s" "i < length (readers s)" "read_requests (readers s ! i) \<noteq> []"
  shows "reader s = Some i \<and> attached (readers s ! i) \<and> state s = Readable \<and> chunks (container s) = []
    \<and> \<not> close_requested s \<and> sorted_wrt (<) (read_requests (readers s ! i))
    \<and> list_all (\<lambda>p. p < length (reads s) \<and> reads s ! p = None
        \<and> list_all (\<lambda>r. case r of Some (ReadValue _) \<Rightarrow> False | _ \<Rightarrow> True) (drop p (reads s)))
        (read_requests (readers s ! i))"
proof -
  note wf = readable_reachable_wf [OF assms(2,1), unfolded wf_def]
  have i: "reader s = Some i" "attached (readers s ! i)" using wf assms(3,4) by (auto simp: lock_ok_def)
  then have w: "waiting s = read_requests (readers s ! i)" by (simp add: waiting_def)
  have o: "order_ok Map.empty s" using wf by simp
  then have st: "state s = Readable" "queue (container s) = []" using w assms(4) by (auto simp: order_ok_def)
  then have "\<not> close_requested s" using wf by (auto simp: algorithms_ok_def)
  moreover have "list_all (\<lambda>r. case r of Some (ReadValue _) \<Rightarrow> False | _ \<Rightarrow> True) (drop p (reads s))"
    if p: "p \<in> set (waiting s)" for p
  proof -
    have "case reads s ! q of Some (ReadValue _) \<Rightarrow> False | _ \<Rightarrow> True" if "p \<le> q" "q < length (reads s)" for q
      using p that o by (auto simp: order_ok_def answers_before_def split: option.split read_result.split dest: leD)
    then show ?thesis by (simp add: list_all_length)
  qed
  moreover have "sorted_wrt (<) (waiting s)" "\<forall>p \<in> set (waiting s). p < length (reads s) \<and> reads s ! p = None"
    using wf by (simp_all add: reads_ok_def)
  ultimately show ?thesis using i st w by (auto simp: chunks_def list_all_iff)
qed

text \<open>C15: the two reads that wait.\<close>

theorem waiting_reads_see_no_chunk_witness:
  "state silent_stream = Readable \<and> chunks (container silent_stream) = [] \<and> \<not> close_requested silent_stream"
  using waiting_reads_see_no_chunk [OF silent_user_ok readable_demo_reachable [OF silent_stream(1)], of 0]
  by (simp add: silent_stream)

text \<open>C16 (one pull): at most one call of \<open>pull\<close> is unsettled, and another one is only remembered while
  \<open>pulling\<close> is set. As long as the stream is readable, one is unsettled exactly while \<open>pulling\<close> is set,
  the stream is started if no job is left, and a requested close still has chunks to be read. (An
  errored stream can have neither a job nor been started: its \<open>start\<close> was rejected.)\<close>

theorem one_pull_at_a_time:
  assumes "user_ok plain user" "reachable user s"
  shows "owing pulls (jobs s) \<le> 1 \<and> (pull_again s \<longrightarrow> pulling s)
    \<and> (state s = Readable \<longrightarrow> (owing pulls (jobs s) = 1 \<longleftrightarrow> pulling s) \<and> (jobs s = [] \<longrightarrow> started s)
        \<and> (close_requested s \<longrightarrow> chunks (container s) \<noteq> []))"
  using readable_reachable_wf [OF assms(2,1)] by (auto simp: wf_def jobs_ok_def algorithms_ok_def Let_def chunks_def)

theorem one_pull_at_a_time_witness: "owing pulls (jobs demo_stream) = 1"
  using one_pull_at_a_time [OF readable_demo_user_ok [of True] readable_demo_stream_reachable] by (simp add: demo_stream_facts)

text \<open>C17 (final states): a step of a reachable stream never leaves \<open>closed\<close> or \<open>errored\<close>, never makes a
  disturbed stream undisturbed, and never changes what a read has settled with.\<close>

theorem readable_states_final:
  assumes "user_ok plain user" "reachable user s" "stream_step user s s'"
  shows "(state s \<noteq> Readable \<longrightarrow> state s' = state s) \<and> (disturbed s \<longrightarrow> disturbed s')
    \<and> length (reads s) \<le> length (reads s')
    \<and> (\<forall>i<length (reads s). reads s ! i \<noteq> None \<longrightarrow> reads s' ! i = reads s ! i)"
  using step_later [OF assms] by (simp add: later_def progress_def)

theorem readable_states_final_witness:
  "case demo_after demo_user demo_source [Settle 0 fulfilled, Invoke (ControllerError None)] of None \<Rightarrow> False
   | Some s \<Rightarrow> (case run_event demo_user (Invoke GetReader) s of None \<Rightarrow> False
     | Some s' \<Rightarrow> state s' = Errored JsUndefined)"
proof -
  obtain s where s: "demo_after demo_user demo_source [Settle 0 fulfilled, Invoke (ControllerError None)] = Some s"
    "state s = Errored JsUndefined"
    by (simp add: stream_eval f64_small Let_def method_controller_error_def controller_error_def
        readable_stream_error_def with_reader_def clear_algorithms_def del: fadd.simps)
  have e: "enabled (Invoke GetReader) s" by simp
  obtain s' where s': "run_event demo_user (Invoke GetReader) s = Some s'" by simp
  then have "stream_step demo_user s s'" using e by (blast intro: stream_step.step)
  from readable_states_final [OF readable_demo_user_ok [of True] readable_demo_reachable [OF s(1)] this] show ?thesis
    by (simp add: s s' del: run_event.simps)
qed

subsection \<open>Where the code departs from the standard\<close>

text \<open>Releasing a reader clears its read requests before it rejects them: the promise of a read that
  was waiting is not settled, not then and not when the stream ends.\<close>

lemma release_leaves_reads_pending:
  "map_option (\<lambda>s. (state s, reads s, jobs s))
     (demo_after silent_user demo_source [Settle 0 fulfilled, Settle 0 fulfilled, Invoke GetReader,
       Invoke (ReaderRead 0), Settle 0 fulfilled, Invoke (ReaderReleaseLock 0), Invoke ControllerClose])
   = Some (Closed, [None], [])"
  by (simp add: stream_eval silent_user_def f64_small Let_def method_release_lock_def
      readable_stream_default_reader_release_def readable_stream_reader_generic_release_def
      error_read_requests_def method_controller_close_def controller_close_def readable_stream_close_def
      with_reader_def clear_algorithms_def del: fadd.simps)

text \<open>\<open>enqueue\<close> keeps the reader it found before it called \<open>size\<close>. When \<open>size\<close> acquires a reader, reads
  and throws, the stream is errored but the new reader is not told: its read and its \<open>closed\<close>
  promise stay pending.\<close>

definition grabbing_user :: user where
  "grabbing_user c s =
     (if measures c
      then (Inl (JsObject 9), perform silent_user [GetReader, ReaderRead 0] s)
      else silent_user c s)"

lemma size_error_misses_reader:
  "map_option (\<lambda>s. (state s, reads s, promises s, map attached (readers s), length (jobs s)))
     (Option.bind (demo_after silent_user \<lparr>source_start = False, source_pull = False, source_cancel = False, source_owning = False\<rparr> [Settle 0 fulfilled])
       (\<lambda>s. map_option snd (controller_enqueue grabbing_user None (JsString ''a'')
          (s\<lparr>strategy_size_algorithm := Some (SizeFunction JsFunction)\<rparr>))))
   = Some (Errored (JsObject 9), [None], [None], [True], 1)"
  by (simp add: stream_eval silent_user_def grabbing_user_def f64_small Let_def controller_error_def
      readable_stream_error_def with_reader_def clear_algorithms_def del: fadd.simps)

end
