(* ===== verification/Text_Decoder.thy ===== *)
theory Text_Decoder
  imports Encodings
begin

text \<open>
  \<open>crates/ferrijs-std/src/text/text_decoder.rs\<close>: \<open>TextDecoder\<close>, with its byte order mark and its
  streaming mode. The record is the class. The locale \<open>streamable\<close> is what an encoding has to offer
  for decoding in pieces; it is interpreted for the encodings of the label table that have it.
\<close>

record text_decoder =
  td_encoder :: encoder
  td_fatal :: bool
  td_ignore_bom :: bool
  pending :: string
  bom_seen :: bool

definition new_text_decoder :: "string option \<Rightarrow> bool option \<Rightarrow> bool option \<Rightarrow> string + text_decoder" where
  "new_text_decoder label fatal ignore_bom =
     (case from_optional_web_label label of
        Inl e \<Rightarrow> Inl e
      | Inr e \<Rightarrow> Inr \<lparr>td_encoder = e, td_fatal = (fatal = Some True), td_ignore_bom = (ignore_bom = Some True),
                     pending = [], bom_seen = False\<rparr>)"

definition td_encoding :: "text_decoder \<Rightarrow> string" where
  "td_encoding td = as_label (td_encoder td)"

subsection \<open>An unfinished UTF-8 sequence\<close>

text \<open>The inner loop: whether the bytes after \<open>b\<close> may follow it.\<close>

definition first_cont_valid :: "nat \<Rightarrow> nat \<Rightarrow> bool" where
  "first_cont_valid b c =
     (if b = 0xE0 then 0xA0 \<le> c \<and> c \<le> 0xBF
      else if b = 0xED then 0x80 \<le> c \<and> c \<le> 0x9F
      else if b = 0xF0 then 0x90 \<le> c \<and> c \<le> 0xBF
      else if b = 0xF4 then 0x80 \<le> c \<and> c \<le> 0x8F
      else 0x80 \<le> c \<and> c \<le> 0xBF)"

fun tail_valid :: "nat \<Rightarrow> nat \<Rightarrow> string \<Rightarrow> bool" where
  "tail_valid b j [] = True"
| "tail_valid b j (c # cs) =
     ((if j = 0 then first_cont_valid b (of_char c) else byte c AND 0xC0 = 0x80) \<and> tail_valid b (Suc j) cs)"

definition expected_length :: "nat \<Rightarrow> nat option" where
  "expected_length b =
     (if 0xC2 \<le> b \<and> b \<le> 0xDF then Some 2
      else if 0xE0 \<le> b \<and> b \<le> 0xEF then Some 3
      else if 0xF0 \<le> b \<and> b \<le> 0xF4 then Some 4 else None)"

text \<open>The outer loop goes back from the end, at most four bytes: \<open>tail\<close> is what it has passed.\<close>

fun incomplete_from :: "string \<Rightarrow> string \<Rightarrow> nat" where
  "incomplete_from tail [] = 0"
| "incomplete_from tail (c # before) =
     (let b = of_char c; i = length tail + 1 in
      if i > 4 then 0
      else if b < 0x80 then 0
      else if b \<ge> 0xC0 then
        (case expected_length b of
           None \<Rightarrow> 0
         | Some expected \<Rightarrow> if i \<ge> expected then 0 else if tail_valid b 0 tail then i else 0)
      else incomplete_from (c # tail) before)"

definition utf8_incomplete_tail :: "string \<Rightarrow> nat" where
  "utf8_incomplete_tail bytes = incomplete_from [] (rev bytes)"

subsection \<open>The byte order mark\<close>

definition bom_of :: "encoder \<Rightarrow> string" where
  "bom_of e =
     (case e of Utf8 \<Rightarrow> [CHR 0xEF, CHR 0xBB, CHR 0xBF]
      | Utf16le \<Rightarrow> [CHR 0xFF, CHR 0xFE]
      | Utf16be \<Rightarrow> [CHR 0xFE, CHR 0xFF]
      | _ \<Rightarrow> [])"

definition bom_skip :: "encoder \<Rightarrow> string \<Rightarrow> nat" where
  "bom_skip e data = (if bom_of e \<noteq> [] \<and> prefix (bom_of e) data then length (bom_of e) else 0)"

definition bom_fragment :: "encoder \<Rightarrow> string \<Rightarrow> bool" where
  "bom_fragment e data =
     (case e of Utf8 \<Rightarrow> data = [CHR 0xEF] \<or> data = [CHR 0xEF, CHR 0xBB]
      | Utf16le \<Rightarrow> data = [CHR 0xFF]
      | Utf16be \<Rightarrow> data = [CHR 0xFE]
      | _ \<Rightarrow> False)"

subsection \<open>\<open>decode\<close>\<close>

definition hold_utf16 :: "endian \<Rightarrow> string \<Rightarrow> nat" where
  "hold_utf16 e data =
     (let n = length data - length data mod 2
      in if n \<ge> 2 \<and> 0xD800 \<le> unit_of e (data ! (n - 2)) (data ! (n - 1))
             \<and> unit_of e (data ! (n - 2)) (data ! (n - 1)) \<le> 0xDBFF
         then length data mod 2 + 2 else length data mod 2)"

text \<open>How many bytes at the end of the data wait for the next chunk.\<close>

definition hold_back :: "encoder \<Rightarrow> string \<Rightarrow> nat" where
  "hold_back e data =
     (case e of Utf8 \<Rightarrow> utf8_incomplete_tail data
      | Utf16le \<Rightarrow> hold_utf16 Little data
      | Utf16be \<Rightarrow> hold_utf16 Big data
      | _ \<Rightarrow> 0)"

text \<open>The part that follows the byte order mark.\<close>

definition decode_body :: "simd \<Rightarrow> text_decoder \<Rightarrow> bool \<Rightarrow> string \<Rightarrow> (string + string) \<times> text_decoder" where
  "decode_body sd td stream data =
     (let decode_end = length data - (if stream then hold_back (td_encoder td) data else 0);
          td = (if decode_end < length data then td\<lparr>pending := drop decode_end data\<rparr> else td)
      in (encode_to_string sd (td_encoder td) (take decode_end data) (\<not> td_fatal td), td))"

text \<open>\<open>input\<close> is the bytes of the argument, none when it is missing or transferred.\<close>

definition text_decode :: "simd \<Rightarrow> text_decoder \<Rightarrow> string option \<Rightarrow> bool \<Rightarrow> (string + string) \<times> text_decoder" where
  "text_decode sd td input stream =
     (let input_bytes = (case input of Some b \<Rightarrow> b | None \<Rightarrow> []);
          data = (if pending td = [] then input_bytes else pending td @ input_bytes);
          td = td\<lparr>pending := []\<rparr>;
          td = (if \<not> stream then td\<lparr>bom_seen := False\<rparr> else td)
      in if \<not> td_ignore_bom td \<and> \<not> bom_seen td then
           let skip = bom_skip (td_encoder td) data
           in if skip > 0 then decode_body sd (td\<lparr>bom_seen := True\<rparr>) stream (drop skip data)
              else if stream \<and> bom_fragment (td_encoder td) data then (Inr [], td\<lparr>pending := data\<rparr>)
              else if data \<noteq> [] then decode_body sd (td\<lparr>bom_seen := True\<rparr>) stream data
              else decode_body sd td stream data
         else decode_body sd td stream data)"

text \<open>A stream: every chunk decoded with \<open>stream: true\<close>, then an end without input. The texts are
  joined; the first error ends it.\<close>

definition join_results :: "'e + string \<Rightarrow> 'e + string \<Rightarrow> 'e + string" where
  "join_results r r' =
     (case r of Inl e \<Rightarrow> Inl e | Inr s \<Rightarrow> (case r' of Inl e \<Rightarrow> Inl e | Inr t \<Rightarrow> Inr (s @ t)))"

fun text_stream :: "simd \<Rightarrow> text_decoder \<Rightarrow> string list \<Rightarrow> (string + string) \<times> text_decoder" where
  "text_stream sd td [] = text_decode sd td None False"
| "text_stream sd td (data # rest) =
     (case text_decode sd td (Some data) True of
        (Inl e, td) \<Rightarrow> (Inl e, td)
      | (Inr s, td) \<Rightarrow> (let (r, td) = text_stream sd td rest in (join_results (Inr s) r, td)))"

end
