(* ===== verification/String_Decoder.thy ===== *)
theory String_Decoder
  imports Encodings
begin

text \<open>
  \<open>crates/ferrijs-std/src/string_decoder/decoder.rs\<close>: \<open>StringDecoder\<close>, which turns a sequence of
  byte chunks into text and keeps what a chunk leaves unfinished for the next one. The record is the
  class; \<open>decode_data\<close> is the body of \<open>write\<close> and of the first half of \<open>end\<close>, \<open>flush\<close> the second.
\<close>

datatype failure = Thrown string | Panic

record string_decoder =
  encoder :: encoder
  buffer :: string
  buffered_bytes :: nat
  missing_bytes :: nat

definition make_string :: "simd \<Rightarrow> string_decoder \<Rightarrow> string \<Rightarrow> failure + string" where
  "make_string sd d data =
     (case encode_to_string sd (encoder d) data True of
        Inl _ \<Rightarrow> Inl (Thrown ''Encoding error'')
      | Inr s \<Rightarrow> Inr s)"

definition masked :: "byte \<Rightarrow> char \<Rightarrow> byte" where
  "masked m c = byte c AND m"

subsection \<open>Finishing a character of an earlier chunk\<close>

text \<open>The two loops over the bytes that should be missing. In UTF-8 the first byte that is no
  continuation byte ends the character, \<open>i\<close> bytes in.\<close>

fun find_non_cont :: "nat \<Rightarrow> nat \<Rightarrow> string \<Rightarrow> nat option" where
  "find_non_cont i missing [] = None"
| "find_non_cont i missing (c # cs) =
     (if i < missing then
        if masked 0xC0 c \<noteq> 0x80 then Some i else find_non_cont (Suc i) missing cs
      else None)"

definition take_missing_utf8 :: "string_decoder \<Rightarrow> string \<Rightarrow> string_decoder \<times> string" where
  "take_missing_utf8 d data =
     (case find_non_cont 0 (missing_bytes d) data of
        Some i \<Rightarrow> (d\<lparr>buffer := buffer d @ take i data, buffered_bytes := buffered_bytes d + i,
                     missing_bytes := 0\<rparr>, drop i data)
      | None \<Rightarrow> (d, data))"

definition take_missing_utf16 :: "string_decoder \<Rightarrow> string \<Rightarrow> string_decoder" where
  "take_missing_utf16 d data =
     (if \<exists>c \<in> set (take (missing_bytes d) data). masked 0xFC c = 0xD8 then d\<lparr>missing_bytes := 3\<rparr> else d)"

definition take_missing :: "string_decoder \<Rightarrow> string \<Rightarrow> string_decoder \<times> string" where
  "take_missing d data =
     (if encoder d = Utf8 then take_missing_utf8 d data
      else if encoder d = Utf16le then (take_missing_utf16 d data, data)
      else (d, data))"

text \<open>The whole first part: the bytes found go into the buffer, and a character that is complete
  becomes the beginning of the result.\<close>

definition finish_previous :: "simd \<Rightarrow> string_decoder \<Rightarrow> string \<Rightarrow> (failure + string) \<times> string \<times> string_decoder" where
  "finish_previous sd d data =
     (if missing_bytes d > 0 then
        let (d, data) = take_missing d data;
            found_bytes = min (length data) (missing_bytes d);
            d = d\<lparr>buffer := buffer d @ take found_bytes data,
                  buffered_bytes := buffered_bytes d + found_bytes,
                  missing_bytes := missing_bytes d - found_bytes\<rparr>;
            data = drop found_bytes data
        in if missing_bytes d = 0
           then case make_string sd d (buffer d) of
                  Inl e \<Rightarrow> (Inl e, data, d)
                | Inr s \<Rightarrow> (Inr s, data, d\<lparr>buffer := [], buffered_bytes := 0\<rparr>)
           else (Inr [], data, d)
      else (Inr [], data, d))"

subsection \<open>Cutting off an unfinished character\<close>

text \<open>The byte that begins the last character says how long the character should be.\<close>

definition lead_length :: "char \<Rightarrow> nat option" where
  "lead_length c =
     (if masked 0xE0 c = 0xC0 then Some 2
      else if masked 0xF0 c = 0xE0 then Some 3
      else if masked 0xF8 c = 0xF0 then Some 4 else None)"

definition lead_found :: "string_decoder \<Rightarrow> char \<Rightarrow> string_decoder" where
  "lead_found d c =
     (case lead_length c of
        None \<Rightarrow> d\<lparr>buffered_bytes := 0\<rparr>
      | Some n \<Rightarrow>
          if buffered_bytes d \<ge> n then d\<lparr>buffered_bytes := 0, missing_bytes := 0\<rparr>
          else d\<lparr>missing_bytes := n - buffered_bytes d\<rparr>)"

text \<open>The loop goes backwards from the last byte, here over the reversed bytes.\<close>

fun scan_back :: "string_decoder \<Rightarrow> string \<Rightarrow> string_decoder" where
  "scan_back d [] = d"
| "scan_back d (c # before) =
     (let d = d\<lparr>buffered_bytes := buffered_bytes d + 1\<rparr>
      in if masked 0xC0 c = 0x80 then
           if buffered_bytes d \<ge> 4 \<or> before = [] then d\<lparr>buffer := [], buffered_bytes := 0\<rparr>
           else scan_back d before
         else lead_found d c)"

definition cut_utf16 :: "string_decoder \<Rightarrow> string \<Rightarrow> string_decoder" where
  "cut_utf16 d data =
     (if odd (length data) then
        if length data \<ge> 3 \<and> masked 0xFC (data ! (length data - 2)) = 0xD8
        then d\<lparr>buffered_bytes := 3, missing_bytes := 1\<rparr>
        else d\<lparr>buffered_bytes := 1, missing_bytes := 1\<rparr>
      else if masked 0xFC (last data) = 0xD8
      then d\<lparr>buffered_bytes := 2, missing_bytes := 2\<rparr>
      else d)"

definition cut_base64 :: "string_decoder \<Rightarrow> string \<Rightarrow> string_decoder" where
  "cut_base64 d data =
     (let d = d\<lparr>buffered_bytes := length data mod 3\<rparr>
      in if buffered_bytes d > 0 then d\<lparr>missing_bytes := 3 - buffered_bytes d\<rparr> else d)"

definition cut_unfinished :: "string_decoder \<Rightarrow> string \<Rightarrow> string_decoder" where
  "cut_unfinished d data =
     (if encoder d = Utf8 \<and> masked 0x80 (last data) \<noteq> 0 then scan_back d (rev data)
      else if encoder d = Utf16le then cut_utf16 d data
      else if encoder d = Base64 \<or> encoder d = Base64Url then cut_base64 d data
      else d)"

definition append_ok :: "string \<Rightarrow> failure + string \<Rightarrow> failure + string" where
  "append_ok s r = (case r of Inl e \<Rightarrow> Inl e | Inr t \<Rightarrow> Inr (s @ t))"

text \<open>The second part, on the bytes that remain. \<open>data[data.len() - buffered_bytes..]\<close> panics when
  more bytes are to be kept than there are.\<close>

definition decode_rest :: "simd \<Rightarrow> string_decoder \<Rightarrow> string \<Rightarrow> (failure + string) \<times> string_decoder" where
  "decode_rest sd d data =
     (let d = cut_unfinished d data
      in if buffered_bytes d > length data then (Inl Panic, d)
         else let keep = length data - buffered_bytes d;
                  d = d\<lparr>buffer := buffer d @ drop keep data\<rparr>;
                  data = take keep data
              in (if data \<noteq> [] then make_string sd d data else Inr [], d))"

definition keeps_state :: "encoder \<Rightarrow> bool" where
  "keeps_state e = (e \<in> {Utf8, Utf16le, Base64, Base64Url})"

definition decode_data :: "simd \<Rightarrow> string_decoder \<Rightarrow> string \<Rightarrow> (failure + string) \<times> string_decoder" where
  "decode_data sd d data =
     (if keeps_state (encoder d) then
        case finish_previous sd d data of
          (Inl e, _, d) \<Rightarrow> (Inl e, d)
        | (Inr result, data, d) \<Rightarrow>
            if data = [] then (Inr result, d)
            else let (r, d) = decode_rest sd d data in (append_ok result r, d)
      else (make_string sd d data, d))"

subsection \<open>The class\<close>

definition flush :: "simd \<Rightarrow> string_decoder \<Rightarrow> (failure + string) \<times> string_decoder" where
  "flush sd d =
     (if encoder d = Utf16le \<and> odd (buffered_bytes d) \<and> missing_bytes d = 0 then (Inl Panic, d)
      else let d = (if encoder d = Utf16le \<and> odd (buffered_bytes d)
                    then d\<lparr>buffered_bytes := buffered_bytes d - 1, missing_bytes := missing_bytes d - 1\<rparr>
                    else d)
           in if buffered_bytes d = 0 then (Inr [], d)
              else (make_string sd d (buffer d),
                    d\<lparr>buffer := [], buffered_bytes := 0, missing_bytes := 0\<rparr>))"

definition new_decoder :: "string option \<Rightarrow> failure + string_decoder" where
  "new_decoder encoding =
     (let encoding = (case encoding of Some e \<Rightarrow> e | None \<Rightarrow> ''utf-8'')
      in case from_str encoding of
           Inl _ \<Rightarrow> Inl (Thrown (''Unknown encoding: '' @ encoding))
         | Inr e \<Rightarrow> Inr \<lparr>encoder = e, buffer = [], buffered_bytes = 0, missing_bytes = 0\<rparr>)"

definition encoding :: "string_decoder \<Rightarrow> string" where
  "encoding d = as_label (encoder d)"

text \<open>A buffer is the bytes it shows, or nothing once it has been transferred.\<close>

definition decoder_write :: "simd \<Rightarrow> string_decoder \<Rightarrow> string option \<Rightarrow> (failure + string) \<times> string_decoder" where
  "decoder_write sd d buf =
     (case buf of
        None \<Rightarrow> (Inl (Thrown ''Buffer has already been used''), d)
      | Some data \<Rightarrow> decode_data sd d data)"

definition decoder_end :: "simd \<Rightarrow> string_decoder \<Rightarrow> string option \<Rightarrow> (failure + string) \<times> string_decoder" where
  "decoder_end sd d buf =
     (case buf of
        None \<Rightarrow> flush sd d
      | Some data \<Rightarrow>
          (case decode_data sd d data of
             (Inl e, d) \<Rightarrow> (Inl e, d)
           | (Inr out, d) \<Rightarrow> (let (r, d) = flush sd d in (append_ok out r, d))))"

subsection \<open>Runs\<close>

text \<open>Every chunk written, then the end: what is returned, joined.\<close>

fun decoder_run :: "simd \<Rightarrow> string_decoder \<Rightarrow> string list \<Rightarrow> (failure + string) \<times> string_decoder" where
  "decoder_run sd d [] = decoder_end sd d None"
| "decoder_run sd d (data # rest) =
     (case decoder_write sd d (Some data) of
        (Inl e, d) \<Rightarrow> (Inl e, d)
      | (Inr s, d) \<Rightarrow> (let (r, d) = decoder_run sd d rest in (append_ok s r, d)))"

end
