(* ===== verification/Decoder_Runs.thy ===== *)
theory Decoder_Runs
  imports String_Decoder
begin

text \<open>
  What \<open>StringDecoder\<close> returns over any sequence of chunks. The locale \<open>chunked\<close> is the contract of
  an encoding that can be decoded in pieces; it is interpreted for every encoding of the class.
\<close>

subsection \<open>The masks of the code\<close>

text \<open>The masks of the code select the high bits of a byte, that is its multiples of a power of two.\<close>

lemma high_mask:
  fixes w :: byte
  assumes "m = NOT (mask k)"
  shows "w AND m = of_nat (unat w div 2 ^ k * 2 ^ k)"
proof -
  have "w AND m = push_bit k (drop_bit k w)"
    unfolding assms by (rule bit_word_eqI) (auto simp: bit_simps)
  also have "\<dots> = of_nat (unat (drop_bit k w)) * 2 ^ k" by (simp add: push_bit_eq_mult)
  also have "unat (drop_bit k w) = unat w div 2 ^ k"
    unfolding unat_drop_bit_eq by (rule drop_bit_eq_div)
  finally show ?thesis by simp
qed

lemma not_masks:
  "(0x80 :: byte) = NOT (mask 7)" "(0xC0 :: byte) = NOT (mask 6)" "(0xE0 :: byte) = NOT (mask 5)"
  "(0xF0 :: byte) = NOT (mask 4)" "(0xF8 :: byte) = NOT (mask 3)" "(0xFC :: byte) = NOT (mask 2)"
  by (simp_all add: not_eq_complement mask_eq_exp_minus_1)

lemma byte_of_nat_eq_iff: "a < 256 \<Longrightarrow> b < 256 \<Longrightarrow> (of_nat a = (of_nat b :: byte)) = (a = b)"
  by (simp add: word_of_nat_eq_iff take_bit_nat_eq_self)

lemma masked_eq_iff:
  assumes "m = NOT (mask k)" "b < 256"
  shows "masked m c = of_nat b \<longleftrightarrow> of_char c div 2 ^ k * 2 ^ k = b"
proof -
  have "of_char c div 2 ^ k * 2 ^ k < (256 :: nat)"
    using nat_of_char_less_256 [of c] div_times_less_eq_dividend [of "of_char c" "2 ^ k :: nat"] by linarith
  then show ?thesis using assms(2) byte_of_nat_eq_iff unfolding masked_def high_mask [OF assms(1)] unat_byte by blast
qed

lemma div_times_eq_iff:
  assumes "0 < m"
  shows "(n div m * m = q * m) = (q * m \<le> n \<and> n < Suc q * (m :: nat))"
proof -
  have "(n div m * m = q * m) = (q \<le> n div m \<and> n div m < Suc q)" using assms by auto
  then show ?thesis using assms
    by (simp only: less_eq_div_iff_mult_less_eq div_less_iff_less_mult)
qed

lemma masked_cont: "masked 0xC0 c = 0x80 \<longleftrightarrow> utf8_cont c"
  using masked_eq_iff [OF not_masks(2), of 128 c] div_times_eq_iff [of 64 "of_char c" 2]
  by (auto simp: utf8_cont_def Let_def)

lemma masked_ascii: "masked 0x80 c = 0 \<longleftrightarrow> (of_char c :: nat) < 128"
  using masked_eq_iff [OF not_masks(1), of 0 c] div_times_eq_iff [of 128 "of_char c" 0] by simp

lemma lead_length_range:
  "lead_length c =
     (let n = of_char c :: nat in
      if 0xC0 \<le> n \<and> n \<le> 0xDF then Some 2
      else if 0xE0 \<le> n \<and> n \<le> 0xEF then Some 3
      else if 0xF0 \<le> n \<and> n \<le> 0xF7 then Some 4 else None)"
  using masked_eq_iff [OF not_masks(3), of 192 c] div_times_eq_iff [of 32 "of_char c" 6]
    masked_eq_iff [OF not_masks(4), of 224 c] div_times_eq_iff [of 16 "of_char c" 14]
    masked_eq_iff [OF not_masks(5), of 240 c] div_times_eq_iff [of 8 "of_char c" 30]
  by (auto simp: lead_length_def Let_def)

lemma lead_length_need:
  "lead_length c = Some n \<Longrightarrow> \<not> utf8_cont c \<and> utf8_need (of_char c) \<le> n \<and> 2 \<le> n \<and> n \<le> 4"
  "lead_length c = None \<Longrightarrow> \<not> utf8_cont c \<Longrightarrow> utf8_need (of_char c) \<le> 1"
  by (auto simp: lead_length_range utf8_cont_def utf8_need_def Let_def split: if_splits)

subsection \<open>UTF-8\<close>

lemma from_utf8_lossy_Nil [simp]: "from_utf8_lossy [] = []"
  by (simp add: from_utf8_lossy.simps)

text \<open>What a UTF-8 decoder keeps between chunks: nothing, or a first byte with fewer continuation
  bytes than it asks for.\<close>

definition unfinished :: "string \<Rightarrow> nat \<Rightarrow> bool" where
  "unfinished buf missing =
     (case buf of
        [] \<Rightarrow> missing = 0
      | l # cs \<Rightarrow> list_all utf8_cont cs \<and>
          (case lead_length l of None \<Rightarrow> False | Some n \<Rightarrow> length buf < n \<and> missing = n - length buf))"

definition utf8_ready :: "string_decoder \<Rightarrow> bool" where
  "utf8_ready d \<longleftrightarrow> encoder d = Utf8 \<and> buffered_bytes d = length (buffer d)
      \<and> unfinished (buffer d) (missing_bytes d)"

lemma unfinished_Nil [simp]: "unfinished [] m \<longleftrightarrow> m = 0"
  by (simp add: unfinished_def)

lemma unfinished_Cons:
  "unfinished (l # cs) m \<longleftrightarrow>
     list_all utf8_cont cs \<and> (\<exists>n. lead_length l = Some n \<and> Suc (length cs) < n \<and> m = n - Suc (length cs))"
  by (auto simp: unfinished_def split: option.splits)

lemma unfinished_missing: "unfinished buf m \<Longrightarrow> m = 0 \<longleftrightarrow> buf = []"
  by (cases buf) (auto simp: unfinished_Cons)

lemma make_string_utf8 [simp]: "encoder d = Utf8 \<Longrightarrow> make_string sd d data = Inr (from_utf8_lossy data)"
  by (simp add: make_string_def bytes_to_utf8_string_def)

lemma find_non_cont_Some:
  "find_non_cont i m cs = Some j \<Longrightarrow>
     i \<le> j \<and> j < m \<and> j - i < length cs \<and> list_all utf8_cont (take (j - i) cs) \<and> \<not> utf8_cont (cs ! (j - i))"
proof (induction i m cs rule: find_non_cont.induct)
  case (2 i m c cs)
  show ?case
  proof (cases "utf8_cont c")
    case True
    with 2 have rest: "Suc i \<le> j \<and> j < m \<and> j - Suc i < length cs \<and> list_all utf8_cont (take (j - Suc i) cs)
        \<and> \<not> utf8_cont (cs ! (j - Suc i))"
      by (auto simp: masked_cont split: if_splits)
    then have "j - i = Suc (j - Suc i)" by auto
    then show ?thesis using rest True by simp
  qed (use 2 in \<open>auto simp: masked_cont split: if_splits\<close>)
qed simp

lemma find_non_cont_None:
  "find_non_cont i m cs = None \<Longrightarrow> list_all utf8_cont (take (m - i) cs)"
proof (induction i m cs rule: find_non_cont.induct)
  case (2 i m c cs)
  then show ?case by (cases "m - i") (auto simp: masked_cont Suc_diff_Suc diff_Suc split: if_splits nat.splits)
qed simp

text \<open>The scan for the last character.\<close>

lemma scan_back_utf8:
  assumes "list_all utf8_cont cs" "buffered_bytes d = length cs" "length cs < 4"
    "missing_bytes d = 0" "buffer d = []" "before \<noteq> []" "encoder d = Utf8"
  shows "let d' = scan_back d before; k = length (before @ cs) - buffered_bytes d'
    in encoder d' = Utf8 \<and> buffer d' = [] \<and> buffered_bytes d' \<le> length (before @ cs)
      \<and> unfinished (drop k (rev before @ cs)) (missing_bytes d')
      \<and> (buffered_bytes d' = 0 \<longrightarrow> settled (rev before @ cs))"
  using assms
proof (induction before arbitrary: cs d)
  case (Cons c before)
  let ?d = "d\<lparr>buffered_bytes := Suc (length cs)\<rparr>"
  show ?case
  proof (cases "utf8_cont c")
    case True
    show ?thesis
    proof (cases "4 \<le> Suc (length cs) \<or> before = []")
      case stop: True
      then have "settled (rev before @ c # cs)"
        using settled_three [of "c # cs" "rev before"] settled_conts [of "c # cs"] True Cons.prems(1) by auto
      then show ?thesis using stop True Cons.prems by (auto simp: masked_cont Let_def)
    next
      case False
      then show ?thesis
        using Cons.IH [of "c # cs" ?d] True Cons.prems by (simp add: masked_cont Let_def)
    qed
  next
    case False
    show ?thesis
    proof (cases "lead_length c")
      case None
      then have "settled (rev before @ c # cs)"
        using lead_length_need(2) [OF None] False Cons.prems(1) by (intro settled_tail) auto
      then show ?thesis using None False Cons.prems by (simp add: masked_cont Let_def lead_found_def)
    next
      case (Some n)
      note need = lead_length_need(1) [OF Some]
      have "settled (rev before @ c # cs)" if "n \<le> Suc (length cs)"
        using need that Cons.prems(1) by (intro settled_tail) auto
      then show ?thesis using Some False Cons.prems
        by (auto simp: masked_cont Let_def lead_found_def unfinished_Cons)
    qed
  qed
qed simp

lemma decode_rest_utf8:
  assumes "utf8_ready d" "buffer d = []" "data \<noteq> []"
  shows "\<exists>pre d'. decode_rest sd d data = (Inr (from_utf8_lossy pre), d') \<and> data = pre @ buffer d'
    \<and> utf8_ready d' \<and> (buffer d' = [] \<longrightarrow> settled data)"
proof -
  define d1 where "d1 = cut_unfinished d data"
  let ?k = "length data - buffered_bytes d1"
  have d: "encoder d = Utf8" "buffered_bytes d = 0" "missing_bytes d = 0"
    using assms by (auto simp: utf8_ready_def)
  have d1: "encoder d1 = Utf8 \<and> buffer d1 = [] \<and> buffered_bytes d1 \<le> length data
      \<and> unfinished (drop ?k data) (missing_bytes d1) \<and> (buffered_bytes d1 = 0 \<longrightarrow> settled data)"
  proof (cases "masked 0x80 (last data) = 0")
    case True
    obtain xs x where data: "data = xs @ [x]" using assms(3) by (cases data rule: rev_cases) auto
    have "settled (xs @ x # [])" using True data
      by (intro settled_tail) (auto simp: masked_ascii utf8_need_def utf8_cont_def)
    then show ?thesis using True d assms(2) data by (simp add: d1_def cut_unfinished_def)
  next
    case False
    then show ?thesis using scan_back_utf8 [of "[]" d "rev data"] d assms(2,3)
      by (simp add: d1_def cut_unfinished_def Let_def)
  qed
  define d' where "d' = d1\<lparr>buffer := drop ?k data\<rparr>"
  have "utf8_ready d'" using d1 by (simp add: d'_def utf8_ready_def)
  moreover have "decode_rest sd d data = (Inr (from_utf8_lossy (take ?k data)), d')"
    using d1 by (auto simp: decode_rest_def d1_def [symmetric] Let_def d'_def)
  moreover have "buffer d' = [] \<longrightarrow> settled data" using d1 assms(3) by (auto simp: d'_def)
  moreover have "data = take ?k data @ buffer d'" by (simp add: d'_def)
  ultimately show ?thesis by blast
qed

text \<open>The first part: \<open>done\<close> is what it turns into text.\<close>

lemma finish_previous_utf8:
  assumes "utf8_ready d"
  shows "\<exists>finished data' d'. finish_previous sd d data = (Inr (from_utf8_lossy finished), data', d')
    \<and> buffer d @ data = finished @ buffer d' @ data' \<and> utf8_ready d'
    \<and> (data' \<noteq> [] \<longrightarrow> buffer d' = [])
    \<and> (finished \<noteq> [] \<longrightarrow> buffer d \<noteq> [] \<and> \<not> utf8_cont (hd finished) \<and> seam finished (buffer d' @ data')
        \<and> (data' = [] \<longrightarrow> settled finished))
    \<and> (finished = [] \<longrightarrow> buffer d = [] \<or> buffer d' \<noteq> [])"
proof (cases "buffer d")
  case Nil
  with assms have "missing_bytes d = 0" by (simp add: utf8_ready_def)
  with assms Nil show ?thesis by (auto simp: finish_previous_def intro!: exI [of _ "[]"])
next
  case (Cons l cs)
  with assms obtain n where d: "encoder d = Utf8" "buffered_bytes d = Suc (length cs)"
      "list_all utf8_cont cs" "lead_length l = Some n" "Suc (length cs) < n"
      "missing_bytes d = n - Suc (length cs)"
    by (auto simp: utf8_ready_def unfinished_Cons)
  note need = lead_length_need(1) [OF d(4)]
  show ?thesis
  proof (cases "find_non_cont 0 (missing_bytes d) data")
    case (Some i)
    note found = find_non_cont_Some [OF Some]
    let ?data = "drop i data"
    have rest: "?data \<noteq> []" "\<not> utf8_cont (hd ?data)" using found by (auto simp: hd_drop_conv_nth)
    have fp: "finish_previous sd d data
        = (Inr (from_utf8_lossy (buffer d @ take i data)), ?data,
           d\<lparr>buffer := [], buffered_bytes := 0, missing_bytes := 0\<rparr>)"
      using Some d by (simp add: finish_previous_def take_missing_def take_missing_utf8_def)
    show ?thesis unfolding fp using rest Cons need d(1)
      by - (intro exI conjI, rule refl; auto simp: utf8_ready_def seam_def)
  next
    case None
    have conts: "list_all utf8_cont (take (missing_bytes d) data)" using find_non_cont_None [OF None] by simp
    show ?thesis
    proof (cases "missing_bytes d \<le> length data")
      case True
      let ?m = "missing_bytes d"
      have fp: "finish_previous sd d data
        = (Inr (from_utf8_lossy (buffer d @ take ?m data)), drop ?m data,
           d\<lparr>buffer := [], buffered_bytes := 0, missing_bytes := 0\<rparr>)"
        using None d True by (simp add: finish_previous_def take_missing_def take_missing_utf8_def Let_def)
      have "settled (l # (cs @ take ?m data))" using conts d need True
        by (intro settled_lead) auto
      then show ?thesis unfolding fp using Cons need d(1)
        by - (intro exI conjI, rule refl; auto simp: utf8_ready_def seam_def)
    next
      case False
      have fp: "finish_previous sd d data
        = (Inr (from_utf8_lossy []), [],
           d\<lparr>buffer := buffer d @ data, buffered_bytes := buffered_bytes d + length data,
             missing_bytes := missing_bytes d - length data\<rparr>)"
        using None d False by (simp add: finish_previous_def take_missing_def take_missing_utf8_def Let_def)
      show ?thesis unfolding fp using Cons need d conts False
        by - (intro exI conjI, rule refl; auto simp: utf8_ready_def unfinished_Cons)
    qed
  qed
qed

text \<open>What has been read so far is \<open>past\<close>, which has been turned into text, and the buffer.\<close>

definition utf8_inv :: "string_decoder \<Rightarrow> string \<Rightarrow> bool" where
  "utf8_inv d past \<longleftrightarrow> utf8_ready d \<and> (buffer d = [] \<longrightarrow> settled past)"

lemma utf8_buffer_lead: "utf8_ready d \<Longrightarrow> buffer d \<noteq> [] \<Longrightarrow> \<not> utf8_cont (hd (buffer d))"
  by (cases "buffer d") (auto simp: utf8_ready_def unfinished_Cons dest: lead_length_need)

subsection \<open>Chunks in UTF-8\<close>

lemma decode_data_utf8:
  assumes "utf8_inv d past"
  shows "\<exists>out past' d'. decode_data sd d data = (Inr out, d') \<and> past @ buffer d @ data = past' @ buffer d'
    \<and> from_utf8_lossy past' = from_utf8_lossy past @ out \<and> utf8_inv d' past'"
proof -
  have ready: "utf8_ready d" "keeps_state (encoder d)" and settled: "buffer d = [] \<Longrightarrow> settled past"
    using assms by (auto simp: utf8_inv_def utf8_ready_def keeps_state_def)
  obtain fin rest d1 where fp: "finish_previous sd d data = (Inr (from_utf8_lossy fin), rest, d1)"
    and split: "buffer d @ data = fin @ buffer d1 @ rest" and d1: "utf8_ready d1"
    and empty: "rest \<noteq> [] \<Longrightarrow> buffer d1 = []"
    and fin: "fin \<noteq> [] \<Longrightarrow> \<not> utf8_cont (hd fin) \<and> seam fin (buffer d1 @ rest) \<and> (rest = [] \<longrightarrow> settled fin)"
    and none: "fin = [] \<Longrightarrow> buffer d = [] \<or> buffer d1 \<noteq> []"
    using finish_previous_utf8 [OF ready(1), of sd data] by blast
  let ?past = "past @ fin"
  have seam_fin: "seam past fin" using fin by (cases "fin = []") (auto simp: seam_def)
  note lossy = lossy_seam [OF seam_fin]
  show ?thesis
  proof (cases "rest = []")
    case True
    have "settled ?past" if "buffer d1 = []"
      using settled_seam [OF seam_fin] fin none settled that True by (cases "fin = []") auto
    then show ?thesis using fp ready True split d1 lossy
      by - (rule exI [of _ "from_utf8_lossy fin"], rule exI [of _ ?past], rule exI [of _ d1],
        simp add: decode_data_def utf8_inv_def)
  next
    case False
    note d1_empty = empty [OF False]
    obtain pre d2 where dr: "decode_rest sd d1 rest = (Inr (from_utf8_lossy pre), d2)"
      and rest: "rest = pre @ buffer d2" and d2: "utf8_ready d2" "buffer d2 = [] \<Longrightarrow> settled rest"
      using decode_rest_utf8 [OF d1 d1_empty False, of sd] by blast
    have seam: "seam ?past rest"
    proof (cases "fin = []")
      case True
      then show ?thesis using none d1_empty settled by (simp add: seam_def)
    next
      case ne: False
      then show ?thesis using fin [OF ne] d1_empty settled_seam [OF seam_fin _ ne] False by (auto simp: seam_def)
    qed
    then have "seam ?past pre" using rest by (cases pre) (auto simp: seam_def)
    then have "from_utf8_lossy (?past @ pre) = from_utf8_lossy ?past @ from_utf8_lossy pre" by (rule lossy_seam)
    moreover have "settled (?past @ pre)" if "buffer d2 = []"
      using settled_seam [OF seam d2(2) [OF that] False] rest that by simp
    ultimately show ?thesis using fp ready False split d1_empty rest dr d2(1) lossy
      by - (rule exI [of _ "from_utf8_lossy fin @ from_utf8_lossy pre"], rule exI [of _ "?past @ pre"],
        rule exI [of _ d2], auto simp: decode_data_def utf8_inv_def append_ok_def)
  qed
qed

text \<open>The end of the text.\<close>

definition fresh :: "string_decoder \<Rightarrow> string_decoder" where
  "fresh d = d\<lparr>buffer := [], buffered_bytes := 0, missing_bytes := 0\<rparr>"

lemma flush_utf8:
  assumes "utf8_inv d past"
  shows "\<exists>out. flush sd d = (Inr out, fresh d) \<and> from_utf8_lossy (past @ buffer d) = from_utf8_lossy past @ out"
proof (cases "buffer d = []")
  case True
  then show ?thesis using assms by (auto simp: flush_def utf8_inv_def utf8_ready_def fresh_def)
next
  case False
  have "seam past (buffer d)" using utf8_buffer_lead [OF _ False] assms by (auto simp: utf8_inv_def seam_def)
  then show ?thesis using assms False lossy_seam
    by (auto simp: flush_def utf8_inv_def utf8_ready_def fresh_def)
qed

subsection \<open>The contract\<close>

text \<open>\<open>render\<close> is the text of a whole input; \<open>inv d past\<close> holds when the decoder \<open>d\<close> has turned
  \<open>past\<close> into text and holds the rest of what it has read in its buffer. \<open>tame\<close> bytes can be decoded,
  and a \<open>complete\<close> input can be ended.\<close>

locale chunked =
  fixes sd :: simd and render :: "string \<Rightarrow> string" and inv :: "string_decoder \<Rightarrow> string \<Rightarrow> bool"
    and tame :: "char \<Rightarrow> bool" and complete :: "string \<Rightarrow> bool"
  assumes render_Nil: "render [] = []"
    and step: "inv d past \<Longrightarrow> list_all tame data \<Longrightarrow> \<exists>out past' d'. decode_data sd d data = (Inr out, d')
      \<and> past @ buffer d @ data = past' @ buffer d' \<and> render past' = render past @ out \<and> inv d' past'"
    and ending: "inv d past \<Longrightarrow> complete (past @ buffer d) \<Longrightarrow>
      \<exists>out. flush sd d = (Inr out, fresh d) \<and> render (past @ buffer d) = render past @ out"
    and same_encoder: "inv d past \<Longrightarrow> inv d' past' \<Longrightarrow> encoder d = encoder d'"
begin

lemma run_from:
  "inv d past \<Longrightarrow> \<forall>data \<in> set chunks. list_all tame data \<Longrightarrow> complete (past @ buffer d @ concat chunks) \<Longrightarrow>
     \<exists>out. decoder_run sd d chunks = (Inr out, fresh d)
       \<and> render (past @ buffer d @ concat chunks) = render past @ out"
proof (induction chunks arbitrary: d past)
  case Nil
  then show ?case using ending by (simp add: decoder_end_def)
next
  case (Cons data chunks)
  obtain out past' d' where step: "decode_data sd d data = (Inr out, d')" "inv d' past'"
    "past @ buffer d @ data = past' @ buffer d'" "render past' = render past @ out"
    using step Cons.prems(1,2) by fastforce
  have total: "past @ buffer d @ concat (data # chunks) = past' @ buffer d' @ concat chunks"
    using step(3) by (metis append.assoc concat.simps(2))
  have complete_rest: "complete (past' @ buffer d' @ concat chunks)" using Cons.prems(3) unfolding total .
  obtain out' where "decoder_run sd d' chunks = (Inr out', fresh d')"
    "render (past' @ buffer d' @ concat chunks) = render past' @ out'"
    using Cons.IH [OF step(2) _ complete_rest] Cons.prems(2) by auto
  moreover have "fresh d' = fresh d"
    using same_encoder [OF Cons.prems(1) step(2)] by (simp add: fresh_def)
  ultimately show ?case unfolding total using step by (simp add: decoder_write_def append_ok_def)
qed

lemma run:
  "inv d [] \<Longrightarrow> buffer d = [] \<Longrightarrow> \<forall>data \<in> set chunks. list_all tame data \<Longrightarrow> complete (concat chunks) \<Longrightarrow>
     decoder_run sd d chunks = (Inr (render (concat chunks)), fresh d)"
  using run_from [of d "[]" chunks] by (auto simp: render_Nil)

end

interpretation utf8_chunks: chunked sd from_utf8_lossy utf8_inv "\<lambda>_. True" "\<lambda>_. True" for sd
  using decode_data_utf8 flush_utf8
  by unfold_locales (auto simp: utf8_inv_def utf8_ready_def)

lemma make_string_frame [simp]:
  "make_string sd (d\<lparr>buffer := b\<rparr>) = make_string sd d"
  "make_string sd (d\<lparr>buffered_bytes := n\<rparr>) = make_string sd d"
  "make_string sd (d\<lparr>missing_bytes := n\<rparr>) = make_string sd d"
  by (simp_all add: make_string_def fun_eq_iff)

subsection \<open>Encodings without state\<close>

definition ascii_to_string :: "string \<Rightarrow> string" where
  "ascii_to_string bytes = string_of (map (\<lambda>c. unat (byte c AND 0x7F)) bytes)"

definition plain_inv :: "simd \<Rightarrow> encoder \<Rightarrow> (string \<Rightarrow> string) \<Rightarrow> string_decoder \<Rightarrow> string \<Rightarrow> bool" where
  "plain_inv sd e render d past \<longleftrightarrow> encoder d = e \<and> buffer d = [] \<and> buffered_bytes d = 0 \<and> missing_bytes d = 0
      \<and> \<not> keeps_state e \<and> (\<forall>bs. encode_to_string sd e bs True = Inr (render bs))
      \<and> (\<forall>as bs. render (as @ bs) = render as @ render bs) \<and> render [] = []"

lemma plain_step:
  assumes "plain_inv sd e render d past"
  shows "\<exists>out past' d'. decode_data sd d data = (Inr out, d') \<and> past @ buffer d @ data = past' @ buffer d'
    \<and> render past' = render past @ out \<and> plain_inv sd e render d' past'"
  using assms by (intro exI [of _ "render data"] exI)
    (auto simp: plain_inv_def decode_data_def make_string_def)

lemma plain_flush:
  assumes "plain_inv sd e render d past"
  shows "\<exists>out. flush sd d = (Inr out, fresh d) \<and> render (past @ buffer d) = render past @ out"
  using assms by (auto simp: plain_inv_def flush_def fresh_def keeps_state_def)

lemma rfc_hex_append: "rfc_hex (a @ b) = rfc_hex a @ rfc_hex b"
  by (induction a) simp_all

lemma plain_chunked:
  "render [] = [] \<Longrightarrow> chunked sd render (plain_inv sd e render) (\<lambda>_. True) (\<lambda>_. True)"
  by unfold_locales (assumption, erule plain_step, erule plain_flush, simp add: plain_inv_def)

interpretation hex_chunks: chunked sd rfc_hex "plain_inv sd Hex rfc_hex" "\<lambda>_. True" "\<lambda>_. True" for sd
  by (rule plain_chunked) simp

interpretation latin1_chunks:
  chunked sd latin1_to_string "plain_inv sd Latin1 latin1_to_string" "\<lambda>_. True" "\<lambda>_. True" for sd
  by (rule plain_chunked) (simp add: latin1_to_string_def)

interpretation ascii_chunks:
  chunked sd ascii_to_string "plain_inv sd Ascii ascii_to_string" "\<lambda>_. True" "\<lambda>_. True" for sd
  by (rule plain_chunked) (simp add: ascii_to_string_def)

subsection \<open>Base64\<close>

lemma rfc_base64_append:
  "length a mod 3 = 0 \<Longrightarrow> rfc_base64 al pad (a @ b) = rfc_base64 al pad a @ rfc_base64 al pad b"
  by (induction a rule: induct_list3) auto

definition base64_inv :: "simd \<Rightarrow> encoder \<Rightarrow> (string \<Rightarrow> string) \<Rightarrow> string_decoder \<Rightarrow> string \<Rightarrow> bool" where
  "base64_inv sd e render d past \<longleftrightarrow> encoder d = e \<and> (e = Base64 \<or> e = Base64Url)
      \<and> buffered_bytes d = length (buffer d) \<and> length (buffer d) < 3
      \<and> missing_bytes d = (if buffer d = [] then 0 else 3 - length (buffer d))
      \<and> length past mod 3 = 0 \<and> (\<forall>bs. encode_to_string sd e bs True = Inr (render bs))
      \<and> (\<forall>as bs. length as mod 3 = 0 \<longrightarrow> render (as @ bs) = render as @ render bs) \<and> render [] = []"

lemma mod3_add: "a mod 3 = 0 \<Longrightarrow> b mod 3 = 0 \<Longrightarrow> (a + b) mod 3 = (0 :: nat)"
  by presburger

lemma base64_inv_next:
  assumes "base64_inv sd e render d past" "length finished mod 3 = 0" "length rest = n" "n < 3"
  shows "base64_inv sd e render (d\<lparr>buffer := rest, buffered_bytes := n,
    missing_bytes := (if n = 0 then 0 else 3 - n)\<rparr>) (past @ finished)"
  using assms mod3_add by (auto simp: base64_inv_def)

lemma base64_rest:
  assumes "base64_inv sd e render d past" "buffer d = []" "data \<noteq> []"
  shows "\<exists>pre d'. decode_rest sd d data = (Inr (render pre), d') \<and> data = pre @ buffer d'
    \<and> base64_inv sd e render d' (past @ pre)"
proof -
  let ?r = "length data mod 3"
  let ?k = "length data - ?r"
  let ?d' = "d\<lparr>buffer := drop ?k data, buffered_bytes := ?r, missing_bytes := (if ?r = 0 then 0 else 3 - ?r)\<rparr>"
  have d: "encoder d = Base64 \<or> encoder d = Base64Url" "buffered_bytes d = 0" "missing_bytes d = 0"
    "make_string sd d bs = Inr (render bs)" "render [] = []" for bs
    using assms by (auto simp: base64_inv_def make_string_def)
  have cut: "cut_unfinished d data = d\<lparr>buffered_bytes := ?r, missing_bytes := (if ?r = 0 then 0 else 3 - ?r)\<rparr>"
    using d(1,3) by (cases "?r = 0") (auto simp: cut_unfinished_def cut_base64_def Let_def)
  have small: "?r \<le> length data" "?r < length data \<or> take ?k data = []" by auto
  have "decode_rest sd d data = (Inr (render (take ?k data)), ?d')"
    using assms(2,3) d(4,5) small unfolding decode_rest_def cut
    by (simp add: Let_def not_less del: mod_less_eq_dividend) 
  moreover have "length (drop ?k data) = ?r" by simp
  moreover have "length (take ?k data) mod 3 = 0" by (simp add: minus_mod_eq_mult_div)
  ultimately have "decode_rest sd d data = (Inr (render (take ?k data)), ?d')" "length (drop ?k data) = ?r"
    "length (take ?k data) mod 3 = 0" by blast+
  moreover from this have "base64_inv sd e render ?d' (past @ take ?k data)"
    by (intro base64_inv_next [OF assms(1)]) auto
  ultimately have "decode_rest sd d data = (Inr (render (take ?k data)), ?d') \<and>
      base64_inv sd e render ?d' (past @ take ?k data)"
    by blast
  then show ?thesis by (intro exI [of _ "take ?k data"] exI [of _ ?d']) auto
qed

lemma base64_step:
  assumes "base64_inv sd e render d past"
  shows "\<exists>out past' d'. decode_data sd d data = (Inr out, d') \<and> past @ buffer d @ data = past' @ buffer d'
    \<and> render past' = render past @ out \<and> base64_inv sd e render d' past'"
proof -
  have ks: "keeps_state (encoder d)" using assms by (auto simp: base64_inv_def keeps_state_def)
  have split3: "length a mod 3 = 0 \<Longrightarrow> render (a @ b) = render a @ render b" for a b
    using assms by (simp add: base64_inv_def)
  have joined: "render (past @ x) = render past @ render x" for x using assms by (simp add: base64_inv_def)
  consider "buffer d = []" | "buffer d \<noteq> []" "length data < missing_bytes d"
    | "buffer d \<noteq> []" "missing_bytes d \<le> length data" by linarith
  then show ?thesis
  proof cases
    case 1
    then have fp: "finish_previous sd d data = (Inr [], data, d)"
      using assms by (simp add: finish_previous_def base64_inv_def)
    show ?thesis
    proof (cases "data = []")
      case True
      then show ?thesis using fp ks assms by (auto simp: decode_data_def)
    next
      case False
      obtain pre d' where "decode_rest sd d data = (Inr (render pre), d')" "data = pre @ buffer d'"
        "base64_inv sd e render d' (past @ pre)"
        using base64_rest [OF assms 1 False] by blast
      then show ?thesis using fp ks False 1 joined
        by - (rule exI [of _ "render pre"], rule exI [of _ "past @ pre"], rule exI [of _ d'],
          auto simp: decode_data_def append_ok_def)
    qed
  next
    case 2
    let ?d' = "d\<lparr>buffer := buffer d @ data, buffered_bytes := buffered_bytes d + length data,
        missing_bytes := missing_bytes d - length data\<rparr>"
    have "finish_previous sd d data = (Inr [], [], ?d')"
      using 2 assms by (auto simp: finish_previous_def take_missing_def base64_inv_def Let_def)
    moreover have "base64_inv sd e render ?d' past" using 2 assms by (auto simp: base64_inv_def)
    ultimately show ?thesis using ks
      by - (rule exI [of _ "[]"], rule exI [of _ past], rule exI [of _ ?d'], simp add: decode_data_def)
  next
    case 3
    let ?m = "missing_bytes d"
    let ?b = "buffer d @ take ?m data" and ?rest = "drop ?m data"
    let ?d1 = "d\<lparr>buffer := [], buffered_bytes := 0, missing_bytes := 0\<rparr>"
    have len: "length ?b = 3" using 3 assms by (simp add: base64_inv_def)
    have fp: "finish_previous sd d data = (Inr (render ?b), ?rest, ?d1)"
      using 3 assms by (auto simp: finish_previous_def take_missing_def base64_inv_def Let_def make_string_def)
    have d1: "base64_inv sd e render ?d1 (past @ ?b)"
      using base64_inv_next [OF assms, of ?b "[]" 0] len by simp
    show ?thesis
    proof (cases "?rest = []")
      case True
      then show ?thesis using fp ks d1 joined
        by - (rule exI [of _ "render ?b"], rule exI [of _ "past @ ?b"], rule exI [of _ ?d1],
          simp add: decode_data_def)
    next
      case False
      obtain pre d' where rest: "decode_rest sd ?d1 ?rest = (Inr (render pre), d')" "?rest = pre @ buffer d'"
        "base64_inv sd e render d' ((past @ ?b) @ pre)"
        using base64_rest [OF d1 _ False] by auto
      have "render (?b @ pre) = render ?b @ render pre" by (rule split3) (simp only: len, simp)
      then have "render ((past @ ?b) @ pre) = render past @ render ?b @ render pre"
        using joined [of "?b @ pre"] by simp
      moreover have "past @ buffer d @ data = ((past @ ?b) @ pre) @ buffer d'"
        using rest(2) append_take_drop_id [of ?m data] by (metis append.assoc)
      ultimately show ?thesis using fp ks False rest
        by - (rule exI [of _ "render ?b @ render pre"], rule exI [of _ "(past @ ?b) @ pre"],
          rule exI [of _ d'], auto simp: decode_data_def append_ok_def)
    qed
  qed
qed

lemma base64_flush:
  assumes "base64_inv sd e render d past"
  shows "\<exists>out. flush sd d = (Inr out, fresh d) \<and> render (past @ buffer d) = render past @ out"
  using assms by (auto simp: base64_inv_def flush_def fresh_def make_string_def)

lemma base64_chunked:
  "render [] = [] \<Longrightarrow> chunked sd render (base64_inv sd e render) (\<lambda>_. True) (\<lambda>_. True)"
  by unfold_locales (assumption, erule base64_step, erule base64_flush, simp add: base64_inv_def)

interpretation base64_chunks: chunked sd "rfc_base64 base64_alphabet ''=''"
    "base64_inv sd Base64 (rfc_base64 base64_alphabet ''='')" "\<lambda>_. True" "\<lambda>_. True" for sd
  by (rule base64_chunked) simp

interpretation base64url_chunks: chunked sd "rfc_base64 base64_url_alphabet []"
    "base64_inv sd Base64Url (rfc_base64 base64_url_alphabet [])" "\<lambda>_. True" "\<lambda>_. True" for sd
  by (rule base64_chunked) simp

subsection \<open>UTF-16\<close>

text \<open>Without the bytes 0xD8 to 0xDB there are no high surrogates, and a cut is harmless once the
  odd byte is kept. Such bytes are \<open>tame\<close>.\<close>

definition utf16_tame :: "char \<Rightarrow> bool" where
  "utf16_tame c = (masked 0xFC c \<noteq> 0xD8)"

definition utf16_to_string :: "string \<Rightarrow> string" where
  "utf16_to_string bs = from_utf16_lossy (units Little bs)"

definition utf16_inv :: "string_decoder \<Rightarrow> string \<Rightarrow> bool" where
  "utf16_inv d past \<longleftrightarrow> encoder d = Utf16le \<and> length (buffer d) \<le> 1
      \<and> buffered_bytes d = length (buffer d) \<and> missing_bytes d = length (buffer d)
      \<and> even (length past) \<and> list_all utf16_tame past \<and> list_all utf16_tame (buffer d)"

lemma utf16_tame_range: "utf16_tame c \<longleftrightarrow> \<not> (0xD8 \<le> (of_char c :: nat) \<and> of_char c \<le> (0xDB :: nat))"
  using masked_eq_iff [OF not_masks(6), of 216 c] div_times_eq_iff [of 4 "of_char c" 54]
  by (auto simp: utf16_tame_def)

lemma induct_list2 [case_names 1 2 3]:
  "P [] \<Longrightarrow> (\<And>a. P [a]) \<Longrightarrow> (\<And>a b rest. P rest \<Longrightarrow> P (a # b # rest)) \<Longrightarrow> P xs"
  by induction_schema (pat_completeness, lexicographic_order)

lemma units_append: "even (length a) \<Longrightarrow> units e (a @ b) = units e a @ units e b"
  by (induction a rule: induct_list2) auto

lemma units_tame:
  "list_all utf16_tame bs \<Longrightarrow> u \<in> set (units Little bs) \<Longrightarrow> u < 0xD800 \<or> 0xDC00 \<le> u"
proof (induction bs rule: induct_list2)
  case (3 a b rest)
  have "unit_of Little a b < 0xD800 \<or> 0xDC00 \<le> unit_of Little a b"
  proof -
    have "\<not> (0xD8 \<le> (of_char b :: nat) \<and> of_char b \<le> (0xDB :: nat))"
      using 3(2) by (simp add: utf16_tame_range)
    then show ?thesis using nat_of_char_less_256 [of a] unfolding unit_of_def endian.case by linarith
  qed
  with 3 show ?case by auto
qed simp_all

lemma decode_utf16_append:
  "\<forall>u \<in> set us. u < 0xD800 \<or> 0xDC00 \<le> u \<Longrightarrow> decode_utf16 (us @ vs) = decode_utf16 us @ decode_utf16 vs"
  by (induction us) auto

lemma utf16_to_string_append:
  "even (length a) \<Longrightarrow> list_all utf16_tame a \<Longrightarrow> utf16_to_string (a @ b) = utf16_to_string a @ utf16_to_string b"
  using units_tame [of a] by (simp add: utf16_to_string_def units_append from_utf16_lossy_def decode_utf16_append)

lemma utf16_to_string_Nil [simp]: "utf16_to_string [] = []"
  by (simp add: utf16_to_string_def from_utf16_lossy_def)

lemma make_string_utf16:
  "encoder d = Utf16le \<Longrightarrow> even (length bs) \<Longrightarrow> make_string sd d bs = Inr (utf16_to_string bs)"
  by (simp add: make_string_def bytes_to_utf16_string_def utf16_to_string_def)

lemma utf16_rest:
  assumes "utf16_inv d past" "buffer d = []" "data \<noteq> []" "list_all utf16_tame data"
  shows "\<exists>pre d'. decode_rest sd d data = (Inr (utf16_to_string pre), d') \<and> data = pre @ buffer d'
    \<and> utf16_inv d' (past @ pre)"
proof (cases "odd (length data)")
  case True
  obtain xs x where data: "data = xs @ [x]" using assms(3) by (cases data rule: rev_cases) auto
  let ?d' = "d\<lparr>buffer := [x], buffered_bytes := 1, missing_bytes := 1\<rparr>"
  have "utf16_tame (data ! (length data - 2))" if "3 \<le> length data"
    using assms(4) that by (simp add: list_all_length)
  then have cut: "cut_unfinished d data = d\<lparr>buffered_bytes := 1, missing_bytes := 1\<rparr>"
    using True assms(1) by (auto simp: cut_unfinished_def cut_utf16_def utf16_inv_def utf16_tame_def)
  have "even (length xs)" using True data by simp
  then have "decode_rest sd d data = (Inr (utf16_to_string xs), ?d')"
    using assms(1,2) unfolding decode_rest_def cut by (simp add: data Let_def make_string_utf16 utf16_inv_def)
  moreover have "utf16_inv ?d' (past @ xs)" using assms data \<open>even (length xs)\<close> by (simp add: utf16_inv_def)
  ultimately show ?thesis using data by (intro exI [of _ xs] exI [of _ ?d']) simp
next
  case False
  have "utf16_tame (last data)" using assms(3,4) by (auto simp: list_all_iff)
  then have cut: "cut_unfinished d data = d"
    using False assms(1) by (auto simp: cut_unfinished_def cut_utf16_def utf16_inv_def utf16_tame_def)
  have "decode_rest sd d data = (Inr (utf16_to_string data), d)"
    using assms(1,2,3) False unfolding decode_rest_def cut by (auto simp: make_string_utf16 utf16_inv_def Let_def)
  moreover have "utf16_inv d (past @ data)" using assms False by (simp add: utf16_inv_def)
  ultimately show ?thesis using assms(2) by (intro exI [of _ data] exI [of _ d]) simp
qed

lemma utf16_step:
  assumes "utf16_inv d past" "list_all utf16_tame data"
  shows "\<exists>out past' d'. decode_data sd d data = (Inr out, d') \<and> past @ buffer d @ data = past' @ buffer d'
    \<and> utf16_to_string past' = utf16_to_string past @ out \<and> utf16_inv d' past'"
proof -
  have ks: "keeps_state (encoder d)" using assms by (auto simp: utf16_inv_def keeps_state_def)
  have join: "utf16_to_string (past @ x) = utf16_to_string past @ utf16_to_string x" for x
    using assms(1) utf16_to_string_append by (simp add: utf16_inv_def)
  show ?thesis
  proof (cases "data = [] \<or> buffer d = []")
    case True
    then have fp: "finish_previous sd d data = (Inr [], data, d)"
      using assms by (auto simp: finish_previous_def utf16_inv_def take_missing_def take_missing_utf16_def)
    show ?thesis
    proof (cases "data = []")
      case True
      then show ?thesis using fp ks assms by (auto simp: decode_data_def)
    next
      case False
      obtain pre d' where "decode_rest sd d data = (Inr (utf16_to_string pre), d')" "data = pre @ buffer d'"
        "utf16_inv d' (past @ pre)"
        using utf16_rest [OF assms(1) _ False assms(2)] True False by blast
      then show ?thesis using fp ks False True join
        by - (rule exI [of _ "utf16_to_string pre"], rule exI [of _ "past @ pre"], rule exI [of _ d'],
          auto simp: decode_data_def append_ok_def)
    qed
  next
    case False
    then obtain b c cs where b: "buffer d = [b]" and data: "data = c # cs"
      using assms(1) by (cases "buffer d"; cases data) (auto simp: utf16_inv_def)
    let ?d1 = "d\<lparr>buffer := [], buffered_bytes := 0, missing_bytes := 0\<rparr>"
    have tame: "utf16_tame b" "utf16_tame c" "list_all utf16_tame cs"
      using assms b data by (auto simp: utf16_inv_def)
    then have fp: "finish_previous sd d data = (Inr (utf16_to_string [b, c]), cs, ?d1)"
      using assms(1) b data
      by (auto simp: finish_previous_def utf16_inv_def take_missing_def take_missing_utf16_def
          make_string_utf16 utf16_tame_def)
    have d1: "utf16_inv ?d1 (past @ [b, c])" using assms(1) tame by (auto simp: utf16_inv_def)
    show ?thesis
    proof (cases "cs = []")
      case True
      then show ?thesis using fp ks d1 join b data
        by - (rule exI [of _ "utf16_to_string [b, c]"], rule exI [of _ "past @ [b, c]"], rule exI [of _ ?d1],
          simp add: decode_data_def)
    next
      case ne: False
      obtain pre d' where rest: "decode_rest sd ?d1 cs = (Inr (utf16_to_string pre), d')" "cs = pre @ buffer d'"
        "utf16_inv d' ((past @ [b, c]) @ pre)"
        using utf16_rest [OF d1 _ ne tame(3), of sd] by auto
      have "utf16_to_string ([b, c] @ pre) = utf16_to_string [b, c] @ utf16_to_string pre"
        using tame by (intro utf16_to_string_append) auto
      then have "utf16_to_string ((past @ [b, c]) @ pre)
          = utf16_to_string past @ utf16_to_string [b, c] @ utf16_to_string pre"
        using join [of "[b, c] @ pre"] by simp
      then show ?thesis using fp ks ne rest b data
        by - (rule exI [of _ "utf16_to_string [b, c] @ utf16_to_string pre"],
          rule exI [of _ "(past @ [b, c]) @ pre"], rule exI [of _ d'],
          auto simp: decode_data_def append_ok_def)
    qed
  qed
qed

interpretation utf16_chunks: chunked sd utf16_to_string utf16_inv utf16_tame "\<lambda>bs. even (length bs)" for sd
  by unfold_locales (simp, erule (1) utf16_step,
    auto simp: utf16_inv_def flush_def fresh_def le_Suc_eq length_Suc_conv)

subsection \<open>Chunks do not matter\<close>

text \<open>Every encoding a decoder can have.\<close>

lemma node_encoders:
  "from_str s = Inr e \<Longrightarrow> e \<in> {Hex, Base64, Base64Url, Latin1, Ascii, Utf8, Utf16le}"
proof -
  assume "from_str s = Inr e"
  then have "e \<in> snd ` set NODE_ENCODING_MAP"
    by (auto simp: from_str_def dest!: map_of_SomeD split: option.splits) force
  then show ?thesis by (auto simp: NODE_ENCODING_MAP_def)
qed

lemma new_decoder_Inr:
  "new_decoder label = Inr d \<Longrightarrow>
     d = \<lparr>encoder = encoder d, buffer = [], buffered_bytes = 0, missing_bytes = 0\<rparr>
     \<and> encoder d \<in> {Hex, Base64, Base64Url, Latin1, Ascii, Utf8, Utf16le}"
  by (auto simp: new_decoder_def Let_def split: sum.splits option.splits dest!: node_encoders)

lemma list_all_True [simp]: "list_all (\<lambda>_. True) xs"
  by (simp add: list_all_iff)

lemma list_all_concat: "list_all P (concat xss) \<longleftrightarrow> (\<forall>xs \<in> set xss. list_all P xs)"
  by (induction xss) auto

text \<open>C32 (equivalence): writing an input in any pieces and ending it returns, joined, exactly the
  text of the whole input, and leaves the decoder as new. For UTF-8 this covers every sequence of
  bytes, well formed or not, and so for hex, base64, latin1 and ascii. For UTF-16 the input must have an
  even length and none of the bytes 0xD8 to 0xDB: with an odd length the last byte stays in the decoder
  (\<open>utf16_end_keeps_byte\<close>), with one of those bytes text can be damaged (\<open>utf16_split_corrupts\<close>).\<close>

theorem decoder_chunks_do_not_matter:
  assumes "simd_ok sd" "new_decoder label = Inr d"
    and "encoder d = Utf16le \<longrightarrow> even (length (concat chunks)) \<and> list_all utf16_tame (concat chunks)"
  shows "\<exists>s. encode_to_string sd (encoder d) (concat chunks) True = Inr s \<and> decoder_run sd d chunks = (Inr s, d)"
proof -
  obtain e where d: "d = \<lparr>encoder = e, buffer = [], buffered_bytes = 0, missing_bytes = 0\<rparr>"
    and e: "e \<in> {Hex, Base64, Base64Url, Latin1, Ascii, Utf8, Utf16le}"
    using new_decoder_Inr [OF assms(2)] by auto
  have fresh: "fresh d = d" "buffer d = []" by (simp_all add: d fresh_def)
  have tame: "e = Utf16le \<Longrightarrow> \<forall>data \<in> set chunks. list_all utf16_tame data"
    using assms(3) by (simp add: d list_all_concat)
  note sd = assms(1) [unfolded simd_ok_def]
  consider "e = Hex" | "e = Latin1" | "e = Ascii" | "e = Base64" | "e = Base64Url" | "e = Utf8" | "e = Utf16le"
    using e by auto
  then show ?thesis
  proof cases
    case 1
    then have "plain_inv sd Hex rfc_hex d []" using sd by (simp add: d plain_inv_def keeps_state_def rfc_hex_append)
    from hex_chunks.run [OF this] 1 fresh sd show ?thesis by (simp add: d)
  next
    case 2
    then have "plain_inv sd Latin1 latin1_to_string d []"
      by (simp add: d plain_inv_def keeps_state_def latin1_to_string_def)
    from latin1_chunks.run [OF this] 2 fresh show ?thesis by (simp add: d)
  next
    case 3
    then have "plain_inv sd Ascii ascii_to_string d []"
      by (simp add: d plain_inv_def keeps_state_def ascii_to_string_def)
    from ascii_chunks.run [OF this] 3 fresh show ?thesis by (simp add: d ascii_to_string_def)
  next
    case 4
    then have "base64_inv sd Base64 (rfc_base64 base64_alphabet ''='') d []"
      using sd rfc_base64_append by (simp add: d base64_inv_def)
    from base64_chunks.run [OF this] 4 fresh sd show ?thesis by (simp add: d)
  next
    case 5
    then have "base64_inv sd Base64Url (rfc_base64 base64_url_alphabet []) d []"
      using sd rfc_base64_append by (simp add: d base64_inv_def)
    from base64url_chunks.run [OF this] 5 fresh sd show ?thesis by (simp add: d)
  next
    case 6
    then have "utf8_inv d []" by (simp add: d utf8_inv_def utf8_ready_def)
    from utf8_chunks.run [OF this] 6 fresh show ?thesis by (simp add: d bytes_to_utf8_string_def)
  next
    case 7
    then have "utf16_inv d []" by (simp add: d utf16_inv_def)
    from utf16_chunks.run [OF this] tame 7 fresh assms(3) show ?thesis
      by (simp add: d bytes_to_utf16_string_def utf16_to_string_def)
  qed
qed

definition decoder_for :: "encoder \<Rightarrow> string_decoder" where
  "decoder_for e = \<lparr>encoder = e, buffer = [], buffered_bytes = 0, missing_bytes = 0\<rparr>"

lemma new_decoder_utf8: "new_decoder None = Inr (decoder_for Utf8)"
  by (simp add: new_decoder_def decoder_for_def from_str_def trim_ascii_def is_ascii_whitespace_def
      to_ascii_lowercase_def ascii_lower_char_def NODE_ENCODING_MAP_def)

text \<open>The euro sign cut after its first and its second byte.\<close>

theorem decoder_chunks_do_not_matter_witness:
  "\<exists>s. encode_to_string reference_simd Utf8 [CHR 0xE2, CHR 0x82, CHR 0xAC] True = Inr s
    \<and> decoder_run reference_simd (decoder_for Utf8) [[CHR 0xE2], [CHR 0x82], [CHR 0xAC]]
        = (Inr s, decoder_for Utf8)"
  using decoder_chunks_do_not_matter [OF simd_ok_reference new_decoder_utf8,
      of "[[CHR 0xE2], [CHR 0x82], [CHR 0xAC]]"]
  by (simp add: decoder_for_def)

subsection \<open>No panic\<close>

datatype decoder_call = Write_call "string option" | End_call "string option"

fun decoder_calls :: "simd \<Rightarrow> string_decoder \<Rightarrow> decoder_call list \<Rightarrow> (failure + string) list" where
  "decoder_calls sd d [] = []"
| "decoder_calls sd d (c # cs) =
     (let (r, d) = (case c of Write_call b \<Rightarrow> decoder_write sd d b | End_call b \<Rightarrow> decoder_end sd d b)
      in r # decoder_calls sd d cs)"

definition decoder_ok :: "string_decoder \<Rightarrow> bool" where
  "decoder_ok d \<longleftrightarrow> (encoder d = Utf8 \<longrightarrow> utf8_ready d) \<and> (missing_bytes d = 0 \<longrightarrow> buffered_bytes d = 0)"

lemma make_string_Inr: "\<exists>s. make_string sd d bs = Inr s"
  by (cases "encoder d") (auto simp: make_string_def bytes_to_utf8_string_def bytes_to_utf16_string_def Let_def)

lemma finish_previous_total:
  assumes "decoder_ok d" "encoder d \<noteq> Utf8"
  shows "\<exists>s rest d'. finish_previous sd d data = (Inr s, rest, d') \<and> encoder d' = encoder d \<and> decoder_ok d'
    \<and> (rest \<noteq> [] \<longrightarrow> missing_bytes d' = 0)"
proof -
  define d1 where "d1 = (if encoder d = Utf16le then take_missing_utf16 d data else d)"
  have d1: "take_missing d data = (d1, data)" "encoder d1 = encoder d" "missing_bytes d \<noteq> 0 \<Longrightarrow> missing_bytes d1 \<noteq> 0"
    using assms(2) by (auto simp: d1_def take_missing_def take_missing_utf16_def)
  obtain s where "make_string sd d1 (buffer d1 @ take (min (length data) (missing_bytes d1)) data) = Inr s"
    using make_string_Inr by blast
  then show ?thesis
    using assms d1 by (auto simp: finish_previous_def decoder_ok_def Let_def)
qed

lemma decode_rest_total:
  assumes "decoder_ok d" "encoder d \<noteq> Utf8" "missing_bytes d = 0" "data \<noteq> []"
  shows "\<exists>s d'. decode_rest sd d data = (Inr s, d') \<and> encoder d' = encoder d \<and> decoder_ok d'"
proof -
  let ?d = "cut_unfinished d data"
  have d: "encoder ?d = encoder d \<and> buffered_bytes ?d \<le> length data \<and> (missing_bytes ?d = 0 \<longrightarrow> buffered_bytes ?d = 0)"
  proof -
    have "even (length data) \<Longrightarrow> 2 \<le> length data" using assms(4) by (auto dest: dvd_imp_le)
    then show ?thesis using assms
      by (auto simp: decoder_ok_def cut_unfinished_def cut_utf16_def cut_base64_def Let_def Suc_le_eq)
  qed
  obtain s where "make_string sd ?d (take (length data - buffered_bytes ?d) data) = Inr s"
    using make_string_Inr by blast
  then show ?thesis using d assms(2) by (auto simp: decode_rest_def Let_def decoder_ok_def)
qed

lemma decode_data_total:
  assumes "decoder_ok d"
  shows "\<exists>s d'. decode_data sd d data = (Inr s, d') \<and> decoder_ok d'"
proof (cases "encoder d = Utf8")
  case True
  then have ready: "utf8_ready d" "keeps_state (encoder d)" using assms by (auto simp: decoder_ok_def keeps_state_def)
  obtain s rest d1 where fp: "finish_previous sd d data = (Inr s, rest, d1)" "utf8_ready d1" "rest \<noteq> [] \<longrightarrow> buffer d1 = []"
    using finish_previous_utf8 [OF ready(1), of sd data] by blast
  have ok: "utf8_ready d \<Longrightarrow> decoder_ok d" for d
    using unfinished_missing by (auto simp: decoder_ok_def utf8_ready_def)
  show ?thesis
  proof (cases "rest = []")
    case False
    then obtain t d2 where "decode_rest sd d1 rest = (Inr t, d2)" "utf8_ready d2"
      using decode_rest_utf8 [OF fp(2) _ False, of sd] fp(3) by blast
    then show ?thesis using fp(1) ready ok False by (auto simp: decode_data_def append_ok_def)
  qed (use fp ready ok in \<open>auto simp: decode_data_def\<close>)
next
  case False
  obtain s rest d1 where fp: "finish_previous sd d data = (Inr s, rest, d1)" "encoder d1 = encoder d"
      "decoder_ok d1" "rest \<noteq> [] \<longrightarrow> missing_bytes d1 = 0"
    using finish_previous_total [OF assms False] by blast
  show ?thesis
  proof (cases "keeps_state (encoder d) \<and> rest \<noteq> []")
    case True
    then obtain t d2 where "decode_rest sd d1 rest = (Inr t, d2)" "decoder_ok d2"
      using decode_rest_total [OF fp(3), of rest sd] fp False by auto
    then show ?thesis using fp(1) True by (auto simp: decode_data_def append_ok_def)
  next
    case ks: False
    obtain t where "make_string sd d data = Inr t" using make_string_Inr by blast
    then show ?thesis using fp(1,3) ks assms by (auto simp: decode_data_def)
  qed
qed

lemma flush_total:
  assumes "decoder_ok d"
  shows "\<exists>s d'. flush sd d = (Inr s, d') \<and> decoder_ok d'"
proof -
  have *: "\<exists>s. make_string sd d bs = Inr s" for bs using make_string_Inr .
  have "encoder d = Utf16le \<Longrightarrow> odd (buffered_bytes d) \<Longrightarrow> missing_bytes d \<noteq> 0"
    using assms by (auto simp: decoder_ok_def)
  then show ?thesis using assms * 
    by (cases "encoder d = Utf16le \<and> odd (buffered_bytes d)")
      (auto simp: flush_def decoder_ok_def utf8_ready_def Let_def)
qed

lemma decoder_end_total:
  assumes "decoder_ok d"
  shows "\<exists>s d'. decoder_end sd d buf = (Inr s, d') \<and> decoder_ok d'"
proof (cases buf)
  case (Some data)
  obtain s d1 where "decode_data sd d data = (Inr s, d1)" "decoder_ok d1"
    using decode_data_total [OF assms] by blast
  moreover from this obtain t d2 where "flush sd d1 = (Inr t, d2)" "decoder_ok d2"
    using flush_total by blast
  ultimately show ?thesis using Some by (auto simp: decoder_end_def append_ok_def)
qed (use flush_total [OF assms] in \<open>simp add: decoder_end_def\<close>)

lemma decoder_calls_total:
  "decoder_ok d \<Longrightarrow> r \<in> set (decoder_calls sd d calls) \<Longrightarrow>
     r = Inl (Thrown ''Buffer has already been used'') \<or> (\<exists>s. r = Inr s)"
proof (induction calls arbitrary: d)
  case (Cons c calls)
  obtain r' d' where run: "(case c of Write_call b \<Rightarrow> decoder_write sd d b | End_call b \<Rightarrow> decoder_end sd d b) = (r', d')"
    by force
  have "decoder_ok d' \<and> (r' = Inl (Thrown ''Buffer has already been used'') \<or> (\<exists>s. r' = Inr s))"
  proof (cases c)
    case (Write_call b)
    show ?thesis
    proof (cases b)
      case (Some data)
      then show ?thesis using run Write_call decode_data_total [OF Cons.prems(1), of sd data]
        by (auto simp: decoder_write_def)
    qed (use run Write_call Cons.prems(1) in \<open>auto simp: decoder_write_def\<close>)
  next
    case (End_call b)
    then show ?thesis using run decoder_end_total [OF Cons.prems(1), of sd b] by auto
  qed
  then show ?case using Cons run by auto
qed simp

text \<open>Whatever calls a script makes on a decoder, in whatever order, none panics, and a
  call fails only because its buffer has been transferred.\<close>

theorem decoder_never_panics:
  assumes "new_decoder label = Inr d"
  shows "list_all (\<lambda>r. r = Inl (Thrown ''Buffer has already been used'') \<or> (\<exists>s. r = Inr s)) (decoder_calls sd d calls)"
proof -
  have "decoder_ok d"
    using new_decoder_Inr [OF assms] by (cases d) (auto simp: decoder_ok_def utf8_ready_def)
  then show ?thesis using decoder_calls_total unfolding list_all_iff by blast
qed

theorem decoder_never_panics_witness:
  "list_all (\<lambda>r. r = Inl (Thrown ''Buffer has already been used'') \<or> (\<exists>s. r = Inr s))
     (decoder_calls reference_simd (decoder_for Utf8) [Write_call (Some [CHR 0xE2]), End_call None])"
  by (rule decoder_never_panics [OF new_decoder_utf8])

subsection \<open>Where UTF-16 goes wrong\<close>

lemma utf16_masks:
  "masked 0xFC c = 0xD8 \<longleftrightarrow> 0xD8 \<le> (of_char c :: nat) \<and> of_char c \<le> (0xDB :: nat)"
  using utf16_tame_range [of c] by (auto simp: utf16_tame_def)

lemmas decoder_eval = decoder_write_def decode_data_def keeps_state_def finish_previous_def
  take_missing_def take_missing_utf16_def cut_unfinished_def cut_utf16_def decode_rest_def append_ok_def
  make_string_def bytes_to_utf16_string_def from_utf16_lossy_def unit_of_def decoder_end_def flush_def
  utf16_masks Let_def decoder_for_def

text \<open>
  The low surrogate of U+1F4D8 is DCD8, whose low byte is taken for the high byte of a high
  surrogate: cut between its surrogates the character is not returned when it is complete, and the
  text that follows is damaged.
\<close>

lemma utf16_split_corrupts:
  "fst (decoder_run sd (decoder_for Utf16le)
      [[CHR 0x3D, CHR 0xD8], [CHR 0xD8, CHR 0xDC], [CHR 0x41, CHR 0x00]])
     = Inr (string_of [0x1F4D8, 0xFFFD])"
  "encode_to_string sd Utf16le [CHR 0x3D, CHR 0xD8, CHR 0xD8, CHR 0xDC, CHR 0x41, CHR 0x00] True
     = Inr (string_of [0x1F4D8, 0x41])"
  by (simp_all add: decoder_eval)

text \<open>An odd byte at the end is not ignored but rendered, after a high surrogate.\<close>

lemma utf16_odd_byte_rendered:
  "fst (decoder_run sd (decoder_for Utf16le) [[CHR 0x3D, CHR 0xD8, CHR 0x41]]) = Inr (string_of [0xFFFD, 0xFFFD])"
  "fst (decoder_run sd (decoder_for Utf16le) [[CHR 0x3D, CHR 0xD8]]) = Inr (string_of [0xFFFD])"
  by (simp_all add: decoder_eval)

text \<open>An odd byte at the end stays in the buffer, in front of what is written next.\<close>

lemma utf16_end_keeps_byte:
  "buffer (snd (decoder_end sd (decoder_for Utf16le) (Some [CHR 0x41]))) = [CHR 0x41]"
  "decoder_calls sd (decoder_for Utf16le)
      [End_call (Some [CHR 0x41]), Write_call (Some [CHR 0x43]), Write_call (Some [CHR 0x00])]
     = [Inr [], Inr [], Inr (string_of [0x4341, 0xFFFD])]"
  by (simp_all add: decoder_eval)

end
