(* ===== verification/Text_Runs.thy ===== *)
theory Text_Runs
  imports Text_Decoder Decoder_Runs
begin

text \<open>
  What \<open>TextDecoder\<close> returns over a stream. The locale \<open>streamable\<close> is what an encoding has to offer
  for being decoded in pieces; the theorem about streams is proved in it and holds for every encoding
  that interprets it.
\<close>

text \<open>The text of a result, if it is one.\<close>

definition ok_of :: "'e + string \<Rightarrow> string option" where
  "ok_of r = (case r of Inl _ \<Rightarrow> None | Inr s \<Rightarrow> Some s)"

definition opt_append :: "string option \<Rightarrow> string option \<Rightarrow> string option" where
  "opt_append a b = (case a of None \<Rightarrow> None | Some s \<Rightarrow> map_option (\<lambda>t. s @ t) b)"

lemma opt_append_simps [simp]:
  "opt_append None b = None" "opt_append a None = None" "opt_append (Some s) (Some t) = Some (s @ t)"
  "opt_append (Some []) b = b"
  by (cases b; simp add: opt_append_def split: option.splits)+

lemma opt_append_assoc: "opt_append (opt_append a b) c = opt_append a (opt_append b c)"
  by (cases a; cases b; cases c) simp_all

lemma ok_of_simps [simp]: "ok_of (Inl e) = None" "ok_of (Inr s) = Some s"
  by (simp_all add: ok_of_def)

lemma ok_of_join: "ok_of (join_results r r') = opt_append (ok_of r) (ok_of r')"
  by (simp add: join_results_def ok_of_def split: sum.splits)

text \<open>What is decoded of an input: all of it, but the byte order mark.\<close>

definition body_of :: "encoder \<Rightarrow> bool \<Rightarrow> string \<Rightarrow> string" where
  "body_of e ignore raw = (if ignore then raw else drop (bom_skip e raw) raw)"

lemma bom_skip_Nil [simp]: "bom_skip e [] = 0"
  by (simp add: bom_skip_def)

lemma bom_skip_append: "bom_skip e data \<noteq> 0 \<Longrightarrow> bom_skip e (data @ rest) = bom_skip e data \<and> bom_skip e data \<le> length data"
  by (auto simp: bom_skip_def prefix_def split: if_splits)

lemma bom_skip_late:
  assumes "data \<noteq> []" "bom_skip e data = 0" "\<not> bom_fragment e data"
  shows "bom_skip e (data @ rest) = 0"
proof (rule ccontr)
  assume late: "bom_skip e (data @ rest) \<noteq> 0"
  then have bom: "bom_of e \<noteq> []" "prefix (bom_of e) (data @ rest)" "\<not> prefix (bom_of e) data"
    using assms(2) by (auto simp: bom_skip_def split: if_splits)
  then have "strict_prefix data (bom_of e)" by (auto simp: prefix_append strict_prefix_def prefix_def append_eq_append_conv2)
      (metis)
  then have "data \<in> set (butlast (prefixes (bom_of e)))"
    by (cases e) (auto simp: bom_of_def strict_prefix_def prefix_Cons)
  with assms(1,3) show False by (cases e) (auto simp: bom_of_def bom_fragment_def)
qed

lemma bom_fragment_skip: "bom_fragment e data \<Longrightarrow> bom_skip e data = 0"
  by (cases e) (auto simp: bom_fragment_def bom_skip_def bom_of_def)

text \<open>The contract. \<open>joins a b\<close> says that nothing is lost by decoding \<open>a\<close> and \<open>b\<close> apart.\<close>

locale streamable =
  fixes sd :: simd and e :: encoder and joins :: "string \<Rightarrow> string \<Rightarrow> bool"
  assumes empty: "encode_to_string sd e [] lossy = Inr []"
    and joins_Nil: "joins [] data"
    and joined: "joins a b \<Longrightarrow> ok_of (encode_to_string sd e (a @ b) lossy)
      = opt_append (ok_of (encode_to_string sd e a lossy)) (ok_of (encode_to_string sd e b lossy))"
    and hold_le: "hold_back e data \<le> length data"
    and joins_take: "joins past data \<Longrightarrow> joins past (take (length data - hold_back e data) data)"
    and joins_hold: "(\<And>rest. joins past (data @ rest)) \<Longrightarrow> joins (past @ take (length data - hold_back e data) data)
      (drop (length data - hold_back e data) data @ rest)"
    and hold_no_bom: "bom_skip e (drop (length data - hold_back e data) data) = 0"
begin

definition inv :: "text_decoder \<Rightarrow> string \<Rightarrow> string \<Rightarrow> bool" where
  "inv td raw past \<longleftrightarrow> td_encoder td = e \<and>
     (if td_ignore_bom td \<or> bom_seen td
      then (\<forall>rest. body_of e (td_ignore_bom td) (raw @ rest) = past @ pending td @ rest)
        \<and> (\<forall>rest. joins past (pending td @ rest)) \<and> bom_skip e (pending td) = 0
      else past = [] \<and> pending td = raw \<and> (raw = [] \<or> bom_fragment e raw))"

lemma decode_body_stream:
  assumes "pending td = []" "td_encoder td = e"
  shows "decode_body sd td True data =
    (encode_to_string sd e (take (length data - hold_back e data) data) (\<not> td_fatal td),
     td\<lparr>pending := drop (length data - hold_back e data) data\<rparr>)"
proof -
  have "td = td\<lparr>pending := []\<rparr>" using assms(1) by (cases td) simp
  then show ?thesis using assms hold_le [of data] by (simp add: decode_body_def Let_def)
qed

lemma body_step:
  assumes "td_encoder td = e" "pending td = []" "td_ignore_bom td \<or> bom_seen td"
    and "\<forall>rest. body_of e (td_ignore_bom td) (raw @ rest) = past @ data @ rest"
    and joins: "\<And>rest. joins past (data @ rest)"
  shows "\<exists>pre r td'. decode_body sd td True data = (r, td') \<and> inv td' raw (past @ pre)
    \<and> td_fatal td' = td_fatal td \<and> td_ignore_bom td' = td_ignore_bom td
    \<and> ok_of (encode_to_string sd e (past @ pre) (\<not> td_fatal td))
        = opt_append (ok_of (encode_to_string sd e past (\<not> td_fatal td))) (ok_of r)"
proof -
  let ?k = "length data - hold_back e data"
  have "inv (td\<lparr>pending := drop ?k data\<rparr>) raw (past @ take ?k data)"
    using assms joins_hold [OF joins] hold_no_bom [of data] by (simp add: inv_def)
  then show ?thesis unfolding decode_body_stream [OF assms(2,1)]
    using joined [OF joins_take [OF joins [of "[]"]]] by auto
qed

lemma stream_step:
  assumes "inv td raw past"
  shows "\<exists>pre r td'. text_decode sd td (Some chunk) True = (r, td') \<and> inv td' (raw @ chunk) (past @ pre)
    \<and> td_fatal td' = td_fatal td \<and> td_ignore_bom td' = td_ignore_bom td
    \<and> ok_of (encode_to_string sd e (past @ pre) (\<not> td_fatal td))
        = opt_append (ok_of (encode_to_string sd e past (\<not> td_fatal td))) (ok_of r)"
proof -
  let ?data = "pending td @ chunk" and ?td = "td\<lparr>pending := []\<rparr>"
  have data: "(if pending td = [] then chunk else ?data) = ?data" by simp
  have td: "td_encoder td = e" using assms by (simp add: inv_def)
  show ?thesis
  proof (cases "td_ignore_bom td \<or> bom_seen td")
    case True
    then have "text_decode sd td (Some chunk) True = decode_body sd ?td True ?data"
      by (auto simp: text_decode_def data Let_def)
    then show ?thesis using body_step [of ?td "raw @ chunk" past ?data] True assms by (auto simp: inv_def)
  next
    case False
    then have past: "past = []" and raw: "pending td = raw" "raw = [] \<or> bom_fragment e raw"
      using assms by (auto simp: inv_def)
    consider "bom_skip e ?data \<noteq> 0" | "bom_skip e ?data = 0" "bom_fragment e ?data"
      | "bom_skip e ?data = 0" "\<not> bom_fragment e ?data" "?data \<noteq> []" | "?data = []" by auto
    then show ?thesis
    proof cases
      case 1
      let ?d = "drop (bom_skip e ?data) ?data"
      have "text_decode sd td (Some chunk) True = decode_body sd (?td\<lparr>bom_seen := True\<rparr>) True ?d"
        using False 1 td by (simp add: text_decode_def data Let_def)
      moreover have "\<forall>rest. body_of e False ((raw @ chunk) @ rest) = past @ ?d @ rest"
        using bom_skip_append [OF 1] raw(1) past by (simp add: body_of_def)
      ultimately show ?thesis
        using body_step [of "?td\<lparr>bom_seen := True\<rparr>" "raw @ chunk" past ?d] False td joins_Nil past by auto
    next
      case 2
      then have "text_decode sd td (Some chunk) True = (Inr [], ?td\<lparr>pending := ?data\<rparr>)"
        using False td by (simp add: text_decode_def data Let_def)
      moreover have "inv (?td\<lparr>pending := ?data\<rparr>) (raw @ chunk) []"
        using False td 2 raw(1) by (simp add: inv_def)
      ultimately show ?thesis using past empty by auto
    next
      case 3
      have "text_decode sd td (Some chunk) True = decode_body sd (?td\<lparr>bom_seen := True\<rparr>) True ?data"
        using False 3 td by (simp add: text_decode_def data Let_def)
      moreover have "\<forall>rest. body_of e False ((raw @ chunk) @ rest) = past @ ?data @ rest"
        using bom_skip_late [OF 3(3,1,2)] raw(1) past by (simp add: body_of_def)
      ultimately show ?thesis
        using body_step [of "?td\<lparr>bom_seen := True\<rparr>" "raw @ chunk" past ?data] False td joins_Nil past by auto
    next
      case 4
      then have "text_decode sd td (Some chunk) True = (Inr [], td)"
        using False td empty hold_le [of "[]"]
        by (cases td) (auto simp: text_decode_def Let_def bom_fragment_def decode_body_def split: encoder.splits)
      moreover have "inv td (raw @ chunk) []" using 4 assms past raw False by (simp add: inv_def)
      ultimately show ?thesis using past empty by auto
    qed
  qed
qed

lemma stream_end:
  assumes "inv td raw past"
  shows "fst (text_decode sd td None False) = encode_to_string sd e (pending td) (\<not> td_fatal td)"
    "body_of e (td_ignore_bom td) raw = past @ pending td" "joins past (pending td)"
proof -
  have td: "td_encoder td = e" "bom_skip e (pending td) = 0"
    using assms by (auto simp: inv_def bom_fragment_skip split: if_splits)
  then show "fst (text_decode sd td None False) = encode_to_string sd e (pending td) (\<not> td_fatal td)"
    by (simp add: text_decode_def Let_def decode_body_def)
  show "body_of e (td_ignore_bom td) raw = past @ pending td" "joins past (pending td)"
    using assms joins_Nil by (auto simp: inv_def body_of_def bom_fragment_skip split: if_splits dest: spec [of _ "[]"])
qed

lemma stream_from:
  "inv td raw past \<Longrightarrow>
     ok_of (encode_to_string sd e (body_of e (td_ignore_bom td) (raw @ concat chunks)) (\<not> td_fatal td))
     = opt_append (ok_of (encode_to_string sd e past (\<not> td_fatal td))) (ok_of (fst (text_stream sd td chunks)))"
proof (induction chunks arbitrary: td raw past)
  case Nil
  then show ?case using stream_end [OF Nil] joined by simp
next
  case (Cons chunk chunks)
  obtain pre r td' where step: "text_decode sd td (Some chunk) True = (r, td')" "inv td' (raw @ chunk) (past @ pre)"
    "td_fatal td' = td_fatal td" "td_ignore_bom td' = td_ignore_bom td"
    "ok_of (encode_to_string sd e (past @ pre) (\<not> td_fatal td))
        = opt_append (ok_of (encode_to_string sd e past (\<not> td_fatal td))) (ok_of r)"
    using stream_step [OF Cons.prems] by blast
  have "ok_of (encode_to_string sd e (body_of e (td_ignore_bom td) (raw @ concat (chunk # chunks))) (\<not> td_fatal td))
      = opt_append (opt_append (ok_of (encode_to_string sd e past (\<not> td_fatal td))) (ok_of r))
          (ok_of (fst (text_stream sd td' chunks)))"
    using Cons.IH [OF step(2)] step(3,4,5) by simp
  also have "\<dots> = opt_append (ok_of (encode_to_string sd e past (\<not> td_fatal td)))
      (ok_of (fst (text_stream sd td (chunk # chunks))))"
    using step(1) by (cases r) (auto simp: opt_append_assoc ok_of_join split: prod.splits)
  finally show ?case .
qed

lemma stream_whole:
  assumes "td_encoder td = e" "pending td = []" "\<not> bom_seen td"
  shows "ok_of (fst (text_stream sd td chunks))
    = ok_of (encode_to_string sd e (body_of e (td_ignore_bom td) (concat chunks)) (\<not> td_fatal td))"
proof -
  have "inv td [] []" using assms joins_Nil by (auto simp: inv_def body_of_def)
  from stream_from [OF this, of chunks] show ?thesis using empty by simp
qed

end

subsection \<open>UTF-8\<close>

lemma settled_lead_stop:
  assumes "list_all utf8_cont cs" "utf8_matched (of_char l) 1 (utf8_need (of_char l) - 1) cs < length cs"
  shows "settled (l # cs)"
proof (cases "utf8_need (of_char l) = 0")
  case True
  then show ?thesis using settled_lead [OF assms(1)] by simp
next
  case False
  let ?m = "utf8_matched (of_char l) 1 (utf8_need (of_char l) - 1) cs"
  have "settled (drop ?m cs)" using assms(1) by (intro settled_conts list_all_drop)
  then show ?thesis using False assms(2) by (auto simp: settled.simps [of "l # cs"] utf8_first_def Let_def)
qed

lemma tail_valid_conts:
  assumes "list_all utf8_cont cs" "\<not> tail_valid b 0 cs"
  shows "utf8_matched b 1 n cs < length cs"
proof -
  have later: "list_all utf8_cont cs \<Longrightarrow> tail_valid b (Suc j) cs" for cs j
    by (induction cs arbitrary: j) (auto simp: masked_cont [unfolded masked_def])
  obtain c cs' where cs: "cs = c # cs'" using assms(2) by (cases cs) auto
  then have "\<not> first_cont_valid b (of_char c)" using assms later [of cs' 0] by auto
  then have "\<not> utf8_follow b 1 (of_char c)" by (simp add: first_cont_valid_def utf8_follow_def)
  then show ?thesis by (cases n) (auto simp: cs)
qed

lemma expected_length_need: "expected_length b = (if utf8_need b \<ge> 2 then Some (utf8_need b) else None)"
  by (auto simp: expected_length_def utf8_need_def)

lemma incomplete_from_spec:
  "list_all utf8_cont tail \<Longrightarrow> length tail \<le> 4 \<Longrightarrow>
     let k = incomplete_from tail before; data = rev before @ tail
     in k \<le> length data \<and> (k = 0 \<longrightarrow> settled data)
        \<and> (k > 0 \<longrightarrow> k < utf8_need (of_char (hd (drop (length data - k) data)))
             \<and> \<not> utf8_cont (hd (drop (length data - k) data)))"
proof (induction before arbitrary: tail)
  case Nil
  then show ?case by (simp add: settled_conts)
next
  case (Cons c before)
  let ?b = "of_char c :: nat" and ?i = "length tail + 1"
  let ?data = "rev before @ c # tail"
  consider "?i > 4" | "?i \<le> 4" "?b < 0x80" | "?i \<le> 4" "0xC0 \<le> ?b" | "?i \<le> 4" "utf8_cont c"
  proof -
    have "?b < 0x80 \<or> 0xC0 \<le> ?b \<or> utf8_cont c" unfolding utf8_cont_def Let_def by linarith
    then show thesis using that by (meson not_le)
  qed
  then show ?case
  proof cases
    case 1
    then have "settled ((rev before @ [c]) @ tail)" using Cons.prems(1) by (intro settled_three) auto
    then show ?thesis using 1 by (simp add: Let_def)
  next
    case 2
    have "\<not> utf8_cont c" using 2 by (simp add: utf8_cont_def)
    then have "settled ?data" using Cons.prems(1) 2
      by (intro settled_tail) (auto simp: utf8_need_def)
    then show ?thesis using 2 by (simp add: Let_def)
  next
    case 3
    have lead: "\<not> utf8_cont c" using 3(2) by (simp add: utf8_cont_def Let_def)
    have whole: "settled (c # tail) \<Longrightarrow> settled ?data"
      using settled_seam [of "rev before" "c # tail"] lead by (simp add: seam_def)
    have drop: "drop (length ?data - ?i) ?data = c # tail" by simp
    show ?thesis
    proof (cases "2 \<le> utf8_need ?b \<and> ?i < utf8_need ?b \<and> tail_valid ?b 0 tail")
      case True
      then have "incomplete_from tail (c # before) = ?i" using 3 by (simp add: expected_length_need)
      then show ?thesis using True lead drop by (simp add: Let_def)
    next
      case False
      then have k: "incomplete_from tail (c # before) = 0" using 3 by (auto simp: expected_length_need Let_def)
      have "settled (c # tail)"
      proof (cases "utf8_need ?b \<le> ?i")
        case True
        then show ?thesis using settled_lead [OF Cons.prems(1), of c] by simp
      next
        case late: False
        then have "\<not> tail_valid ?b 0 tail" using False by auto
        then show ?thesis using settled_lead_stop tail_valid_conts Cons.prems(1) by blast
      qed
      then show ?thesis using k whole by (simp add: Let_def)
    qed
  next
    case 4
    then have "\<not> ?b < 0x80" "\<not> 0xC0 \<le> ?b" by (auto simp: utf8_cont_def Let_def)
    then have "incomplete_from tail (c # before) = incomplete_from (c # tail) before" using 4 by simp
    then show ?thesis using Cons.IH [of "c # tail"] Cons.prems 4 by simp
  qed
qed

lemma utf8_hold:
  "utf8_incomplete_tail data \<le> length data"
  "utf8_incomplete_tail data = 0 \<Longrightarrow> settled data"
  "utf8_incomplete_tail data > 0 \<Longrightarrow>
     let tail = drop (length data - utf8_incomplete_tail data) data
     in length tail < utf8_need (of_char (hd tail)) \<and> \<not> utf8_cont (hd tail)"
  using incomplete_from_spec [of "[]" "rev data"] by (auto simp: utf8_incomplete_tail_def Let_def)

lemma utf8_valid_seam: "seam a b \<Longrightarrow> utf8_valid (a @ b) \<longleftrightarrow> utf8_valid a \<and> utf8_valid b"
proof (induction a rule: settled.induct)
  case (1 a)
  show ?case
  proof (cases "a = []")
    case False
    obtain ok n where first: "utf8_first a = (ok, n)" by force
    note step = seam_step [OF False "1.prems" first]
    note len = utf8_first_length [OF first False]
    have "utf8_valid (drop n a @ b) \<longleftrightarrow> utf8_valid (drop n a) \<and> utf8_valid b"
      by (rule "1.IH" [OF False first [symmetric] refl step(2)])
    with step(1) first len False show ?thesis
      by (auto simp: utf8_valid.simps [of "a @ b"] utf8_valid.simps [of a])
  qed simp
qed

interpretation utf8_stream: streamable sd Utf8 seam for sd
proof
  fix past data rest
  let ?k = "length data - utf8_incomplete_tail data"
  show "hold_back Utf8 data \<le> length data" by (simp add: hold_back_def utf8_hold)
  show "seam past data \<Longrightarrow> seam past (take (length data - hold_back Utf8 data) data)"
    by (cases data; cases "take ?k data") (auto simp: seam_def hold_back_def take_Cons' split: if_splits)
  show "bom_skip Utf8 (drop (length data - hold_back Utf8 data) data) = 0"
  proof (rule ccontr)
    assume "bom_skip Utf8 (drop (length data - hold_back Utf8 data) data) \<noteq> 0"
    then have "prefix [CHR 0xEF, CHR 0xBB, CHR 0xBF] (drop ?k data)"
      by (auto simp: bom_skip_def bom_of_def hold_back_def split: if_splits)
    then have "3 \<le> length (drop ?k data)" "hd (drop ?k data) = CHR 0xEF"
      by (auto simp: prefix_def simp del: length_drop)
    moreover from this have "0 < utf8_incomplete_tail data" by auto
    ultimately show False using utf8_hold(3) [of data] by (simp add: Let_def utf8_need_def)
  qed
  show "seam (past @ take (length data - hold_back Utf8 data) data) (drop (length data - hold_back Utf8 data) data @ rest)"
    if all: "\<And>rest. seam past (data @ rest)"
  proof (cases "utf8_incomplete_tail data = 0")
    case True
    have "data = [] \<or> settled (past @ data)"
      using settled_seam [of past data] utf8_hold(2) [OF True] all [of "[]"] by auto
    then show ?thesis using True all [of rest] by (auto simp: hold_back_def seam_def)
  next
    case False
    then have "drop ?k data \<noteq> []" using utf8_hold(1) [of data] by simp
    then show ?thesis using utf8_hold(3) [of data] False by (auto simp: seam_def hold_back_def Let_def)
  qed
qed (auto simp: bytes_to_utf8_string_def lossy_seam utf8_valid_seam seam_def)

subsection \<open>windows-1252\<close>

lemma plain_streamable:
  assumes "\<And>lossy bs. encode_to_string sd e bs lossy = Inr (render bs)" "\<And>a b. render (a @ b) = render a @ render b"
    "render [] = []" "e \<in> {Hex, Windows1252, Latin1, Ascii}"
  shows "streamable sd e (\<lambda>_ _. True)"
  using assms(4) by unfold_locales (auto simp: assms(1,2,3) hold_back_def)

interpretation windows_1252_stream: streamable sd Windows1252 "\<lambda>_ _. True" for sd
  by (rule plain_streamable [of _ _ windows_1252_to_string]) (auto simp: windows_1252_to_string_def)

lemma hex_streamable: "simd_ok sd \<Longrightarrow> streamable sd Hex (\<lambda>_ _. True)"
  by (rule plain_streamable [of _ _ rfc_hex]) (auto simp: simd_ok_def rfc_hex_append)

subsection \<open>UTF-16\<close>

definition high_surrogate :: "nat \<Rightarrow> bool" where
  "high_surrogate u = (0xD800 \<le> u \<and> u \<le> 0xDBFF)"

definition low_surrogate :: "nat \<Rightarrow> bool" where
  "low_surrogate u = (0xDC00 \<le> u \<and> u \<le> 0xDFFF)"

lemma decode_utf16_join:
  "us = [] \<or> \<not> high_surrogate (last us) \<or> vs = [] \<or> \<not> low_surrogate (hd vs) \<Longrightarrow>
     decode_utf16 (us @ vs) = decode_utf16 us @ decode_utf16 vs"
proof (induction us rule: decode_utf16.induct)
  case (2 u us)
  then show ?case
    by (cases us; cases vs)
      (auto simp: high_surrogate_def low_surrogate_def last_ConsL last_ConsR split: if_splits)
qed simp

definition units_join :: "nat list \<Rightarrow> nat list \<Rightarrow> bool" where
  "units_join us vs \<longleftrightarrow> us = [] \<or> \<not> high_surrogate (last us) \<or> (vs \<noteq> [] \<and> \<not> low_surrogate (hd vs)) \<or> vs = []"

definition utf16_joins :: "endian \<Rightarrow> string \<Rightarrow> string \<Rightarrow> bool" where
  "utf16_joins e a b \<longleftrightarrow> even (length a) \<and> units_join (units e a) (units e b)"

lemma collect_results_append:
  "collect_results (rs @ qs) =
     (case collect_results rs of Inl e \<Rightarrow> Inl e
      | Inr xs \<Rightarrow> (case collect_results qs of Inl e \<Rightarrow> Inl e | Inr ys \<Rightarrow> Inr (xs @ ys)))"
  by (induction rs) (auto split: sum.splits)

lemma utf16_joined:
  assumes "utf16_joins e a b"
  shows "ok_of (bytes_to_utf16_string (a @ b) e lossy)
    = opt_append (ok_of (bytes_to_utf16_string a e lossy)) (ok_of (bytes_to_utf16_string b e lossy))"
proof -
  have a: "even (length a)" and us: "units e (a @ b) = units e a @ units e b"
    using assms units_append by (auto simp: utf16_joins_def)
  have dec: "decode_utf16 (units e a @ units e b) = decode_utf16 (units e a) @ decode_utf16 (units e b)"
    using assms by (intro decode_utf16_join) (auto simp: utf16_joins_def units_join_def)
  show ?thesis using a
    by (auto simp: bytes_to_utf16_string_def us dec from_utf16_lossy_def from_utf16_def Let_def
        collect_results_append split: sum.splits)
qed

lemma units_length: "length (units e bs) = length bs div 2"
  by (induction bs rule: induct_list2) auto

lemma units_last:
  "2 \<le> length bs \<Longrightarrow> even (length bs) \<Longrightarrow>
     last (units e bs) = unit_of e (bs ! (length bs - 2)) (bs ! (length bs - 1))"
proof (induction bs rule: induct_list2)
  case (3 a b rest)
  show ?case
  proof (cases "rest = []")
    case False
    then have "2 \<le> length rest" using 3 by (cases rest; cases "tl rest") auto
    moreover from this have "units e rest \<noteq> []" using units_length [of e rest] by (metis div_eq_0_iff length_0_conv not_le zero_neq_numeral)
    moreover obtain m where "length rest = Suc (Suc m)"
      using calculation(1) by (metis add_2_eq_Suc le_Suc_ex)
    ultimately show ?thesis using 3 by simp
  qed simp
qed simp_all

lemma units_hd: "2 \<le> length bs \<Longrightarrow> units e bs \<noteq> [] \<and> hd (units e bs) = unit_of e (bs ! 0) (bs ! 1)"
  by (cases bs; cases "tl bs") auto

lemma units_prefix_hd: "units e a \<noteq> [] \<Longrightarrow> hd (units e (a @ b)) = hd (units e a) \<and> units e (a @ b) \<noteq> []"
  by (cases a; cases "tl a") auto

lemma hold_utf16_cases:
  fixes data e
  defines "n \<equiv> length data - length data mod 2"
  shows "hold_utf16 e data \<le> length data" "even (length data - hold_utf16 e data)"
    "hold_utf16 e data \<ge> 2 \<Longrightarrow> 2 \<le> n \<and> length data - hold_utf16 e data = n - 2
       \<and> high_surrogate (unit_of e (data ! (n - 2)) (data ! (n - 1)))"
    "hold_utf16 e data < 2 \<Longrightarrow> length data - hold_utf16 e data = n
       \<and> (2 \<le> n \<longrightarrow> \<not> high_surrogate (unit_of e (data ! (n - 2)) (data ! (n - 1))))"
proof -
  have "n \<le> length data" "even n" "length data = n + length data mod 2"
    by (auto simp: n_def minus_mod_eq_mult_div)
  then show "hold_utf16 e data \<le> length data" "even (length data - hold_utf16 e data)"
    "hold_utf16 e data \<ge> 2 \<Longrightarrow> 2 \<le> n \<and> length data - hold_utf16 e data = n - 2
       \<and> high_surrogate (unit_of e (data ! (n - 2)) (data ! (n - 1)))"
    "hold_utf16 e data < 2 \<Longrightarrow> length data - hold_utf16 e data = n
       \<and> (2 \<le> n \<longrightarrow> \<not> high_surrogate (unit_of e (data ! (n - 2)) (data ! (n - 1))))"
    by (auto simp: hold_utf16_def n_def [symmetric] high_surrogate_def Let_def split: if_splits)
qed

lemma utf16_joins_take:
  assumes "utf16_joins e past data"
  shows "utf16_joins e past (take k data)"
proof -
  have "units e (take k data) = [] \<or> hd (units e (take k data)) = hd (units e data) \<and> units e data \<noteq> []"
    using units_prefix_hd [of e "take k data" "drop k data"] by auto
  then show ?thesis using assms by (auto simp: utf16_joins_def units_join_def)
qed

lemma utf16_joins_hold:
  assumes all: "\<And>rest. utf16_joins e past (data @ rest)"
  shows "utf16_joins e (past @ take (length data - hold_utf16 e data) data)
    (drop (length data - hold_utf16 e data) data @ rest)"
proof -
  let ?k = "length data - hold_utf16 e data" and ?n = "length data - length data mod 2"
  let ?pre = "take ?k data" and ?post = "drop ?k data @ rest"
  note hold = hold_utf16_cases [where e = e and data = data]
  have len: "length ?pre = ?k" "even (length past)" using all [of rest] by (auto simp: utf16_joins_def)
  then have us: "units e (past @ ?pre) = units e past @ units e ?pre" by (intro units_append) 
  show ?thesis
  proof (cases "?k = 0")
    case True
    then show ?thesis using all [of rest] by simp
  next
    case False
    then have k: "2 \<le> ?k" using hold(2) by (metis One_nat_def dvd_imp_le gr0I)
    have pre: "units e ?pre \<noteq> []" "last (units e ?pre) = unit_of e (data ! (?k - 2)) (data ! (?k - 1))"
      using units_hd [of ?pre e] units_last [of ?pre e] k hold(2) by (auto simp: len(1) simp del: length_take)
    have "units_join (units e past @ units e ?pre) (units e ?post)"
    proof (cases "hold_utf16 e data < 2")
      case True
      then show ?thesis using hold(4) k pre by (auto simp: units_join_def)
    next
      case late: False
      then have n: "2 \<le> ?n" "?k = ?n - 2" "high_surrogate (unit_of e (data ! (?n - 2)) (data ! (?n - 1)))"
        using hold(3) by auto
      have "?post ! 0 = data ! (?n - 2)" "?post ! 1 = data ! (?n - 1)" "2 \<le> length ?post"
        using n(1,2) by (auto simp: nth_append Suc_diff_Suc numeral_2_eq_2)
      then have "units e ?post \<noteq> []" "high_surrogate (hd (units e ?post))"
        using units_hd [of ?post e] n(3) by auto
      then show ?thesis by (auto simp: units_join_def high_surrogate_def low_surrogate_def)
    qed
    then show ?thesis using len hold(2) us by (simp add: utf16_joins_def)
  qed
qed

lemma utf16_hold_no_bom:
  assumes "e = Utf16le \<and> en = Little \<or> e = Utf16be \<and> en = Big"
  shows "bom_skip e (drop (length data - hold_utf16 en data) data) = 0"
proof (rule ccontr)
  let ?k = "length data - hold_utf16 en data" and ?n = "length data - length data mod 2"
  assume "bom_skip e (drop ?k data) \<noteq> 0"
  then have p: "prefix (bom_of e) (drop ?k data)" "length (bom_of e) = 2" using assms
    by (auto simp: bom_skip_def bom_of_def split: if_splits)
  then have "2 \<le> length (drop ?k data)" using prefix_length_le by fastforce
  then have "2 \<le> hold_utf16 en data" by simp
  then have n: "2 \<le> ?n" "?k = ?n - 2" "high_surrogate (unit_of en (data ! (?n - 2)) (data ! (?n - 1)))"
    using hold_utf16_cases(3) [where e = en and data = data] by auto
  have "drop ?k data ! 0 = data ! (?n - 2)" "drop ?k data ! 1 = data ! (?n - 1)"
    using n(1,2) by (auto simp: Suc_diff_Suc numeral_2_eq_2)
  moreover obtain zs where zs: "drop ?k data = bom_of e @ zs" using p(1) by (auto simp: prefix_def)
  have "drop ?k data ! 0 = bom_of e ! 0" "drop ?k data ! 1 = bom_of e ! 1"
    unfolding zs using p(2) by (simp_all add: nth_append)
  ultimately have "data ! (?n - 2) = bom_of e ! 0" "data ! (?n - 1) = bom_of e ! 1" by simp_all
  with n(3) have "high_surrogate (unit_of en (bom_of e ! 0) (bom_of e ! 1))" by simp
  then show False using assms
    by (auto simp: bom_of_def unit_of_def high_surrogate_def)
qed

lemma utf16_streamable:
  assumes "e = Utf16le \<and> en = Little \<or> e = Utf16be \<and> en = Big"
  shows "streamable sd e (utf16_joins en)"
proof -
  have enc: "encode_to_string sd e bs lossy = bytes_to_utf16_string bs en lossy" for bs lossy
    using assms by auto
  have hold: "hold_back e data = hold_utf16 en data" for data using assms by (auto simp: hold_back_def)
  show ?thesis
  proof (unfold_locales, unfold enc hold)
    show "bytes_to_utf16_string [] en lossy = Inr []" for lossy
      by (simp add: bytes_to_utf16_string_def from_utf16_lossy_def from_utf16_def)
    show "utf16_joins en [] data" for data by (simp add: utf16_joins_def units_join_def)
  qed (simp_all add: utf16_joined hold_utf16_cases(1) utf16_joins_take utf16_joins_hold utf16_hold_no_bom [OF assms])
qed

interpretation utf16le_stream: streamable sd Utf16le "utf16_joins Little" for sd
  by (rule utf16_streamable) simp

interpretation utf16be_stream: streamable sd Utf16be "utf16_joins Big" for sd
  by (rule utf16_streamable) simp

subsection \<open>Streams\<close>

lemma web_encoders:
  "from_web_label s = Inr e \<Longrightarrow> e \<in> {Windows1252, Utf8, Hex, Base64, Utf16le, Utf16be}"
proof -
  assume "from_web_label s = Inr e"
  then have "e \<in> snd ` set ENCODING_MAP"
    by (auto simp: from_web_label_def dest!: map_of_SomeD split: option.splits) force
  then show ?thesis by (auto simp: ENCODING_MAP_def)
qed

lemma new_text_decoder_Inr:
  "new_text_decoder label fatal ign = Inr td \<Longrightarrow> pending td = [] \<and> \<not> bom_seen td
     \<and> td_encoder td \<in> {Windows1252, Utf8, Hex, Base64, Utf16le, Utf16be}"
  by (auto simp: new_text_decoder_def from_optional_web_label_def split: sum.splits option.splits if_splits
      dest!: web_encoders)

lemma text_decode_once:
  assumes "pending td = []"
  shows "fst (text_decode sd td (Some bytes) False)
    = encode_to_string sd (td_encoder td) (body_of (td_encoder td) (td_ignore_bom td) bytes) (\<not> td_fatal td)"
  using assms by (auto simp: text_decode_def decode_body_def body_of_def Let_def)

text \<open>C31 (equivalence): a decoder as its constructor makes it, for any label but those of base64, lossy or
  fatal, keeping the byte order mark or not. Giving it an input in any pieces, each with \<open>stream\<close> set, and
  then ending the stream with a call without input gives what one call with the whole input gives: the
  same text, or an error where it is one; a mark and a character may be cut between pieces. A stream that
  ends with its last piece, or that a decoder begins after a call without \<open>stream\<close>, is not meant: there
  marks go wrong (\<open>last_chunk_loses_mark\<close>, \<open>next_stream_keeps_mark\<close>).\<close>

theorem text_stream_is_one_shot:
  assumes "simd_ok sd" "new_text_decoder label fatal ign = Inr td" "td_encoder td \<noteq> Base64"
  shows "ok_of (fst (text_stream sd td chunks)) = ok_of (fst (text_decode sd td (Some (concat chunks)) False))"
proof -
  note td = new_text_decoder_Inr [OF assms(2)]
  have "\<exists>joins. streamable sd (td_encoder td) joins"
    using td assms(3) windows_1252_stream.streamable_axioms [of sd] utf8_stream.streamable_axioms [of sd]
      hex_streamable [OF assms(1)] utf16le_stream.streamable_axioms [of sd] utf16be_stream.streamable_axioms [of sd] by auto
  then obtain joins where "streamable sd (td_encoder td) joins" ..
  from streamable.stream_whole [OF this refl] td show ?thesis by (simp add: text_decode_once)
qed

text \<open>A decoder of UTF-8, and a euro sign after a mark, cut in both.\<close>

definition utf8_text_decoder :: text_decoder where
  "utf8_text_decoder = \<lparr>td_encoder = Utf8, td_fatal = False, td_ignore_bom = False, pending = [], bom_seen = False\<rparr>"

lemma new_utf8_text_decoder: "new_text_decoder None None None = Inr utf8_text_decoder"
  by (simp add: new_text_decoder_def from_optional_web_label_def utf8_text_decoder_def)

theorem text_stream_is_one_shot_witness:
  "ok_of (fst (text_stream reference_simd utf8_text_decoder [[CHR 0xEF], [CHR 0xBB, CHR 0xBF, CHR 0xE2], [CHR 0x82, CHR 0xAC]]))
   = ok_of (fst (text_decode reference_simd utf8_text_decoder
       (Some [CHR 0xEF, CHR 0xBB, CHR 0xBF, CHR 0xE2, CHR 0x82, CHR 0xAC]) False))"
  using text_stream_is_one_shot [OF simd_ok_reference new_utf8_text_decoder,
      of "[[CHR 0xEF], [CHR 0xBB, CHR 0xBF, CHR 0xE2], [CHR 0x82, CHR 0xAC]]"]
  by (simp add: utf8_text_decoder_def)

text \<open>
  The mark is forgotten by the call that ends a stream, before that call looks for one: bytes of a mark
  at the beginning of the last chunk are dropped, although text came before. And the flag that this
  call leaves set hides the mark of the next stream.
\<close>

lemma last_chunk_loses_mark:
  "fst (text_decode sd (snd (text_decode sd utf8_text_decoder (Some ''A'') True))
      (Some [CHR 0xEF, CHR 0xBB, CHR 0xBF, CHR 0x42]) False) = Inr ''B''"
  by (simp add: text_decode_def utf8_text_decoder_def bom_skip_def bom_of_def bom_fragment_def decode_body_def
      hold_back_def utf8_incomplete_tail_def bytes_to_utf8_string_def from_utf8_lossy.simps [of "_ # _"]
      utf8_first_def utf8_need_def Let_def)

lemma next_stream_keeps_mark:
  "fst (text_decode sd (snd (text_decode sd utf8_text_decoder (Some ''A'') False))
      (Some [CHR 0xEF, CHR 0xBB, CHR 0xBF, CHR 0x42]) True) = Inr [CHR 0xEF, CHR 0xBB, CHR 0xBF, CHR 0x42]"
  by (simp add: text_decode_def utf8_text_decoder_def bom_skip_def bom_of_def bom_fragment_def decode_body_def
      hold_back_def utf8_incomplete_tail_def bytes_to_utf8_string_def from_utf8_lossy.simps [of "_ # _"]
      utf8_first_def utf8_need_def utf8_follow_def numeral_2_eq_2 numeral_3_eq_3 Let_def)

end
