(* ===== verification/Writable.thy ===== *)
theory Writable
  imports Promises
begin

text \<open>
  Writable streams, \<open>crates/ferrijs-std/src/stream_web/writable/\<close>: the stream, its default
  controller and its default writers, as the state of one stream and the operations on it.

  A step that the sources finish returns \<open>Some\<close>, a Rust panic (\<open>expect\<close>, \<open>panic!\<close>) is
  \<open>None\<close>, a thrown JavaScript exception is \<open>Inl\<close>. User code is the parameter
  \<open>user\<close>: it is called where the sources call it, with the call and the state at that moment, and
  it answers with what it returned or threw and the state it left, since a callback may itself
  write, close, abort, release and so on. What happens when a promise settles
  (\<open>upon_promise\<close>) is recorded as a pending reaction and run later by \<open>react\<close>.

  \<open>set_is_handled\<close> calls the method \<open>catch\<close> of a writer's promise with a function that does nothing, so
  that no unhandled rejection is reported; it is left out, on the assumption that scripts leave
  \<open>Promise.prototype.catch\<close> as the engine made it, which neither throws nor runs code of the script here.
\<close>

subsection \<open>Writers\<close>

record default_writer =
  ready_promise :: promise
  closed_promise :: promise
  attached :: bool

subsection \<open>The state of a stream\<close>

datatype stream_state = Writable | Closed | Erroring js | Errored js

record pending_abort =
  abort_promise :: promise
  abort_reason :: js
  was_already_erroring :: bool

text \<open>The reactions carry the writer their closure captured.\<close>

datatype reaction =
    StartReaction answer
  | WriteReaction "nat option" answer
  | CloseReaction "nat option" answer
  | AbortReaction promise answer

record stream_world =
  promises :: "settlement option list"
  writers :: "default_writer list"
  reactions :: "reaction list"

record stream = stream_world +
  backpressure :: bool
  close_request :: "promise option"
  in_flight_write_request :: "promise option"
  in_flight_close_request :: "promise option"
  pending_abort_request :: "pending_abort option"
  state :: stream_state
  writer :: "nat option"
  write_requests :: "promise list"

record objects = stream +
  abort_algorithm :: "algorithm option"
  close_algorithm :: "algorithm option"
  container :: queue_with_sizes
  started :: bool
  strategy_hwm :: f64
  strategy_size_algorithm :: "size_algorithm option"
  signal_aborted :: bool
  write_algorithm :: "algorithm option"

datatype call =
    StartCall
  | WriteCall js
  | CloseCall
  | AbortCall js
  | SizeCall js
  | ByteLengthGet js
  | SignalCall js

type_synonym user = "call \<Rightarrow> objects \<Rightarrow> answer \<times> objects"

definition new_promise :: "objects \<Rightarrow> promise \<times> objects" where
  "new_promise s = (Deferred (length (promises s)), s\<lparr>promises := promises s @ [None]\<rparr>)"

definition settle :: "settlement \<Rightarrow> promise \<Rightarrow> objects \<Rightarrow> objects" where
  "settle r p s = s\<lparr>promises := settle_cell r p (promises s)\<rparr>"

abbreviation resolve_undefined :: "promise \<Rightarrow> objects \<Rightarrow> objects" where
  "resolve_undefined \<equiv> settle (Fulfilled JsUndefined)"

abbreviation reject :: "js \<Rightarrow> promise \<Rightarrow> objects \<Rightarrow> objects" where
  "reject e \<equiv> settle (Rejected e)"

fun settlement_of :: "objects \<Rightarrow> promise \<Rightarrow> settlement option" where
  "settlement_of s (Deferred i) = (if i < length (promises s) then promises s ! i else None)"
| "settlement_of s (Settled r) = Some r"

definition is_pending :: "objects \<Rightarrow> promise \<Rightarrow> bool" where
  "is_pending s p \<longleftrightarrow> settlement_of s p = None"

definition upon_promise :: "reaction \<Rightarrow> objects \<Rightarrow> objects" where
  "upon_promise r s = s\<lparr>reactions := reactions s @ [r]\<rparr>"

text \<open>\<open>with_writer\<close> and the two ways the sources pick a writer.\<close>

definition with_writer :: "nat option \<Rightarrow> (nat \<Rightarrow> objects \<Rightarrow> objects) \<Rightarrow> objects \<Rightarrow> objects" where
  "with_writer w f s = (case w of None \<Rightarrow> s | Some i \<Rightarrow> f i s)"

definition update_writer :: "nat \<Rightarrow> (default_writer \<Rightarrow> default_writer) \<Rightarrow> objects \<Rightarrow> objects" where
  "update_writer i f s = s\<lparr>writers := (writers s)[i := f (writers s ! i)]\<rparr>"

abbreviation refresh_writer :: "objects \<Rightarrow> nat option" where
  "refresh_writer \<equiv> writer"

subsection \<open>Queries\<close>

definition is_writable_stream_locked :: "objects \<Rightarrow> bool" where
  "is_writable_stream_locked s \<longleftrightarrow> writer s \<noteq> None"

definition has_operation_marked_in_flight :: "objects \<Rightarrow> bool" where
  "has_operation_marked_in_flight s \<longleftrightarrow>
     \<not> (in_flight_write_request s = None \<and> in_flight_close_request s = None)"

definition close_queued_or_in_flight :: "objects \<Rightarrow> bool" where
  "close_queued_or_in_flight s \<longleftrightarrow>
     \<not> (close_request s = None \<and> in_flight_close_request s = None)"

fun stored_error :: "stream_state \<Rightarrow> js option" where
  "stored_error (Erroring e) = Some e"
| "stored_error (Errored e) = Some e"
| "stored_error _ = None"

fun finished :: "stream_state \<Rightarrow> bool" where
  "finished Closed = True"
| "finished (Errored _) = True"
| "finished _ = False"

definition get_desired_size :: "objects \<Rightarrow> f64" where
  "get_desired_size s = fsub (strategy_hwm s) (queue_total_size (container s))"

definition get_backpressure :: "objects \<Rightarrow> bool" where
  "get_backpressure s \<longleftrightarrow> fle (get_desired_size s) (Fin 0)"

subsection \<open>Writers: settled promises\<close>

definition ensure_ready_promise_rejected :: "js \<Rightarrow> nat \<Rightarrow> objects \<Rightarrow> objects" where
  "ensure_ready_promise_rejected e i s =
     (let p = ready_promise (writers s ! i)
      in if is_pending s p then reject e p s
         else update_writer i (ready_promise_update (\<lambda>_. rejected_with e)) s)"

definition ensure_closed_promise_rejected :: "js \<Rightarrow> nat \<Rightarrow> objects \<Rightarrow> objects" where
  "ensure_closed_promise_rejected e i s =
     (let p = closed_promise (writers s ! i)
      in if is_pending s p then reject e p s
         else update_writer i (closed_promise_update (\<lambda>_. rejected_with e)) s)"

definition reject_close_and_closed_promise_if_needed :: "nat option \<Rightarrow> objects \<Rightarrow> objects" where
  "reject_close_and_closed_promise_if_needed w s =
     (let e = unwrap_or_undefined (stored_error (state s));
          s = (case close_request s of
                 None \<Rightarrow> s
               | Some p \<Rightarrow> (reject e p s)\<lparr>close_request := None\<rparr>)
      in with_writer w (\<lambda>i s. reject e (closed_promise (writers s ! i)) s) s)"

subsection \<open>Calling the algorithms\<close>

text \<open>
  The algorithm of a transform stream is a callback too: what it does is the other stream's code.
\<close>

definition algorithm_call :: "user \<Rightarrow> call \<Rightarrow> algorithm \<Rightarrow> objects \<Rightarrow> answer \<times> objects" where
  "algorithm_call user c a s =
     (case a of ReturnPromiseUndefined \<Rightarrow> (Inr JsUndefined, s) | Callback \<Rightarrow> user c s)"

definition call_algorithm :: "user \<Rightarrow> call \<Rightarrow> algorithm option \<Rightarrow> objects \<Rightarrow> (answer \<times> objects) option" where
  "call_algorithm user c a s =
     (case a of None \<Rightarrow> None | Some a \<Rightarrow> Some (algorithm_call user c a s))"

definition call_size_algorithm :: "user \<Rightarrow> js \<Rightarrow> objects \<Rightarrow> (js + size_value) \<times> objects" where
  "call_size_algorithm user chunk s =
     (let a = (case strategy_size_algorithm s of None \<Rightarrow> AlwaysOne | Some a \<Rightarrow> a)
      in case a of
           AlwaysOne \<Rightarrow> (Inr (SizeNative (Fin 1)), s)
         | SizeFunction (NativeFunction Count) \<Rightarrow> (Inr (SizeNative (Fin 1)), s)
         | SizeFunction JsFunction \<Rightarrow>
             (let (r, s) = user (SizeCall chunk) s in (map_sum id size_value_from_js r, s))
         | SizeFunction (NativeFunction ByteLength) \<Rightarrow>
             if is_js_object chunk
             then (let (r, s) = user (ByteLengthGet chunk) s in (map_sum id size_value_from_js r, s))
             else (Inl (JsError TypeError
                    ''ByteLengthQueuingStrategy argument 'chunk' must be an object''), s))"

definition clear_algorithms :: "objects \<Rightarrow> objects" where
  "clear_algorithms s =
     s\<lparr>write_algorithm := None, close_algorithm := None, abort_algorithm := None,
       strategy_size_algorithm := None\<rparr>"

definition error_steps :: "objects \<Rightarrow> objects" where
  "error_steps s = s\<lparr>container := reset_queue (container s)\<rparr>"

definition abort_steps :: "user \<Rightarrow> js \<Rightarrow> objects \<Rightarrow> (answer \<times> objects) option" where
  "abort_steps user reason s =
     do {
       (result, s) \<leftarrow> call_algorithm user (AbortCall reason) (abort_algorithm s) s;
       Some (result, clear_algorithms s)
     }"

subsection \<open>Erroring\<close>

definition finish_erroring :: "user \<Rightarrow> nat option \<Rightarrow> js \<Rightarrow> objects \<Rightarrow> objects option" where
  "finish_erroring user w e s =
     (let s = s\<lparr>state := Errored e\<rparr>;
          s = error_steps s;
          s = fold (reject e) (write_requests s) s;
          s = s\<lparr>write_requests := []\<rparr>
      in case pending_abort_request s of
           None \<Rightarrow> Some (reject_close_and_closed_promise_if_needed w s)
         | Some r \<Rightarrow>
             (let s = s\<lparr>pending_abort_request := None\<rparr>
              in if was_already_erroring r
                 then Some (reject_close_and_closed_promise_if_needed w
                              (reject e (abort_promise r) s))
                 else do {
                   (result, s) \<leftarrow> abort_steps user (abort_reason r) s;
                   Some (upon_promise (AbortReaction (abort_promise r) result) s)
                 }))"

definition start_erroring :: "user \<Rightarrow> nat option \<Rightarrow> js \<Rightarrow> objects \<Rightarrow> objects option" where
  "start_erroring user w e s =
     (let s = s\<lparr>state := Erroring e\<rparr>;
          s = with_writer w (ensure_ready_promise_rejected e) s
      in if \<not> has_operation_marked_in_flight s \<and> started s
         then finish_erroring user w e s
         else Some s)"

definition deal_with_rejection :: "user \<Rightarrow> nat option \<Rightarrow> js \<Rightarrow> objects \<Rightarrow> objects option" where
  "deal_with_rejection user w e s =
     (case state s of
        Writable \<Rightarrow> start_erroring user w e s
      | Erroring stored \<Rightarrow> finish_erroring user w stored s
      | _ \<Rightarrow> None)"

definition controller_error :: "user \<Rightarrow> nat option \<Rightarrow> js \<Rightarrow> objects \<Rightarrow> objects option" where
  "controller_error user w e s = start_erroring user w e (clear_algorithms s)"

definition controller_error_if_needed :: "user \<Rightarrow> nat option \<Rightarrow> js \<Rightarrow> objects \<Rightarrow> objects option" where
  "controller_error_if_needed user w e s =
     (case state s of Writable \<Rightarrow> controller_error user w e s | _ \<Rightarrow> Some s)"

subsection \<open>Operations in flight\<close>

definition mark_first_write_request_in_flight :: "objects \<Rightarrow> objects option" where
  "mark_first_write_request_in_flight s =
     (case write_requests s of
        [] \<Rightarrow> None
      | p # ps \<Rightarrow> Some (s\<lparr>write_requests := ps, in_flight_write_request := Some p\<rparr>))"

definition mark_close_request_in_flight :: "objects \<Rightarrow> objects option" where
  "mark_close_request_in_flight s =
     do {
       p \<leftarrow> close_request s;
       Some (s\<lparr>close_request := None, in_flight_close_request := Some p\<rparr>)
     }"

definition finish_in_flight_write :: "objects \<Rightarrow> objects option" where
  "finish_in_flight_write s =
     do {
       p \<leftarrow> in_flight_write_request s;
       Some (resolve_undefined p (s\<lparr>in_flight_write_request := None\<rparr>))
     }"

definition finish_in_flight_write_with_error ::
  "user \<Rightarrow> nat option \<Rightarrow> js \<Rightarrow> objects \<Rightarrow> objects option" where
  "finish_in_flight_write_with_error user w e s =
     do {
       p \<leftarrow> in_flight_write_request s;
       deal_with_rejection user w e (reject e p (s\<lparr>in_flight_write_request := None\<rparr>))
     }"

definition finish_in_flight_close :: "nat option \<Rightarrow> objects \<Rightarrow> objects option" where
  "finish_in_flight_close w s =
     do {
       p \<leftarrow> in_flight_close_request s;
       let s = resolve_undefined p (s\<lparr>in_flight_close_request := None\<rparr>);
       let s = (case (state s, pending_abort_request s) of
                  (Erroring _, Some r) \<Rightarrow>
                    resolve_undefined (abort_promise r) (s\<lparr>pending_abort_request := None\<rparr>)
                | _ \<Rightarrow> s);
       let s = s\<lparr>state := Closed\<rparr>;
       Some (with_writer w (\<lambda>i s. resolve_undefined (closed_promise (writers s ! i)) s) s)
     }"

definition finish_in_flight_close_with_error ::
  "user \<Rightarrow> nat option \<Rightarrow> js \<Rightarrow> objects \<Rightarrow> objects option" where
  "finish_in_flight_close_with_error user w e s =
     do {
       p \<leftarrow> in_flight_close_request s;
       let s = reject e p (s\<lparr>in_flight_close_request := None\<rparr>);
       let s = (case pending_abort_request s of
                  None \<Rightarrow> s
                | Some r \<Rightarrow> reject e (abort_promise r) (s\<lparr>pending_abort_request := None\<rparr>));
       deal_with_rejection user w e s
     }"

definition update_backpressure :: "nat option \<Rightarrow> bool \<Rightarrow> objects \<Rightarrow> objects" where
  "update_backpressure w b s =
     (with_writer w
        (\<lambda>i s. if b \<noteq> backpressure s
               then if b then (let (p, s) = new_promise s
                               in update_writer i (ready_promise_update (\<lambda>_. p)) s)
                    else resolve_undefined (ready_promise (writers s ! i)) s
               else s) s)\<lparr>backpressure := b\<rparr>"

subsection \<open>The controller's queue\<close>

text \<open>The sentinel is \<open>Symbol::new_global\<close>: the symbol of the global registry with this key.\<close>

definition close_sentinel :: js where
  "close_sentinel = JsSymbol ''close sentinel''"

definition process_close :: "user \<Rightarrow> nat option \<Rightarrow> objects \<Rightarrow> objects option" where
  "process_close user w s =
     do {
       s \<leftarrow> mark_close_request_in_flight s;
       (_, q) \<leftarrow> dequeue_value (container s);
       let s = s\<lparr>container := q\<rparr>;
       (result, s) \<leftarrow> call_algorithm user CloseCall (close_algorithm s) s;
       Some (upon_promise (CloseReaction w result) (clear_algorithms s))
     }"

definition process_write :: "user \<Rightarrow> nat option \<Rightarrow> js \<Rightarrow> objects \<Rightarrow> objects option" where
  "process_write user w chunk s =
     do {
       s \<leftarrow> mark_first_write_request_in_flight s;
       (result, s) \<leftarrow> call_algorithm user (WriteCall chunk) (write_algorithm s) s;
       Some (upon_promise (WriteReaction w result) s)
     }"

definition advance_queue_if_needed :: "user \<Rightarrow> nat option \<Rightarrow> objects \<Rightarrow> objects option" where
  "advance_queue_if_needed user w s =
     (if \<not> started s \<or> in_flight_write_request s \<noteq> None then Some s
      else case state s of
        Erroring e \<Rightarrow> finish_erroring user w e s
      | _ \<Rightarrow>
          (case queue (container s) of
             [] \<Rightarrow> Some s
           | front # _ \<Rightarrow>
               if chunk_value front = close_sentinel then process_close user w s
               else process_write user w (chunk_value front) s))"

definition controller_close :: "user \<Rightarrow> nat option \<Rightarrow> objects \<Rightarrow> ((js + unit) \<times> objects) option" where
  "controller_close user w s =
     (case enqueue_value_with_size close_sentinel (SizeNative (Fin 0)) (container s) of
        Inl e \<Rightarrow> Some (Inl e, s)
      | Inr q \<Rightarrow>
          do { s \<leftarrow> advance_queue_if_needed user w (s\<lparr>container := q\<rparr>); Some (Inr (), s) })"

definition controller_write ::
  "user \<Rightarrow> nat \<Rightarrow> js \<Rightarrow> size_value \<Rightarrow> objects \<Rightarrow> objects option" where
  "controller_write user i chunk sz s =
     (case enqueue_value_with_size chunk sz (container s) of
        Inl e \<Rightarrow> controller_error_if_needed user (Some i) e s
      | Inr q \<Rightarrow>
          (let s = s\<lparr>container := q\<rparr>;
               s = (if \<not> close_queued_or_in_flight s \<and> state s = Writable
                    then update_backpressure (Some i) (get_backpressure s) s else s)
           in advance_queue_if_needed user (Some i) s))"

definition get_chunk_size :: "user \<Rightarrow> nat \<Rightarrow> js \<Rightarrow> objects \<Rightarrow> (size_value \<times> objects) option" where
  "get_chunk_size user i chunk s =
     (case call_size_algorithm user chunk s of
        (Inr sz, s) \<Rightarrow> Some (sz, s)
      | (Inl e, s) \<Rightarrow>
          do { s \<leftarrow> controller_error_if_needed user (Some i) e s; Some (SizeNative (Fin 1), s) })"

subsection \<open>Aborting and closing the stream\<close>

text \<open>\<open>AbortController::abort\<close>: the listeners of the signal are user code, run once.\<close>

definition signal_abort :: "user \<Rightarrow> js option \<Rightarrow> objects \<Rightarrow> answer \<times> objects" where
  "signal_abort user reason s =
     (if signal_aborted s then (Inr JsUndefined, s)
      else user (SignalCall (unwrap_or_undefined reason)) (s\<lparr>signal_aborted := True\<rparr>))"

definition stream_abort ::
  "user \<Rightarrow> nat option \<Rightarrow> js option \<Rightarrow> objects \<Rightarrow> ((js + promise) \<times> objects) option" where
  "stream_abort user w reason s =
     (if finished (state s) then Some (Inr resolved_with_undefined, s)
      else case signal_abort user reason s of
        (Inl e, s) \<Rightarrow> Some (Inl e, s)
      | (Inr _, s) \<Rightarrow>
          if finished (state s) then Some (Inr resolved_with_undefined, s)
          else case pending_abort_request s of
            Some r \<Rightarrow> Some (Inr (abort_promise r), s)
          | None \<Rightarrow>
              (let (already, reason) =
                     (case state s of
                        Erroring _ \<Rightarrow> (True, JsUndefined)
                      | _ \<Rightarrow> (False, unwrap_or_undefined reason));
                   (p, s) = new_promise s;
                   s = s\<lparr>pending_abort_request :=
                         Some \<lparr>abort_promise = p, abort_reason = reason,
                               was_already_erroring = already\<rparr>\<rparr>
               in if already then Some (Inr p, s)
                  else do { s \<leftarrow> start_erroring user w reason s; Some (Inr p, s) }))"

definition stream_close :: "user \<Rightarrow> nat option \<Rightarrow> objects \<Rightarrow> ((js + promise) \<times> objects) option" where
  "stream_close user w s =
     (if finished (state s)
      then Some (Inr (rejected_with_constructor
             ''The stream is not in the writable state and cannot be closed''), s)
      else
        (let (p, s) = new_promise s;
             s = s\<lparr>close_request := Some p\<rparr>;
             s = with_writer w
                   (\<lambda>i s. if backpressure s \<and> state s = Writable
                          then resolve_undefined (ready_promise (writers s ! i)) s else s) s
         in do {
              (r, s) \<leftarrow> controller_close user w s;
              Some (map_sum id (\<lambda>_. p) r, s)
            }))"

subsection \<open>Writers\<close>

definition set_up_default_writer :: "objects \<Rightarrow> (js + nat) \<times> objects" where
  "set_up_default_writer s =
     (if is_writable_stream_locked s
      then (Inl (JsError TypeError
              ''This stream has already been locked for exclusive writing by another writer''), s)
      else
        (let (ready, closed, s) =
               (case state s of
                  Writable \<Rightarrow>
                    (let (ready, s) =
                           (if \<not> close_queued_or_in_flight s \<and> backpressure s then new_promise s
                            else (resolved_with_undefined, s));
                         (closed, s) = new_promise s
                     in (ready, closed, s))
                | Erroring e \<Rightarrow>
                    (let (closed, s) = new_promise s in (rejected_with e, closed, s))
                | Closed \<Rightarrow> (resolved_with_undefined, resolved_with_undefined, s)
                | Errored e \<Rightarrow> (rejected_with e, rejected_with e, s));
             i = length (writers s)
         in (Inr i,
             s\<lparr>writers := writers s @
                 [\<lparr>ready_promise = ready, closed_promise = closed, attached = True\<rparr>],
               writer := Some i\<rparr>)))"

definition writer_get_desired_size :: "objects \<Rightarrow> f64 option" where
  "writer_get_desired_size s =
     (case state s of
        Errored _ \<Rightarrow> None
      | Erroring _ \<Rightarrow> None
      | Closed \<Rightarrow> Some (Fin 0)
      | Writable \<Rightarrow> Some (get_desired_size s))"

definition writer_close_with_error_propagation ::
  "user \<Rightarrow> nat \<Rightarrow> objects \<Rightarrow> ((js + promise) \<times> objects) option" where
  "writer_close_with_error_propagation user i s =
     (if close_queued_or_in_flight s \<or> state s = Closed
      then Some (Inr resolved_with_undefined, s)
      else case state s of
        Errored e \<Rightarrow> Some (Inr (rejected_with e), s)
      | _ \<Rightarrow> stream_close user (Some i) s)"

definition released_error :: js where
  "released_error = JsError TypeError
     ''Writer was released and can no longer be used to monitor the stream's closedness''"

definition writer_release :: "nat \<Rightarrow> objects \<Rightarrow> objects" where
  "writer_release i s =
     (let s = ensure_ready_promise_rejected released_error i s;
          s = ensure_closed_promise_rejected released_error i s;
          s = s\<lparr>writer := None\<rparr>
      in update_writer i (attached_update (\<lambda>_. False)) s)"

definition add_write_request :: "objects \<Rightarrow> promise \<times> objects" where
  "add_write_request s =
     (let (p, s) = new_promise s in (p, s\<lparr>write_requests := write_requests s @ [p]\<rparr>))"

text \<open>The steps of a write once the size of the chunk is known, and the whole of it.\<close>

definition write_sized ::
  "user \<Rightarrow> nat \<Rightarrow> js \<Rightarrow> size_value \<Rightarrow> objects \<Rightarrow> (promise \<times> objects) option" where
  "write_sized user i chunk sz s =
     (if \<not> attached (writers s ! i)
      then Some (rejected_with_constructor ''Cannot write to a stream using a released writer'', s)
      else case state s of
        Errored e \<Rightarrow> Some (rejected_with e, s)
      | _ \<Rightarrow>
          if close_queued_or_in_flight s \<or> state s = Closed
          then Some (rejected_with_constructor
                       ''The stream is closing or closed and cannot be written to'', s)
          else case state s of
            Erroring e \<Rightarrow> Some (rejected_with e, s)
          | _ \<Rightarrow>
              (let (p, s) = add_write_request s
               in do { s \<leftarrow> controller_write user i chunk sz s; Some (p, s) }))"

definition writer_write :: "user \<Rightarrow> nat \<Rightarrow> js \<Rightarrow> objects \<Rightarrow> (promise \<times> objects) option" where
  "writer_write user i chunk s =
     do { (sz, s) \<leftarrow> get_chunk_size user i chunk s; write_sized user i chunk sz s }"

subsection \<open>Setting a stream up\<close>

datatype start_algorithm = ReturnUndefined | StartCallback | StartPromise js

definition call_start_algorithm :: "user \<Rightarrow> start_algorithm \<Rightarrow> objects \<Rightarrow> answer \<times> objects" where
  "call_start_algorithm user a s =
     (case a of
        ReturnUndefined \<Rightarrow> (Inr JsUndefined, s)
      | StartCallback \<Rightarrow> user StartCall s
      | StartPromise p \<Rightarrow> (Inr p, s))"

definition initial_objects ::
  "algorithm \<Rightarrow> algorithm \<Rightarrow> algorithm \<Rightarrow> f64 \<Rightarrow> size_algorithm \<Rightarrow> objects" where
  "initial_objects write_alg close_alg abort_alg hwm size_alg =
     \<lparr>promises = [], writers = [], reactions = [],
      backpressure = False, close_request = None, in_flight_write_request = None,
      in_flight_close_request = None, pending_abort_request = None, state = Writable,
      writer = None, write_requests = [],
      abort_algorithm = Some abort_alg, close_algorithm = Some close_alg,
      container = new_queue, started = False, strategy_hwm = hwm,
      strategy_size_algorithm = Some size_alg, signal_aborted = False,
      write_algorithm = Some write_alg\<rparr>"

definition set_up_default_controller ::
  "user \<Rightarrow> start_algorithm \<Rightarrow> algorithm \<Rightarrow> algorithm \<Rightarrow> algorithm \<Rightarrow> f64 \<Rightarrow> size_algorithm \<Rightarrow>
     (js + unit) \<times> objects" where
  "set_up_default_controller user start_alg write_alg close_alg abort_alg hwm size_alg =
     (let s = initial_objects write_alg close_alg abort_alg hwm size_alg;
          s = update_backpressure None (get_backpressure s) s
      in case call_start_algorithm user start_alg s of
           (Inl e, s) \<Rightarrow> (Inl e, s)
         | (Inr v, s) \<Rightarrow> (Inr (), upon_promise (StartReaction (Inr v)) s))"

record underlying_sink =
  sink_start :: bool
  sink_write :: bool
  sink_close :: bool
  sink_abort :: bool
  sink_type :: "js option"

definition sink_algorithm :: "bool \<Rightarrow> algorithm" where
  "sink_algorithm present = (if present then Callback else ReturnPromiseUndefined)"

definition set_up_controller_from_underlying_sink ::
  "user \<Rightarrow> underlying_sink \<Rightarrow> f64 \<Rightarrow> size_algorithm \<Rightarrow> (js + unit) \<times> objects" where
  "set_up_controller_from_underlying_sink user sink hwm size_alg =
     set_up_default_controller user (if sink_start sink then StartCallback else ReturnUndefined)
       (sink_algorithm (sink_write sink)) (sink_algorithm (sink_close sink))
       (sink_algorithm (sink_abort sink)) hwm size_alg"

definition new_writable_stream ::
  "user \<Rightarrow> underlying_sink \<Rightarrow> queuing_strategy option \<Rightarrow> js + objects" where
  "new_writable_stream user sink strategy =
     (if sink_type sink \<noteq> None then Inl (JsError RangeError ''Invalid type is specified'')
      else case extract_high_water_mark strategy (Fin 1) of
        Inl e \<Rightarrow> Inl e
      | Inr hwm \<Rightarrow>
          (case set_up_controller_from_underlying_sink user sink hwm
                  (extract_size_algorithm strategy) of
             (Inl e, _) \<Rightarrow> Inl e
           | (Inr _, s) \<Rightarrow> Inr s))"

subsection \<open>The methods scripts call\<close>

datatype api =
    GetWriter
  | StreamAbort "js option"
  | StreamClose
  | WriterAbort nat "js option"
  | WriterClose nat
  | WriterCloseWithErrorPropagation nat
  | WriterReleaseLock nat
  | WriterWrite nat js
  | ControllerError js

datatype returned = ReturnedUnit | ReturnedPromise promise | ReturnedWriter nat

definition returns_promise ::
  "(js + promise) \<times> objects \<Rightarrow> (js + returned) \<times> objects" where
  "returns_promise r = (map_sum id ReturnedPromise (fst r), snd r)"

abbreviation type_error_promise :: "string \<Rightarrow> objects \<Rightarrow> ((js + returned) \<times> objects) option" where
  "type_error_promise msg s \<equiv> Some (Inr (ReturnedPromise (rejected_with_constructor msg)), s)"

subsubsection \<open>Of the stream\<close>

definition method_stream_abort :: "user \<Rightarrow> js option \<Rightarrow> objects \<Rightarrow> ((js + returned) \<times> objects) option" where
  "method_stream_abort user reason s =
     (if is_writable_stream_locked s
      then type_error_promise ''Cannot abort a stream that already has a writer'' s
      else map_option returns_promise (stream_abort user None reason s))"

definition method_stream_close :: "user \<Rightarrow> objects \<Rightarrow> ((js + returned) \<times> objects) option" where
  "method_stream_close user s =
     (if is_writable_stream_locked s
      then type_error_promise ''Cannot close a stream that already has a writer'' s
      else if close_queued_or_in_flight s
      then type_error_promise ''Cannot close an already-closing stream'' s
      else map_option returns_promise (stream_close user None s))"

definition method_get_writer :: "objects \<Rightarrow> (js + returned) \<times> objects" where
  "method_get_writer s =
     (let (r, s) = set_up_default_writer s in (map_sum id ReturnedWriter r, s))"

subsubsection \<open>Of a writer\<close>

definition writer_closed :: "nat \<Rightarrow> objects \<Rightarrow> promise" where
  "writer_closed i s = closed_promise (writers s ! i)"

definition writer_ready :: "nat \<Rightarrow> objects \<Rightarrow> promise" where
  "writer_ready i s = ready_promise (writers s ! i)"

definition writer_desired_size :: "nat \<Rightarrow> objects \<Rightarrow> js + f64 option" where
  "writer_desired_size i s =
     (if \<not> attached (writers s ! i)
      then Inl (JsError TypeError ''Cannot desiredSize a stream using a released writer'')
      else Inr (writer_get_desired_size s))"

definition method_writer_abort ::
  "user \<Rightarrow> nat \<Rightarrow> js option \<Rightarrow> objects \<Rightarrow> ((js + returned) \<times> objects) option" where
  "method_writer_abort user i reason s =
     (if \<not> attached (writers s ! i)
      then type_error_promise ''Cannot abort a stream using a released writer'' s
      else map_option returns_promise (stream_abort user (Some i) reason s))"

definition method_writer_close :: "user \<Rightarrow> nat \<Rightarrow> objects \<Rightarrow> ((js + returned) \<times> objects) option" where
  "method_writer_close user i s =
     (if \<not> attached (writers s ! i)
      then type_error_promise ''Cannot close a stream using a released writer'' s
      else if close_queued_or_in_flight s
      then type_error_promise ''Cannot close an already-closing'' s
      else map_option returns_promise (stream_close user (Some i) s))"

definition method_release_lock :: "nat \<Rightarrow> objects \<Rightarrow> objects" where
  "method_release_lock i s = (if \<not> attached (writers s ! i) then s else writer_release i s)"

definition method_writer_write ::
  "user \<Rightarrow> nat \<Rightarrow> js \<Rightarrow> objects \<Rightarrow> ((js + returned) \<times> objects) option" where
  "method_writer_write user i chunk s =
     (if \<not> attached (writers s ! i)
      then type_error_promise ''Cannot write a stream using a released writer'' s
      else map_option (\<lambda>(p, s). (Inr (ReturnedPromise p), s)) (writer_write user i chunk s))"

subsubsection \<open>Of the controller\<close>

definition method_controller_error :: "user \<Rightarrow> js \<Rightarrow> objects \<Rightarrow> objects option" where
  "method_controller_error user e s =
     (if state s \<noteq> Writable then Some s else controller_error user (refresh_writer s) e s)"

fun invoke :: "user \<Rightarrow> api \<Rightarrow> objects \<Rightarrow> ((js + returned) \<times> objects) option" where
  "invoke user GetWriter s = Some (method_get_writer s)"
| "invoke user (StreamAbort reason) s = method_stream_abort user reason s"
| "invoke user StreamClose s = method_stream_close user s"
| "invoke user (WriterAbort i reason) s = method_writer_abort user i reason s"
| "invoke user (WriterClose i) s = method_writer_close user i s"
| "invoke user (WriterCloseWithErrorPropagation i) s =
     map_option returns_promise (writer_close_with_error_propagation user i s)"
| "invoke user (WriterReleaseLock i) s = Some (Inr ReturnedUnit, method_release_lock i s)"
| "invoke user (WriterWrite i chunk) s = method_writer_write user i chunk s"
| "invoke user (ControllerError e) s =
     map_option (\<lambda>s. (Inr ReturnedUnit, s)) (method_controller_error user e s)"

subsection \<open>Reactions\<close>

text \<open>The closures passed to \<open>upon_promise\<close>, run when the promise they wait for settles.\<close>

definition start_settled :: "user \<Rightarrow> settlement \<Rightarrow> objects \<Rightarrow> objects option" where
  "start_settled user result s =
     (let w = refresh_writer s; s = s\<lparr>started := True\<rparr>
      in case result of
           Fulfilled _ \<Rightarrow> advance_queue_if_needed user w s
         | Rejected r \<Rightarrow> deal_with_rejection user w r s)"

definition write_settled :: "user \<Rightarrow> settlement \<Rightarrow> objects \<Rightarrow> objects option" where
  "write_settled user result s =
     (let w = refresh_writer s
      in case result of
           Fulfilled _ \<Rightarrow>
             do {
               s \<leftarrow> finish_in_flight_write s;
               (_, q) \<leftarrow> dequeue_value (container s);
               let s = s\<lparr>container := q\<rparr>;
               let s = (if \<not> close_queued_or_in_flight s \<and> state s = Writable
                        then update_backpressure w (get_backpressure s) s else s);
               advance_queue_if_needed user w s
             }
         | Rejected reason \<Rightarrow>
             (let s = (if state s = Writable then clear_algorithms s else s)
              in finish_in_flight_write_with_error user w reason s))"

definition close_settled :: "user \<Rightarrow> nat option \<Rightarrow> settlement \<Rightarrow> objects \<Rightarrow> objects option" where
  "close_settled user w result s =
     (case result of
        Fulfilled _ \<Rightarrow> finish_in_flight_close w s
      | Rejected reason \<Rightarrow> finish_in_flight_close_with_error user w reason s)"

definition abort_settled :: "promise \<Rightarrow> settlement \<Rightarrow> objects \<Rightarrow> objects" where
  "abort_settled p result s =
     (let w = refresh_writer s
      in case result of
           Fulfilled _ \<Rightarrow> reject_close_and_closed_promise_if_needed w (resolve_undefined p s)
         | Rejected reason \<Rightarrow> reject_close_and_closed_promise_if_needed w (reject reason p s))"

fun react :: "user \<Rightarrow> reaction \<Rightarrow> settlement \<Rightarrow> objects \<Rightarrow> objects option" where
  "react user (StartReaction _) result s = start_settled user result s"
| "react user (WriteReaction _ _) result s = write_settled user result s"
| "react user (CloseReaction w _) result s = close_settled user w result s"
| "react user (AbortReaction p _) result s = Some (abort_settled p result s)"

fun reaction_answer :: "reaction \<Rightarrow> answer" where
  "reaction_answer (StartReaction a) = a"
| "reaction_answer (WriteReaction _ a) = a"
| "reaction_answer (CloseReaction _ a) = a"
| "reaction_answer (AbortReaction _ a) = a"

subsection \<open>Runs\<close>

datatype event = Invoke api | Settle nat settlement

fun writer_named :: "api \<Rightarrow> nat option" where
  "writer_named (WriterAbort i _) = Some i"
| "writer_named (WriterClose i) = Some i"
| "writer_named (WriterCloseWithErrorPropagation i) = Some i"
| "writer_named (WriterReleaseLock i) = Some i"
| "writer_named (WriterWrite i _) = Some i"
| "writer_named _ = None"

text \<open>
  A script only holds writers it was given; \<open>closeWithErrorPropagation\<close> is internal, called by
  a pipe on a writer it still holds; a pending reaction runs with a settlement its promise can
  have.
\<close>

fun enabled :: "event \<Rightarrow> objects \<Rightarrow> bool" where
  "enabled (Invoke a) s =
     ((case writer_named a of None \<Rightarrow> True | Some i \<Rightarrow> i < length (writers s)) \<and>
      (case a of WriterCloseWithErrorPropagation i \<Rightarrow> attached (writers s ! i) | _ \<Rightarrow> True))"
| "enabled (Settle k r) s =
     (k < length (reactions s) \<and> may_settle (reaction_answer (reactions s ! k)) r)"

fun run_event :: "user \<Rightarrow> event \<Rightarrow> objects \<Rightarrow> objects option" where
  "run_event user (Invoke a) s = map_option snd (invoke user a s)"
| "run_event user (Settle k r) s =
     react user (reactions s ! k) r (s\<lparr>reactions := remove_nth k (reactions s)\<rparr>)"

fun run_events :: "user \<Rightarrow> event list \<Rightarrow> objects \<Rightarrow> objects option" where
  "run_events user [] s = Some s"
| "run_events user (e # es) s = Option.bind (run_event user e s) (run_events user es)"

text \<open>A script that writes the sentinel is considered separately.\<close>

fun plain_event :: "event \<Rightarrow> bool" where
  "plain_event (Invoke (WriterWrite _ chunk)) = (chunk \<noteq> close_sentinel)"
| "plain_event _ = True"

inductive stream_step :: "user \<Rightarrow> objects \<Rightarrow> objects \<Rightarrow> bool" for user where
  step: "enabled e s \<Longrightarrow> plain_event e \<Longrightarrow> run_event user e s = Some s' \<Longrightarrow> stream_step user s s'"

inductive reachable :: "user \<Rightarrow> objects \<Rightarrow> bool" for user where
  created: "new_writable_stream user sink strategy = Inr s \<Longrightarrow> reachable user s"
| stepped: "reachable user s \<Longrightarrow> stream_step user s s' \<Longrightarrow> reachable user s'"

inductive_cases stream_stepE: "stream_step user s s'"

end
