(* ===== verification/Writable_Safety.thy ===== *)
theory Writable_Safety
  imports Writable
begin

text \<open>
  What holds of a writable stream at every moment user code can look at it, and what follows: no
  \<open>expect\<close> fails, one sink operation runs at a time, the backpressure flag is the queue's, and
  nothing is left waiting when nothing is pending.

  The invariant \<open>wf k\<close> is indexed by the reaction the running call still owes: while a sink
  callback runs, its reaction is not registered yet.
\<close>

named_theorems frame \<open>steps that change promises and writers only, as record updates\<close>

subsection \<open>Frames\<close>

lemma settle_frame [frame]: "settle r p s = s\<lparr>promises := settle_cell r p (promises s)\<rparr>"
  by (rule settle_def)

lemma fold_reject_frame [frame]:
  "fold (reject e) ps s = s\<lparr>promises := fold (settle_cell (Rejected e)) ps (promises s)\<rparr>"
  by (induction ps arbitrary: s) (simp_all add: settle_def)

definition ready_rejected_promises :: "nat option \<Rightarrow> js \<Rightarrow> objects \<Rightarrow> settlement option list" where
  "ready_rejected_promises w e s = promises (with_writer w (ensure_ready_promise_rejected e) s)"

definition ready_rejected_writers :: "nat option \<Rightarrow> js \<Rightarrow> objects \<Rightarrow> default_writer list" where
  "ready_rejected_writers w e s = writers (with_writer w (ensure_ready_promise_rejected e) s)"

lemma ensure_ready_frame [frame]:
  "with_writer w (ensure_ready_promise_rejected e) s =
     s\<lparr>promises := ready_rejected_promises w e s, writers := ready_rejected_writers w e s\<rparr>"
  by (auto simp: ready_rejected_promises_def ready_rejected_writers_def with_writer_def
      ensure_ready_promise_rejected_def settle_def update_writer_def Let_def split: option.splits)

definition closed_rejected_promises :: "nat option \<Rightarrow> objects \<Rightarrow> settlement option list" where
  "closed_rejected_promises w s = promises (reject_close_and_closed_promise_if_needed w s)"

lemma reject_close_frame [frame]:
  "reject_close_and_closed_promise_if_needed w s =
     s\<lparr>promises := closed_rejected_promises w s, close_request := None\<rparr>"
  by (auto simp: closed_rejected_promises_def reject_close_and_closed_promise_if_needed_def
      with_writer_def settle_def Let_def split: option.splits)

definition backpressure_promises :: "nat option \<Rightarrow> bool \<Rightarrow> objects \<Rightarrow> settlement option list" where
  "backpressure_promises w b s = promises (update_backpressure w b s)"

definition backpressure_writers :: "nat option \<Rightarrow> bool \<Rightarrow> objects \<Rightarrow> default_writer list" where
  "backpressure_writers w b s = writers (update_backpressure w b s)"

lemma update_backpressure_frame [frame]:
  "update_backpressure w b s =
     s\<lparr>promises := backpressure_promises w b s, writers := backpressure_writers w b s,
       backpressure := b\<rparr>"
  by (auto simp: backpressure_promises_def backpressure_writers_def update_backpressure_def
      with_writer_def settle_def new_promise_def update_writer_def Let_def split: option.splits)

lemma new_promise_frame [frame]:
  "new_promise s = (Deferred (length (promises s)), s\<lparr>promises := promises s @ [None]\<rparr>)"
  by (rule new_promise_def)

definition attachments :: "default_writer list \<Rightarrow> bool list" where
  "attachments ws = map attached ws"

lemma attachments_update:
  "(\<And>x. attached (f x) = attached x) \<Longrightarrow> attachments (ws[i := f (ws ! i)]) = attachments ws"
  by (cases "i < length ws") (auto simp: attachments_def map_update list_eq_iff_nth_eq nth_list_update)

lemma ready_rejected_attachments [simp]:
  "attachments (ready_rejected_writers w e s) = attachments (writers s)"
  by (auto simp: ready_rejected_writers_def with_writer_def ensure_ready_promise_rejected_def
      settle_def update_writer_def Let_def attachments_update split: option.splits)

lemma backpressure_attachments [simp]:
  "attachments (backpressure_writers w b s) = attachments (writers s)"
  by (auto simp: backpressure_writers_def update_backpressure_def with_writer_def settle_def
      new_promise_def update_writer_def Let_def attachments_update split: option.splits)

subsection \<open>The invariant\<close>

datatype owed = Nothing | OwesStart | OwesWrite | OwesClose | OwesAbort

fun starts :: "reaction \<Rightarrow> nat" where
  "starts (StartReaction _) = 1"
| "starts _ = 0"

fun writes :: "reaction \<Rightarrow> nat" where
  "writes (WriteReaction _ _) = 1"
| "writes _ = 0"

fun closes :: "reaction \<Rightarrow> nat" where
  "closes (CloseReaction _ _) = 1"
| "closes _ = 0"

fun aborts :: "reaction \<Rightarrow> nat" where
  "aborts (AbortReaction _ _) = 1"
| "aborts _ = 0"

abbreviation has :: "'a option \<Rightarrow> nat" where
  "has x \<equiv> (if x = None then 0 else 1)"

definition queue_ok :: "objects \<Rightarrow> bool" where
  "queue_ok s \<longleftrightarrow>
     sized (container s) \<and>
     (if finished (state s) then chunks (container s) = [] \<and> write_requests s = []
      else \<exists>vs. chunks (container s) = vs @ (if close_request s = None then [] else [close_sentinel]) \<and>
             close_sentinel \<notin> set vs \<and>
             has (in_flight_write_request s) \<le> length vs \<and>
             (state s = Writable \<longrightarrow>
                length vs = length (write_requests s) + has (in_flight_write_request s)))"

definition flight_ok :: "objects \<Rightarrow> bool" where
  "flight_ok s \<longleftrightarrow>
     (in_flight_write_request s = None \<or> in_flight_close_request s = None) \<and>
     (has_operation_marked_in_flight s \<longrightarrow> started s \<and> \<not> finished (state s)) \<and>
     (in_flight_close_request s \<noteq> None \<longrightarrow>
        close_request s = None \<and> chunks (container s) = [] \<and> write_requests s = []) \<and>
     (finished (state s) \<longrightarrow> started s \<and> pending_abort_request s = None)"

definition algorithms_ok :: "objects \<Rightarrow> bool" where
  "algorithms_ok s \<longleftrightarrow>
     (state s = Writable \<longrightarrow> pending_abort_request s = None) \<and>
     (in_flight_close_request s = None \<longrightarrow>
        (state s = Writable \<longrightarrow>
           write_algorithm s \<noteq> None \<and> close_algorithm s \<noteq> None \<and> abort_algorithm s \<noteq> None) \<and>
        (\<forall>r. pending_abort_request s = Some r \<and> \<not> was_already_erroring r \<longrightarrow>
           abort_algorithm s \<noteq> None))"

definition lock_ok :: "objects \<Rightarrow> bool" where
  "lock_ok s \<longleftrightarrow>
     (\<forall>i. writer s = Some i \<longrightarrow> i < length (attachments (writers s))) \<and>
     (\<forall>i<length (attachments (writers s)). attachments (writers s) ! i \<longleftrightarrow> writer s = Some i)"

definition reactions_ok :: "owed \<Rightarrow> objects \<Rightarrow> bool" where
  "reactions_ok k s \<longleftrightarrow>
     owing starts (reactions s) + (if k = OwesStart then 1 else 0) = (if started s then 0 else 1) \<and>
     owing writes (reactions s) + (if k = OwesWrite then 1 else 0) = has (in_flight_write_request s) \<and>
     owing closes (reactions s) + (if k = OwesClose then 1 else 0) = has (in_flight_close_request s) \<and>
     (finished (state s) \<and> close_request s \<noteq> None \<longrightarrow> 0 < owing aborts (reactions s) \<or> k = OwesAbort) \<and>
     (0 < owing aborts (reactions s) \<or> k = OwesAbort \<longrightarrow> finished (state s))"

definition backpressure_ok :: "objects \<Rightarrow> bool" where
  "backpressure_ok s \<longleftrightarrow>
     (state s = Writable \<and> \<not> close_queued_or_in_flight s \<longrightarrow> backpressure s = get_backpressure s)"

definition progress_ok :: "objects \<Rightarrow> bool" where
  "progress_ok s \<longleftrightarrow>
     (started s \<and> \<not> finished (state s) \<and> \<not> has_operation_marked_in_flight s \<longrightarrow>
        chunks (container s) = [] \<and> state s = Writable)"

definition core :: "owed \<Rightarrow> objects \<Rightarrow> bool" where
  "core k s \<longleftrightarrow>
     queue_ok s \<and> flight_ok s \<and> algorithms_ok s \<and> lock_ok s \<and> reactions_ok k s"

definition wf :: "owed \<Rightarrow> objects \<Rightarrow> bool" where
  "wf k s \<longleftrightarrow> core k s \<and> backpressure_ok s \<and> progress_ok s"

lemmas ok_defs = queue_ok_def flight_ok_def algorithms_ok_def lock_ok_def reactions_ok_def

text \<open>How methods and callbacks may change a stream: it never leaves a final state, an error once stored
  stays, and nothing but the reaction to a close makes it closed.\<close>

fun later_state :: "stream_state \<Rightarrow> stream_state \<Rightarrow> bool" where
  "later_state Writable st = (st \<noteq> Closed)"
| "later_state (Erroring e) st = (st = Erroring e \<or> st = Errored e)"
| "later_state st st' = (st' = st)"

definition later :: "objects \<Rightarrow> objects \<Rightarrow> bool" where
  "later s s' \<longleftrightarrow> later_state (state s) (state s') \<and> length (writers s) \<le> length (writers s')"

lemma later_state_refl [simp]: "later_state st st"
  by (cases st) auto

lemma later_state_trans: "later_state a b \<Longrightarrow> later_state b c \<Longrightarrow> later_state a c"
  by (cases a; cases b) auto

lemma later_refl [simp]: "later s s"
  by (simp add: later_def)

lemma later_trans [trans]: "later a b \<Longrightarrow> later b c \<Longrightarrow> later a c"
  by (auto simp: later_def elim: later_state_trans)

lemma later_state_finished: "finished st \<Longrightarrow> later_state st st' \<longleftrightarrow> st' = st"
  by (cases st) auto

subsection \<open>User code\<close>

text \<open>
  What the language promises about a callback: it reaches the stream through the methods of its
  objects only, so it keeps what they keep. Scripts built from those methods are shown to be such
  below (\<open>script_ok\<close>).
\<close>

definition user_ok :: "user \<Rightarrow> bool" where
  "user_ok user \<longleftrightarrow> (\<forall>k c s. wf k s \<longrightarrow> wf k (snd (user c s)) \<and> later s (snd (user c s)))"

lemma user_okD:
  "user_ok user \<Longrightarrow> user c s = (a, s') \<Longrightarrow> wf k s \<Longrightarrow> wf k s' \<and> later s s'"
  by (metis snd_conv user_ok_def)

subsection \<open>Erroring\<close>

lemma unowed_if_idle:
  "core k s \<Longrightarrow> started s \<Longrightarrow> \<not> has_operation_marked_in_flight s \<Longrightarrow> \<not> finished (state s) \<Longrightarrow> k = Nothing"
  by (cases k) (auto simp: core_def reactions_ok_def has_operation_marked_in_flight_def)

lemmas wf_simps = wf_def core_def ok_defs backpressure_ok_def progress_ok_def later_def
  has_operation_marked_in_flight_def close_queued_or_in_flight_def get_backpressure_def
  get_desired_size_def

lemma call_algorithm_ok:
  assumes "user_ok user" "wf k s" "a \<noteq> None"
  shows "yields (\<lambda>(_, s'). wf k s' \<and> later s s') (call_algorithm user c a s)"
  using assms user_okD [OF assms(1) _ assms(2)]
  by (auto simp: call_algorithm_def algorithm_call_def split: option.splits algorithm.splits prod.splits)

lemma finish_erroring_ok:
  assumes user: "user_ok user" and core: "core k s" and st: "state s = Erroring e"
    and idle: "\<not> has_operation_marked_in_flight s" and started: "started s"
  shows "yields (\<lambda>s'. wf k s' \<and> later s s') (finish_erroring user w e s)"
proof -
  have k: "k = Nothing" using assms unowed_if_idle by simp
  have flight: "in_flight_write_request s = None" "in_flight_close_request s = None"
    using idle by (auto simp: has_operation_marked_in_flight_def)
  let ?ps = "fold (settle_cell (Rejected e)) (write_requests s) (promises s)"
  let ?s = "s\<lparr>state := Errored e, container := reset_queue (container s), promises := ?ps,
              write_requests := [], pending_abort_request := None\<rparr>"
  note facts = core [unfolded core_def ok_defs] k flight st started
  have rejected: "wf Nothing (?s\<lparr>promises := ps, close_request := None\<rparr>) \<and>
      later s (?s\<lparr>promises := ps, close_request := None\<rparr>)" for ps
    using facts by (simp add: wf_simps)
  show ?thesis
  proof (cases "pending_abort_request s")
    case None
    then show ?thesis using facts
      by (simp add: finish_erroring_def error_steps_def frame Let_def wf_simps)
  next
    case (Some r)
    show ?thesis
    proof (cases "was_already_erroring r")
      case True
      then show ?thesis using rejected k Some
        by (simp add: finish_erroring_def error_steps_def frame Let_def)
    next
      case False
      with Some core flight have alg: "abort_algorithm s \<noteq> None"
        by (simp add: core_def algorithms_ok_def)
      have abort: "wf OwesAbort ?s \<and> later s ?s"
        using facts by (simp add: wf_simps)
      have "yields (\<lambda>(_, s'). wf OwesAbort s' \<and> later ?s s')
          (call_algorithm user (AbortCall (abort_reason r)) (abort_algorithm s) ?s)"
        using user abort alg by (intro call_algorithm_ok) simp_all
      moreover have "wf Nothing (upon_promise r' (clear_algorithms s')) \<and>
          later s (upon_promise r' (clear_algorithms s'))"
        if "wf OwesAbort s'" "later ?s s'" "aborts r' = 1" for s' r'
        using that abort by (cases r') (auto simp: wf_simps upon_promise_def clear_algorithms_def)
      ultimately show ?thesis using Some False k
        by (simp add: finish_erroring_def error_steps_def frame Let_def abort_steps_def split_def)
           (auto elim!: yields_mono)
    qed
  qed
qed

lemma start_erroring_ok:
  assumes user: "user_ok user" and core: "core k (s\<lparr>state := Erroring e\<rparr>)" and st: "state s = Writable"
  shows "yields (\<lambda>s'. wf k s' \<and> later s s') (start_erroring user w e s)"
proof -
  let ?t = "s\<lparr>state := Erroring e\<rparr>"
  let ?s = "s\<lparr>state := Erroring e, promises := ready_rejected_promises w e ?t,
              writers := ready_rejected_writers w e ?t\<rparr>"
  have core': "core k ?s" using core by (simp add: wf_simps)
  have len: "length (writers s) = length (ready_rejected_writers w e ?t)"
    using arg_cong [where f = length, OF ready_rejected_attachments [of w e ?t]]
    by (simp add: attachments_def del: ready_rejected_attachments)
  have later: "later s s'" if "later ?s s'" for s'
    using that len st by (auto simp: later_def)
  show ?thesis
  proof (cases "has_operation_marked_in_flight s \<or> \<not> started s")
    case True
    then have "wf k ?s" using core' by (auto simp: wf_def progress_ok_def backpressure_ok_def has_operation_marked_in_flight_def)
    moreover have "start_erroring user w e s = Some ?s"
      using True by (auto simp: start_erroring_def frame Let_def has_operation_marked_in_flight_def)
    ultimately show ?thesis using later by simp
  next
    case False
    then have "yields (\<lambda>s'. wf k s' \<and> later ?s s') (finish_erroring user w e ?s)"
      using finish_erroring_ok [OF user core'] by (simp add: has_operation_marked_in_flight_def)
    moreover have "start_erroring user w e s = finish_erroring user w e ?s"
      using False by (auto simp: start_erroring_def frame Let_def has_operation_marked_in_flight_def)
    ultimately show ?thesis using later by (auto elim!: yields_mono)
  qed
qed

lemma controller_error_ok:
  assumes "user_ok user" "core k s" "state s = Writable"
  shows "yields (\<lambda>s'. wf k s' \<and> later s s') (controller_error user w e s)"
proof -
  have "core k ((clear_algorithms s)\<lparr>state := Erroring e\<rparr>)"
    using assms(2,3) by (auto simp: wf_simps clear_algorithms_def split: if_splits)
  then have "yields (\<lambda>s'. wf k s' \<and> later (clear_algorithms s) s') (controller_error user w e s)"
    unfolding controller_error_def
    using assms by (intro start_erroring_ok) (simp_all add: clear_algorithms_def)
  then show ?thesis by (rule yields_mono) (simp add: later_def clear_algorithms_def)
qed

lemma controller_error_if_needed_ok:
  assumes "user_ok user" "wf k s"
  shows "yields (\<lambda>s'. wf k s' \<and> later s s') (controller_error_if_needed user w e s)"
proof -
  have "core k s" using assms(2) by (simp add: wf_def)
  then show ?thesis using assms
    by (auto simp: controller_error_if_needed_def controller_error_ok split: stream_state.splits)
qed

lemma deal_with_rejection_ok:
  assumes "user_ok user" "started s" "\<not> has_operation_marked_in_flight s"
    and "case state s of
           Writable \<Rightarrow> core k (s\<lparr>state := Erroring e\<rparr>)
         | Erroring _ \<Rightarrow> core k s
         | _ \<Rightarrow> False"
  shows "yields (\<lambda>s'. wf k s' \<and> later s s') (deal_with_rejection user w e s)"
  using assms by (auto simp: deal_with_rejection_def start_erroring_ok finish_erroring_ok
      split: stream_state.splits)

subsection \<open>Sink operations\<close>

lemma chunks_Cons:
  "queue (container s) = c # cs \<Longrightarrow> chunks (container s) = chunk_value c # map chunk_value cs"
  by (simp add: chunks_def)

lemma process_write_ok:
  assumes user: "user_ok user" and core: "core Nothing s" and st: "state s = Writable"
    and bp: "backpressure_ok s" and idle: "\<not> has_operation_marked_in_flight s"
    and started: "started s" and head: "chunks (container s) = v # rest" "v \<noteq> close_sentinel"
  shows "yields (\<lambda>s'. wf Nothing s' \<and> later s s') (process_write user w v s)"
proof -
  have flight: "in_flight_write_request s = None" "in_flight_close_request s = None"
    using idle by (auto simp: has_operation_marked_in_flight_def)
  note facts = core [unfolded core_def ok_defs] bp flight st started
  obtain p ps where ps: "write_requests s = p # ps"
    using facts head by (cases "write_requests s") (auto split: if_splits)
  let ?s = "s\<lparr>write_requests := ps, in_flight_write_request := Some p\<rparr>"
  have wf: "wf OwesWrite ?s" using facts ps by (auto simp: wf_simps)
  have "write_algorithm s \<noteq> None" using facts by simp
  then have "yields (\<lambda>(_, s'). wf OwesWrite s' \<and> later ?s s')
      (call_algorithm user (WriteCall v) (write_algorithm ?s) ?s)"
    using call_algorithm_ok [OF user wf] by simp
  moreover have "wf Nothing (upon_promise (WriteReaction w a) s') \<and> later s (upon_promise (WriteReaction w a) s')"
    if "wf OwesWrite s'" "later ?s s'" for s' a
    using that by (auto simp: wf_simps upon_promise_def)
  ultimately show ?thesis
    by (simp add: process_write_def mark_first_write_request_in_flight_def ps split_def)
       (auto elim!: yields_mono)
qed

lemma process_close_ok:
  assumes user: "user_ok user" and core: "core Nothing s" and st: "state s = Writable"
    and idle: "\<not> has_operation_marked_in_flight s"
    and started: "started s" and head: "chunks (container s) = close_sentinel # rest"
  shows "yields (\<lambda>s'. wf Nothing s' \<and> later s s') (process_close user w s)"
proof -
  have flight: "in_flight_write_request s = None" "in_flight_close_request s = None"
    using idle by (auto simp: has_operation_marked_in_flight_def)
  note facts = core [unfolded core_def ok_defs] flight st started head
  obtain vs where vs: "close_sentinel # rest = vs @ (if close_request s = None then [] else [close_sentinel])"
    "close_sentinel \<notin> set vs" "length vs = length (write_requests s)"
    using facts by auto
  then have "vs = []" "close_request s \<noteq> None" by (cases vs; auto split: if_splits)+
  then obtain p where p: "close_request s = Some p" "rest = []" "write_requests s = []"
    using vs by auto
  obtain q where q: "dequeue_value (container s) = Some (close_sentinel, q)" "chunks q = []" "sized q"
    using dequeue_chunks [OF head] facts p by auto
  let ?s = "s\<lparr>close_request := None, in_flight_close_request := Some p, container := q\<rparr>"
  have wf: "wf OwesClose ?s" using facts p q by (auto simp: wf_simps)
  have "close_algorithm s \<noteq> None" using facts by simp
  then have "yields (\<lambda>(_, s'). wf OwesClose s' \<and> later ?s s')
      (call_algorithm user CloseCall (close_algorithm ?s) ?s)"
    using call_algorithm_ok [OF user wf] by simp
  moreover have "wf Nothing (upon_promise (CloseReaction w a) (clear_algorithms s'))
      \<and> later s (upon_promise (CloseReaction w a) (clear_algorithms s'))"
    if "wf OwesClose s'" "later ?s s'" for s' a
    using that by (auto simp: wf_simps upon_promise_def clear_algorithms_def split: if_splits)
  ultimately show ?thesis
    by (simp add: process_close_def mark_close_request_in_flight_def p q split_def)
       (auto elim!: yields_mono)
qed

subsection \<open>The queue\<close>

lemma advance_queue_ok:
  assumes user: "user_ok user" and core: "core k s" and bp: "backpressure_ok s"
    and live: "\<not> finished (state s)" and noclose: "in_flight_close_request s = None"
  shows "yields (\<lambda>s'. wf k s' \<and> later s s') (advance_queue_if_needed user w s)"
proof (cases "\<not> started s \<or> in_flight_write_request s \<noteq> None")
  case True
  then have "wf k s" using core bp by (auto simp: wf_def progress_ok_def has_operation_marked_in_flight_def)
  then show ?thesis using True by (simp add: advance_queue_if_needed_def)
next
  case False
  then have idle: "\<not> has_operation_marked_in_flight s" and started: "started s"
    using noclose by (auto simp: has_operation_marked_in_flight_def)
  then have k: "k = Nothing" using core live unowed_if_idle by blast
  show ?thesis
  proof (cases "state s")
    case (Erroring e)
    then show ?thesis using finish_erroring_ok [OF user core] idle started False
      by (simp add: advance_queue_if_needed_def)
  next
    case Writable
    show ?thesis
    proof (cases "queue (container s)")
      case Nil
      then have "wf k s" using core bp Writable
        by (simp add: wf_def progress_ok_def chunks_def)
      then show ?thesis using Nil Writable by (simp add: advance_queue_if_needed_def)
    next
      case (Cons c cs)
      show ?thesis
        using process_close_ok [OF user core [unfolded k] Writable idle started, of "map chunk_value cs"]
          process_write_ok [OF user core [unfolded k] Writable bp idle started chunks_Cons [OF Cons]]
          chunks_Cons [OF Cons] Cons False Writable k
        by (auto simp: advance_queue_if_needed_def)
    qed
  qed (use live in simp_all)
qed

lemma enqueued_core:
  assumes "core k s" "state s = Writable" "\<not> close_queued_or_in_flight s"
    "enqueue_value_with_size v sz (container s) = Inr q" "v \<noteq> close_sentinel"
  shows "core k (s\<lparr>write_requests := write_requests s @ [p], container := q\<rparr>)"
proof -
  have "chunks q = chunks (container s) @ [v]" "sized q"
    using assms(1,4) enqueue_values enqueue_sized by (auto simp: chunks_def core_def queue_ok_def)
  then show ?thesis using assms(1-3,5) by (auto simp: core_def ok_defs close_queued_or_in_flight_def
      has_operation_marked_in_flight_def split: if_splits)
qed

lemma core_irrelevant:
  "core k (s\<lparr>promises := ps\<rparr>) = core k s"
  "core k (s\<lparr>backpressure := b\<rparr>) = core k s"
  "core k (s\<lparr>signal_aborted := a\<rparr>) = core k s"
  by (simp_all add: wf_simps)

lemma wf_irrelevant [simp]:
  "wf k (s\<lparr>promises := ps\<rparr>) = wf k s"
  "wf k (s\<lparr>signal_aborted := a\<rparr>) = wf k s"
  by (simp_all add: wf_simps)

lemma core_frame:
  "attachments ws = attachments (writers s) \<Longrightarrow>
     core k (s\<lparr>promises := ps, writers := ws, backpressure := b\<rparr>) \<longleftrightarrow> core k s"
  by (simp add: wf_simps)

lemma same_attachments_length: "attachments a = attachments b \<Longrightarrow> length a = length b"
  by (metis attachments_def length_map)

lemma controller_write_ok:
  assumes user: "user_ok user" and wf: "wf k s" and st: "state s = Writable"
    and open_: "\<not> close_queued_or_in_flight s" and v: "v \<noteq> close_sentinel"
  shows "yields (\<lambda>s'. wf k s' \<and> later s s')
    (controller_write user i v sz (s\<lparr>write_requests := write_requests s @ [p]\<rparr>))"
proof (cases "enqueue_value_with_size v sz (container s)")
  case (Inl e)
  let ?s = "clear_algorithms (s\<lparr>write_requests := write_requests s @ [p]\<rparr>)"
  have "core k (?s\<lparr>state := Erroring e\<rparr>)"
    using wf st open_ by (auto simp: wf_simps clear_algorithms_def)
  then have "yields (\<lambda>s'. wf k s' \<and> later ?s s') (start_erroring user (Some i) e ?s)"
    by (intro start_erroring_ok [OF user]) (simp_all add: st clear_algorithms_def)
  then show ?thesis
    using Inl st by (auto simp: controller_write_def controller_error_if_needed_def
        controller_error_def later_def clear_algorithms_def elim!: yields_mono)
next
  case (Inr q)
  let ?s = "s\<lparr>write_requests := write_requests s @ [p], container := q\<rparr>"
  let ?b = "get_backpressure ?s"
  let ?t = "?s\<lparr>promises := backpressure_promises (Some i) ?b ?s,
              writers := backpressure_writers (Some i) ?b ?s, backpressure := ?b\<rparr>"
  have "core k ?s" using wf st open_ Inr v by (intro enqueued_core) (auto simp: wf_def)
  then have core: "core k ?t" by (rule core_frame [THEN iffD2, rotated]) simp
  have bp: "backpressure_ok ?t"
    by (simp add: backpressure_ok_def get_backpressure_def get_desired_size_def)
  have "later s ?t" using same_attachments_length [OF backpressure_attachments [of "Some i" ?b ?s]]
    by (simp add: later_def)
  moreover have "yields (\<lambda>s'. wf k s' \<and> later ?t s') (advance_queue_if_needed user (Some i) ?t)"
    using advance_queue_ok [OF user core bp] st open_ by (simp add: close_queued_or_in_flight_def)
  ultimately show ?thesis using Inr st open_
    by (auto simp: controller_write_def Let_def update_backpressure_frame close_queued_or_in_flight_def
        get_backpressure_def get_desired_size_def elim!: yields_mono later_trans)
qed

subsection \<open>Writes\<close>

lemma yields_later:
  "later a b \<Longrightarrow> yields (\<lambda>s'. wf k s' \<and> later b s') m \<Longrightarrow> yields (\<lambda>s'. wf k s' \<and> later a s') m"
  by (erule yields_mono) (blast intro: later_trans)

lemma get_chunk_size_ok:
  assumes user: "user_ok user" and wf: "wf k s"
  shows "yields (\<lambda>(_, s'). wf k s' \<and> later s s') (get_chunk_size user i chunk s)"
proof -
  obtain r s1 where call: "call_size_algorithm user chunk s = (r, s1)"
    by (cases "call_size_algorithm user chunk s")
  have "wf k s1 \<and> later s s1"
    using call user_okD [OF user _ wf] wf
    by (auto simp: call_size_algorithm_def Let_def split: option.splits size_algorithm.splits
        size_function.splits native_size_function.splits prod.splits if_splits)
  then show ?thesis
    using call controller_error_if_needed_ok [OF user, of k s1 "Some i"]
    by (cases r) (auto simp: get_chunk_size_def intro: yields_later)
qed

lemma attached_iff:
  "wf k s \<Longrightarrow> i < length (writers s) \<Longrightarrow> attached (writers s ! i) \<longleftrightarrow> writer s = Some i"
  by (auto simp: wf_def core_def lock_ok_def attachments_def)

lemma write_sized_ok:
  assumes user: "user_ok user" and wf: "wf k s" and v: "v \<noteq> close_sentinel"
  shows "yields (\<lambda>(_, s'). wf k s' \<and> later s s') (write_sized user i v sz s)"
proof -
  let ?s = "s\<lparr>promises := promises s @ [None]\<rparr>"
  have "yields (\<lambda>s'. wf k s' \<and> later ?s s')
      (controller_write user i v sz (?s\<lparr>write_requests := write_requests ?s @ [Deferred (length (promises s))]\<rparr>))"
    if "state s = Writable" "\<not> close_queued_or_in_flight s"
    using that wf by (intro controller_write_ok [OF user _ _ _ v]) (simp_all add: close_queued_or_in_flight_def)
  moreover have "later s ?s" by (simp add: later_def)
  ultimately show ?thesis using wf
    by (auto simp: write_sized_def add_write_request_def new_promise_def Let_def
        split: stream_state.splits intro: yields_later)
qed

lemma writer_write_ok:
  assumes "user_ok user" "wf k s" "v \<noteq> close_sentinel"
  shows "yields (\<lambda>(_, s'). wf k s' \<and> later s s') (writer_write user i v s)"
proof -
  have "yields (\<lambda>(_, s'). wf k s' \<and> later s s') (write_sized user i v sz s1)"
    if "wf k s1" "later s s1" for sz s1
    using write_sized_ok [OF assms(1) that(1) assms(3), of i sz] that(2)
    by (auto elim!: yields_mono intro: later_trans)
  then show ?thesis using get_chunk_size_ok [OF assms(1,2), of i v]
    by (auto simp: writer_write_def split_def elim!: yields_mono)
qed

subsection \<open>Closing and aborting\<close>

lemma enqueue_sentinel:
  "\<exists>q'. enqueue_value_with_size close_sentinel (SizeNative (Fin 0)) q = Inr q' \<and>
     chunks q' = chunks q @ [close_sentinel] \<and> (sized q \<longrightarrow> sized q')"
proof -
  obtain q' where q': "enqueue_value_with_size close_sentinel (SizeNative (Fin 0)) q = Inr q'"
    by (simp add: enqueue_finite)
  moreover have "chunks q' = chunks q @ [close_sentinel]"
    using enqueue_values [OF q'] by (simp add: chunks_def)
  ultimately show ?thesis using enqueue_sized by blast
qed

lemma close_request_promises:
  "(s :: objects)\<lparr>close_request := c, promises := ps\<rparr> = s\<lparr>promises := ps, close_request := c\<rparr>"
  by simp

lemma stream_close_ok:
  assumes user: "user_ok user" and wf: "wf k s" and open_: "\<not> close_queued_or_in_flight s"
  shows "yields (\<lambda>(_, s'). wf k s' \<and> later s s') (stream_close user w s)"
proof (cases "finished (state s)")
  case True
  then show ?thesis using wf by (simp add: stream_close_def)
next
  case False
  let ?p = "Deferred (length (promises s))"
  obtain q where q: "enqueue_value_with_size close_sentinel (SizeNative (Fin 0)) (container s) = Inr q"
    "chunks q = chunks (container s) @ [close_sentinel]" "sized (container s) \<Longrightarrow> sized q"
    using enqueue_sentinel [of "container s"] by blast
  let ?s = "\<lambda>ps. s\<lparr>promises := ps, close_request := Some ?p, container := q\<rparr>"
  have core: "core k (?s ps)" for ps
    using wf open_ False q by (auto simp: wf_def core_def ok_defs close_queued_or_in_flight_def has_operation_marked_in_flight_def)
  have "yields (\<lambda>s'. wf k s' \<and> later (?s ps) s') (advance_queue_if_needed user w (?s ps))" for ps
    using open_ False by (intro advance_queue_ok [OF user core])
      (simp_all add: backpressure_ok_def close_queued_or_in_flight_def)
  moreover have "later s (?s ps)" for ps by (simp add: later_def)
  ultimately have adv: "yields (\<lambda>s'. wf k s' \<and> later s s') (advance_queue_if_needed user w (?s ps))" for ps
    by (rule yields_later [rotated])
  have eq: "stream_close user w s = Option.bind (advance_queue_if_needed user w (?s ps))
      (\<lambda>s'. Some (Inr ?p, s'))" if "ps = promises (with_writer w (\<lambda>i s. if backpressure s \<and> state s = Writable
                          then resolve_undefined (ready_promise (writers s ! i)) s else s)
       (s\<lparr>promises := promises s @ [None], close_request := Some ?p\<rparr>))" for ps
    using False q that by (auto simp: stream_close_def new_promise_def Let_def controller_close_def
        with_writer_def settle_def close_request_promises split: option.splits)
  show ?thesis using adv eq [OF refl] by (auto elim!: yields_mono)
qed

lemma signal_abort_ok:
  assumes "user_ok user" "wf k s" "signal_abort user reason s = (r, s')"
  shows "wf k s' \<and> later s s'"
proof (cases "signal_aborted s")
  case False
  then have "user (SignalCall (unwrap_or_undefined reason)) (s\<lparr>signal_aborted := True\<rparr>) = (r, s')"
    using assms(3) by (simp add: signal_abort_def)
  moreover have "wf k (s\<lparr>signal_aborted := True\<rparr>)" "later s (s\<lparr>signal_aborted := True\<rparr>)"
    using assms(2) by (simp_all add: later_def)
  ultimately show ?thesis using user_okD [OF assms(1)] later_trans by blast
qed (use assms in \<open>simp add: signal_abort_def\<close>)

lemma pending_abort_core:
  assumes "wf k s" "\<not> finished (state s)" "pending_abort_request s = None"
    "was_already_erroring r \<or> state s = Writable"
  shows "core k (s\<lparr>promises := ps, pending_abort_request := Some r, state := Erroring e\<rparr>)"
  using assms by (cases "state s") (auto simp: wf_def core_def ok_defs has_operation_marked_in_flight_def)

lemma stream_abort_ok:
  assumes user: "user_ok user" and wf: "wf k s"
  shows "yields (\<lambda>(_, s'). wf k s' \<and> later s s') (stream_abort user w reason s)"
proof (cases "finished (state s)")
  case True
  then show ?thesis using wf by (simp add: stream_abort_def)
next
  case False
  obtain r s1 where sig: "signal_abort user reason s = (r, s1)"
    by (cases "signal_abort user reason s")
  have wf1: "wf k s1" and later1: "later s s1" using signal_abort_ok [OF user wf sig] by auto
  let ?cell = "promises s1 @ [None]" and ?p = "Deferred (length (promises s1))"
  show ?thesis
  proof (cases "r = Inl (projl r) \<or> finished (state s1) \<or> pending_abort_request s1 \<noteq> None")
    case True
    then show ?thesis using False sig wf1 later1
      by (cases r) (auto simp: stream_abort_def split: option.splits)
  next
    case live: False
    then obtain v where r: "r = Inr v" by (cases r) auto
    show ?thesis
    proof (cases "state s1")
      case (Erroring e)
      let ?r = "\<lparr>abort_promise = ?p, abort_reason = JsUndefined, was_already_erroring = True\<rparr>"
      have "wf k (s1\<lparr>promises := ?cell, pending_abort_request := Some ?r\<rparr>)"
        using wf1 Erroring by (auto simp: wf_simps)
      moreover have "later s (s1\<lparr>promises := ?cell, pending_abort_request := Some ?r\<rparr>)"
        using later1 by (simp add: later_def)
      ultimately show ?thesis using False sig live r Erroring
        by (simp add: stream_abort_def new_promise_def Let_def)
    next
      case Writable
      let ?reason = "unwrap_or_undefined reason"
      let ?r = "\<lparr>abort_promise = ?p, abort_reason = ?reason, was_already_erroring = False\<rparr>"
      let ?s = "s1\<lparr>promises := ?cell, pending_abort_request := Some ?r\<rparr>"
      have "core k (?s\<lparr>state := Erroring ?reason\<rparr>)"
        using wf1 live Writable by (intro pending_abort_core) auto
      then have "yields (\<lambda>s'. wf k s' \<and> later ?s s') (start_erroring user w ?reason ?s)"
        by (intro start_erroring_ok [OF user]) (simp_all add: Writable)
      moreover have "later s ?s" using later1 by (simp add: later_def)
      ultimately have "yields (\<lambda>s'. wf k s' \<and> later s s') (start_erroring user w ?reason ?s)"
        by (rule yields_later [rotated])
      then show ?thesis using False sig live r Writable
        by (auto simp: stream_abort_def new_promise_def Let_def elim!: yields_mono)
    qed (use live in simp_all)
  qed
qed

subsection \<open>Writers and the methods\<close>

lemma attachments_append: "attachments (ws @ [w]) = attachments ws @ [attached w]"
  by (simp add: attachments_def)

lemma locked_by_new:
  assumes "lock_ok s" "writer s = None" "attached w"
  shows "lock_ok (s\<lparr>promises := ps, writers := writers s @ [w], writer := Some (length (writers s))\<rparr>)"
  using assms by (auto simp: lock_ok_def attachments_append nth_append less_Suc_eq)
     (auto simp: attachments_def)

lemma set_up_default_writer_ok:
  assumes wf: "wf k s"
  shows "wf k (snd (set_up_default_writer s)) \<and> later s (snd (set_up_default_writer s))"
proof (cases "is_writable_stream_locked s")
  case True
  then show ?thesis using wf by (simp add: set_up_default_writer_def)
next
  case False
  then have free: "writer s = None" by (simp add: is_writable_stream_locked_def)
  let ?t = "snd (set_up_default_writer s)"
  let ?ps = "promises ?t" and ?w = "last (writers ?t)"
  have w: "attached ?w"
    using False by (cases "state s"; cases "backpressure s"; cases "close_queued_or_in_flight s")
      (simp_all add: set_up_default_writer_def new_promise_def Let_def)
  have eq: "?t = s\<lparr>promises := ?ps, writers := writers s @ [?w], writer := Some (length (writers s))\<rparr>"
    using False by (cases "state s"; cases "backpressure s"; cases "close_queued_or_in_flight s")
      (simp_all add: set_up_default_writer_def new_promise_def Let_def)
  have "lock_ok (s\<lparr>promises := ?ps, writers := writers s @ [?w], writer := Some (length (writers s))\<rparr>)"
    using locked_by_new [OF _ free w] wf by (simp add: wf_def core_def)
  then show ?thesis using wf
    by (subst (1 2) eq) (simp add: wf_def core_def queue_ok_def flight_ok_def algorithms_ok_def reactions_ok_def
        backpressure_ok_def progress_ok_def later_def has_operation_marked_in_flight_def
        close_queued_or_in_flight_def get_backpressure_def get_desired_size_def)
qed

lemma released_lock:
  assumes "lock_ok s" "writer s = Some i" "length ws = length (writers s)"
    "\<And>j. j < length ws \<Longrightarrow> attached (ws ! j) \<longleftrightarrow> j \<noteq> i \<and> attached (writers s ! j)"
  shows "lock_ok (s\<lparr>promises := ps, writers := ws, writer := None\<rparr>)"
  using assms by (auto simp: lock_ok_def attachments_def)

lemma writer_release_ok:
  assumes wf: "wf k s" and i: "i < length (writers s)" "attached (writers s ! i)"
  shows "wf k (writer_release i s) \<and> later s (writer_release i s)"
proof -
  have w: "writer s = Some i" using attached_iff [OF wf i(1)] i(2) by simp
  let ?t = "writer_release i s"
  note defs = writer_release_def ensure_ready_promise_rejected_def
    ensure_closed_promise_rejected_def settle_def update_writer_def Let_def
  have ws: "length (writers ?t) = length (writers s)"
    "j < length (writers ?t) \<Longrightarrow> attached (writers ?t ! j) \<longleftrightarrow> j \<noteq> i \<and> attached (writers s ! j)" for j
    using i(1) by (auto simp: defs nth_list_update)
  have eq: "?t = s\<lparr>promises := promises ?t, writers := writers ?t, writer := None\<rparr>"
    by (simp add: defs)
  have "lock_ok (s\<lparr>promises := promises ?t, writers := writers ?t, writer := None\<rparr>)"
    using released_lock [OF _ w ws] wf by (simp add: wf_def core_def)
  then show ?thesis using wf ws(1)
    by (subst (1 2) eq) (simp add: wf_def core_def queue_ok_def flight_ok_def algorithms_ok_def reactions_ok_def
        backpressure_ok_def progress_ok_def later_def has_operation_marked_in_flight_def
        close_queued_or_in_flight_def get_backpressure_def get_desired_size_def)
qed

definition permitted :: "api \<Rightarrow> objects \<Rightarrow> bool" where
  "permitted a s \<longleftrightarrow> enabled (Invoke a) s \<and> plain_event (Invoke a)"

lemma invoke_ok:
  assumes user: "user_ok user" and wf: "wf k s" and ok: "permitted a s"
  shows "yields (\<lambda>(_, s'). wf k s' \<and> later s s') (invoke user a s)"
proof (cases a)
  case GetWriter
  then show ?thesis using set_up_default_writer_ok [OF wf]
    by (simp add: method_get_writer_def split_def Let_def)
next
  case (StreamAbort reason)
  then show ?thesis using stream_abort_ok [OF user wf] wf
    by (simp add: method_stream_abort_def returns_promise_def split_def)
next
  case StreamClose
  then show ?thesis using stream_close_ok [OF user wf] wf
    by (simp add: method_stream_close_def returns_promise_def split_def)
next
  case (WriterAbort i reason)
  then show ?thesis using stream_abort_ok [OF user wf] wf
    by (simp add: method_writer_abort_def returns_promise_def split_def)
next
  case (WriterClose i)
  then show ?thesis using stream_close_ok [OF user wf] wf
    by (simp add: method_writer_close_def returns_promise_def split_def)
next
  case (WriterCloseWithErrorPropagation i)
  then show ?thesis using stream_close_ok [OF user wf] wf
    by (auto simp: writer_close_with_error_propagation_def returns_promise_def split_def
        split: stream_state.splits)
next
  case (WriterReleaseLock i)
  then show ?thesis using writer_release_ok [OF wf, of i] wf ok
    by (simp add: method_release_lock_def permitted_def)
next
  case (WriterWrite i chunk)
  then show ?thesis using writer_write_ok [OF user wf] wf ok
    by (simp add: method_writer_write_def permitted_def split_def)
next
  case (ControllerError e)
  then show ?thesis using controller_error_ok [OF user, of k s "writer s" e] wf
    by (simp add: method_controller_error_def wf_def)
qed

subsection \<open>Reactions\<close>

lemma core_erroring: "core k s \<Longrightarrow> state s = Writable \<Longrightarrow> core k (s\<lparr>state := Erroring e\<rparr>)"
  by (auto simp: core_def ok_defs has_operation_marked_in_flight_def)

lemma start_settled_ok:
  assumes user: "user_ok user" and wf: "wf Nothing s" and n: "n < length (reactions s)"
    and r: "starts (reactions s ! n) = 1"
  shows "yields (\<lambda>s'. wf Nothing s' \<and> later s s')
    (start_settled user result (s\<lparr>reactions := remove_nth n (reactions s)\<rparr>))"
proof -
  have kinds: "writes (reactions s ! n) = 0" "closes (reactions s ! n) = 0" "aborts (reactions s ! n) = 0"
    using r by (cases "reactions s ! n"; simp)+
  let ?s = "s\<lparr>reactions := remove_nth n (reactions s), started := True\<rparr>"
  have "\<not> started s"
    using wf owing_remove_nth [OF n, of starts] r by (auto simp: wf_def core_def reactions_ok_def split: if_splits)
  then have live: "\<not> finished (state s)" and idle: "\<not> has_operation_marked_in_flight s"
    using wf by (auto simp: wf_def core_def flight_ok_def)
  have reactions: "reactions_ok Nothing ?s"
    using wf live idle r kinds owing_remove_nth [OF n, of starts] owing_remove_nth [OF n, of writes]
      owing_remove_nth [OF n, of closes] owing_remove_nth [OF n, of aborts] \<open>\<not> started s\<close>
    by (simp add: wf_def core_def reactions_ok_def)
  have core: "core Nothing ?s"
    using wf live reactions
    by (simp add: wf_def core_def queue_ok_def flight_ok_def algorithms_ok_def lock_ok_def
        has_operation_marked_in_flight_def)
  have later: "later s ?s" by (simp add: later_def)
  show ?thesis
  proof (cases result)
    case (Fulfilled v)
    have "backpressure_ok ?s" using wf by (simp add: wf_simps)
    then have "yields (\<lambda>s'. wf Nothing s' \<and> later ?s s') (advance_queue_if_needed user (writer s) ?s)"
      using live idle by (intro advance_queue_ok [OF user core]) (auto simp: has_operation_marked_in_flight_def)
    then show ?thesis using Fulfilled later by (simp add: start_settled_def yields_later)
  next
    case (Rejected e)
    have "yields (\<lambda>s'. wf Nothing s' \<and> later ?s s') (deal_with_rejection user (writer s) e ?s)"
      using live idle core core_erroring [OF core]
      by (intro deal_with_rejection_ok [OF user])
         (auto simp: has_operation_marked_in_flight_def split: stream_state.splits)
    then show ?thesis using Rejected later by (simp add: start_settled_def yields_later)
  qed
qed

lemma write_settled_ok:
  assumes user: "user_ok user" and wf: "wf Nothing s" and n: "n < length (reactions s)"
    and r: "writes (reactions s ! n) = 1"
  shows "yields (\<lambda>s'. wf Nothing s' \<and> later s s')
    (write_settled user result (s\<lparr>reactions := remove_nth n (reactions s)\<rparr>))"
proof -
  have kinds: "starts (reactions s ! n) = 0" "closes (reactions s ! n) = 0" "aborts (reactions s ! n) = 0"
    using r by (cases "reactions s ! n"; simp)+
  note owed = owing_remove_nth [OF n, of starts] owing_remove_nth [OF n, of writes]
    owing_remove_nth [OF n, of closes] owing_remove_nth [OF n, of aborts] kinds r
  obtain p where p: "in_flight_write_request s = Some p"
    using wf owed by (auto simp: wf_def core_def reactions_ok_def split: if_splits)
  have facts: "in_flight_close_request s = None" "started s" "\<not> finished (state s)"
    using wf p by (auto simp: wf_def core_def flight_ok_def has_operation_marked_in_flight_def)
  let ?rs = "remove_nth n (reactions s)"
  show ?thesis
  proof (cases result)
    case (Rejected e)
    let ?t = "if state s = Writable then clear_algorithms (s\<lparr>reactions := ?rs\<rparr>) else s\<lparr>reactions := ?rs\<rparr>"
    let ?s = "?t\<lparr>in_flight_write_request := None, promises := settle_cell (Rejected e) p (promises s)\<rparr>"
    have "case state s of Writable \<Rightarrow> core Nothing (?s\<lparr>state := Erroring e\<rparr>)
        | Erroring _ \<Rightarrow> core Nothing ?s | _ \<Rightarrow> False"
      using wf p facts owed
      by (auto simp: wf_def core_def ok_defs has_operation_marked_in_flight_def clear_algorithms_def
          split: stream_state.splits)
    then have "yields (\<lambda>s'. wf Nothing s' \<and> later ?s s') (deal_with_rejection user (writer s) e ?s)"
      using facts by (intro deal_with_rejection_ok [OF user])
        (auto simp: has_operation_marked_in_flight_def clear_algorithms_def split: stream_state.splits)
    moreover have "later s ?s" by (simp add: later_def clear_algorithms_def)
    ultimately have "yields (\<lambda>s'. wf Nothing s' \<and> later s s') (deal_with_rejection user (writer s) e ?s)"
      by (rule yields_later [rotated])
    then show ?thesis using Rejected p
      by (auto simp: write_settled_def finish_in_flight_write_with_error_def settle_def
          clear_algorithms_def Let_def)
  next
    case (Fulfilled v)
    obtain c vs where c: "chunks (container s) = c # vs @ (if close_request s = None then [] else [close_sentinel])"
      "close_sentinel \<notin> set vs" "state s = Writable \<longrightarrow> length vs = length (write_requests s)"
      and sized: "sized (container s)"
    proof -
      from wf p facts obtain us where
        "chunks (container s) = us @ (if close_request s = None then [] else [close_sentinel])"
        "close_sentinel \<notin> set us" "1 \<le> length us"
        "state s = Writable \<longrightarrow> length us = length (write_requests s) + 1" "sized (container s)"
        by (auto simp: wf_def core_def queue_ok_def)
      then show thesis using that by (cases us) auto
    qed
    obtain q where q: "dequeue_value (container s) = Some (c, q)"
      "chunks q = vs @ (if close_request s = None then [] else [close_sentinel])" "sized q"
      using dequeue_chunks [OF c(1) sized] by blast
    let ?s = "s\<lparr>reactions := ?rs, in_flight_write_request := None,
                promises := settle_cell (Fulfilled JsUndefined) p (promises s), container := q\<rparr>"
    let ?b = "get_backpressure ?s"
    let ?t = "?s\<lparr>promises := backpressure_promises (writer s) ?b ?s,
                 writers := backpressure_writers (writer s) ?b ?s, backpressure := ?b\<rparr>"
    let ?open = "\<not> close_queued_or_in_flight s \<and> state s = Writable"
    have core: "core Nothing ?s"
      using wf p facts owed q c by (auto simp: wf_def core_def ok_defs has_operation_marked_in_flight_def)
    then have core_t: "core Nothing ?t" by (rule core_frame [THEN iffD2, rotated]) simp
    have bp: "backpressure_ok ?t"
      by (simp add: backpressure_ok_def get_backpressure_def get_desired_size_def)
    have "yields (\<lambda>s'. wf Nothing s' \<and> later ?t s') (advance_queue_if_needed user (writer s) ?t)"
      using facts by (intro advance_queue_ok [OF user core_t bp]) simp_all
    moreover have "later s ?t" using same_attachments_length [OF backpressure_attachments [of "writer s" ?b ?s]]
      by (simp add: later_def)
    ultimately have opened: "yields (\<lambda>s'. wf Nothing s' \<and> later s s') (advance_queue_if_needed user (writer s) ?t)"
      by (rule yields_later [rotated])
    have closed: "yields (\<lambda>s'. wf Nothing s' \<and> later s s') (advance_queue_if_needed user (writer s) ?s)"
      if "\<not> ?open"
      using that facts
      by (intro yields_later [of s ?s] advance_queue_ok [OF user core])
         (auto simp: later_def backpressure_ok_def close_queued_or_in_flight_def)
    have "write_settled user result (s\<lparr>reactions := ?rs\<rparr>) =
        advance_queue_if_needed user (writer s) (if ?open then ?t else ?s)"
      using Fulfilled p q(1)
      by (simp add: write_settled_def finish_in_flight_write_def settle_def Let_def update_backpressure_frame
          close_queued_or_in_flight_def get_backpressure_def get_desired_size_def)
    then show ?thesis using opened closed by simp
  qed
qed

lemma close_settled_ok:
  assumes user: "user_ok user" and wf: "wf Nothing s" and n: "n < length (reactions s)"
    and r: "closes (reactions s ! n) = 1"
  shows "yields (\<lambda>s'. wf Nothing s' \<and> (case result of Fulfilled _ \<Rightarrow> state s' = Closed | Rejected _ \<Rightarrow> later s s'))
    (close_settled user w result (s\<lparr>reactions := remove_nth n (reactions s)\<rparr>))"
proof -
  have kinds: "starts (reactions s ! n) = 0" "writes (reactions s ! n) = 0" "aborts (reactions s ! n) = 0"
    using r by (cases "reactions s ! n"; simp)+
  note owed = owing_remove_nth [OF n, of starts] owing_remove_nth [OF n, of writes]
    owing_remove_nth [OF n, of closes] owing_remove_nth [OF n, of aborts] kinds r
  obtain p where p: "in_flight_close_request s = Some p"
    using wf owed by (auto simp: wf_def core_def reactions_ok_def split: if_splits)
  have facts: "in_flight_write_request s = None" "started s" "\<not> finished (state s)"
    using wf p by (auto simp: wf_def core_def flight_ok_def has_operation_marked_in_flight_def)
  let ?rs = "remove_nth n (reactions s)"
  show ?thesis
  proof (cases result)
    case (Fulfilled v)
    let ?s = "\<lambda>ps. s\<lparr>reactions := ?rs, in_flight_close_request := None, promises := ps,
                pending_abort_request := None, state := Closed\<rparr>"
    have "wf Nothing (?s ps) \<and> state (?s ps) = Closed" for ps
      using wf p facts owed by (cases "state s")
        (auto simp: wf_def core_def ok_defs backpressure_ok_def progress_ok_def
          has_operation_marked_in_flight_def)
    moreover have "\<exists>t. close_settled user w result (s\<lparr>reactions := ?rs\<rparr>) = Some t \<and> t = ?s (promises t)"
    proof -
      have none: "pending_abort_request s = None" if "state s = Writable"
        using wf that by (simp add: wf_def core_def algorithms_ok_def)
      show ?thesis using Fulfilled p facts none
        by (cases "state s"; cases w; cases "pending_abort_request s")
           (simp_all add: close_settled_def finish_in_flight_close_def settle_def with_writer_def)
    qed
    ultimately obtain t where "close_settled user w result (s\<lparr>reactions := ?rs\<rparr>) = Some t"
      "wf Nothing t" "state t = Closed" by metis
    then show ?thesis using Fulfilled by simp
  next
    case (Rejected e)
    let ?s = "\<lambda>ps. s\<lparr>reactions := ?rs, in_flight_close_request := None, promises := ps,
                pending_abort_request := None\<rparr>"
    have "case state s of Writable \<Rightarrow> core Nothing ((?s ps)\<lparr>state := Erroring e\<rparr>)
        | Erroring _ \<Rightarrow> core Nothing (?s ps) | _ \<Rightarrow> False" for ps
      using wf p facts owed
      by (auto simp: wf_def core_def ok_defs has_operation_marked_in_flight_def split: stream_state.splits)
    then have "yields (\<lambda>s'. wf Nothing s' \<and> later (?s ps) s') (deal_with_rejection user w e (?s ps))" for ps
      using facts by (intro deal_with_rejection_ok [OF user])
        (auto simp: has_operation_marked_in_flight_def split: stream_state.splits)
    moreover have "later s (?s ps)" for ps by (simp add: later_def)
    ultimately have all: "yields (\<lambda>s'. wf Nothing s' \<and> later s s') (deal_with_rejection user w e (?s ps))" for ps
      by (rule yields_later [rotated])
    let ?u = "s\<lparr>reactions := ?rs, in_flight_close_request := None,
        promises := settle_cell (Rejected e) p (promises s)\<rparr>"
    let ?t = "case pending_abort_request s of None \<Rightarrow> ?u
        | Some r \<Rightarrow> reject e (abort_promise r) (?u\<lparr>pending_abort_request := None\<rparr>)"
    have "close_settled user w result (s\<lparr>reactions := ?rs\<rparr>) = deal_with_rejection user w e ?t"
      using Rejected p
      by (simp add: close_settled_def finish_in_flight_close_with_error_def settle_def Let_def
          split: option.splits)
    moreover have "?t = ?s (promises ?t)"
      by (cases "pending_abort_request s") (simp_all add: settle_def)
    ultimately show ?thesis using all [of "promises ?t"] Rejected by simp
  qed
qed

lemma abort_settled_ok:
  assumes wf: "wf Nothing s" and n: "n < length (reactions s)" and r: "aborts (reactions s ! n) = 1"
  shows "let s' = abort_settled p result (s\<lparr>reactions := remove_nth n (reactions s)\<rparr>)
    in wf Nothing s' \<and> later s s'"
proof -
  have kinds: "starts (reactions s ! n) = 0" "writes (reactions s ! n) = 0" "closes (reactions s ! n) = 0"
    using r by (cases "reactions s ! n"; simp)+
  note owed = owing_remove_nth [OF n, of starts] owing_remove_nth [OF n, of writes]
    owing_remove_nth [OF n, of closes] owing_remove_nth [OF n, of aborts] kinds r
  let ?rs = "remove_nth n (reactions s)"
  let ?s = "\<lambda>ps. s\<lparr>reactions := ?rs, promises := ps, close_request := None\<rparr>"
  have fin: "finished (state s)" using wf owed by (simp add: wf_def core_def reactions_ok_def)
  have "wf Nothing (?s ps) \<and> later s (?s ps)" for ps
    using wf owed fin by (auto simp: wf_def core_def ok_defs backpressure_ok_def progress_ok_def
        later_def has_operation_marked_in_flight_def)
  then show ?thesis by (cases result) (simp_all add: abort_settled_def frame)
qed

end
