(* ===== verification/Writable_Runs.thy ===== *)
theory Writable_Runs
  imports Writable_Safety
begin

text \<open>
  Runs of a writable stream: every stream a script can reach, whatever its callbacks do and in
  whatever order promises settle.
\<close>

subsection \<open>Steps keep the invariant\<close>

text \<open>The one event that makes a stream closed: the close in flight is fulfilled.\<close>

fun close_fulfilled :: "event \<Rightarrow> objects \<Rightarrow> bool" where
  "close_fulfilled (Settle n (Fulfilled v)) s = (\<exists>w a. reactions s ! n = CloseReaction w a)"
| "close_fulfilled _ s = False"

lemma run_event_ok:
  assumes "user_ok user" "wf Nothing s" "enabled e s" "plain_event e"
  shows "yields (\<lambda>s'. wf Nothing s' \<and> (if close_fulfilled e s then state s' = Closed else later s s'))
    (run_event user e s)"
proof (cases e)
  case (Invoke a)
  then have "permitted a s" using assms by (simp add: permitted_def)
  then show ?thesis using invoke_ok [OF assms(1,2)] Invoke by (simp add: split_def)
next
  case (Settle n r)
  then have n: "n < length (reactions s)" using assms(3) by simp
  show ?thesis
  proof (cases "reactions s ! n")
    case StartReaction
    then show ?thesis using start_settled_ok [OF assms(1,2) n] Settle by (cases r) simp_all
  next
    case WriteReaction
    then show ?thesis using write_settled_ok [OF assms(1,2) n] Settle by (cases r) simp_all
  next
    case (CloseReaction w a)
    then show ?thesis using close_settled_ok [OF assms(1,2) n, where w = w and result = r] Settle by (cases r) simp_all
  next
    case (AbortReaction p a)
    then show ?thesis using abort_settled_ok [OF assms(2) n, where p = p and result = r] Settle by (cases r) (simp_all add: Let_def)
  qed
qed

lemma run_event_wf:
  "user_ok user \<Longrightarrow> wf Nothing s \<Longrightarrow> enabled e s \<Longrightarrow> plain_event e \<Longrightarrow> yields (wf Nothing) (run_event user e s)"
  using run_event_ok by (fastforce elim!: yields_mono)

lemma initial_wf:
  "wf OwesStart (update_backpressure None b (initial_objects wa ca aa hwm sa))"
  if "b = get_backpressure (initial_objects wa ca aa hwm sa)"
  using that
  by (simp add: wf_simps initial_objects_def update_backpressure_def with_writer_def attachments_def)

lemma created_wf:
  assumes user: "user_ok user" and new: "new_writable_stream user sink strategy = Inr s"
  shows "wf Nothing s"
proof -
  obtain hwm u where set_up: "set_up_controller_from_underlying_sink user sink hwm
      (extract_size_algorithm strategy) = (Inr u, s)"
    using new by (auto simp: new_writable_stream_def split: if_splits sum.splits prod.splits)
  let ?i = "initial_objects (sink_algorithm (sink_write sink)) (sink_algorithm (sink_close sink))
      (sink_algorithm (sink_abort sink)) hwm (extract_size_algorithm strategy)"
  let ?s0 = "update_backpressure None (get_backpressure ?i) ?i"
  obtain v s1 where call: "call_start_algorithm user
      (if sink_start sink then StartCallback else ReturnUndefined) ?s0 = (Inr v, s1)"
    and s: "s = upon_promise (StartReaction (Inr v)) s1"
    using set_up by (auto simp: set_up_controller_from_underlying_sink_def
        set_up_default_controller_def Let_def split: sum.splits prod.splits)
  have "wf OwesStart s1"
    using call initial_wf [OF refl] user_okD [OF user]
    by (auto simp: call_start_algorithm_def split: if_splits)
  then show ?thesis by (auto simp: s upon_promise_def wf_simps)
qed

lemma reachable_wf: "reachable user s \<Longrightarrow> user_ok user \<Longrightarrow> wf Nothing s"
proof (induction rule: reachable.induct)
  case (created sink strategy s)
  then show ?case by (simp add: created_wf)
next
  case (stepped s s')
  then obtain e where "enabled e s" "plain_event e" "run_event user e s = Some s'"
    by (auto elim: stream_stepE)
  then show ?case using run_event_wf [of user s e] stepped by simp
qed

subsection \<open>Scripts are such user code\<close>

text \<open>
  A callback given as the methods it calls in turn, and its answer; the callbacks those calls lead
  to are the same script, \<open>n\<close> levels deep. Methods a script may not call are skipped.
\<close>

type_synonym script = "call \<Rightarrow> objects \<Rightarrow> api list \<times> answer"

fun perform :: "user \<Rightarrow> api list \<Rightarrow> objects \<Rightarrow> objects" where
  "perform user [] s = s"
| "perform user (a # as) s =
     perform user as
       (if enabled (Invoke a) s \<and> plain_event (Invoke a)
        then (case invoke user a s of None \<Rightarrow> s | Some (_, s') \<Rightarrow> s') else s)"

fun run_script :: "nat \<Rightarrow> script \<Rightarrow> user" where
  "run_script 0 script c s = (snd (script c s), s)"
| "run_script (Suc n) script c s =
     (snd (script c s), perform (run_script n script) (fst (script c s)) s)"

lemma perform_ok:
  "user_ok user \<Longrightarrow> wf k s \<Longrightarrow> wf k (perform user as s) \<and> later s (perform user as s)"
proof (induction as arbitrary: s)
  case (Cons a as)
  let ?s = "if enabled (Invoke a) s \<and> plain_event (Invoke a)
        then (case invoke user a s of None \<Rightarrow> s | Some (_, s') \<Rightarrow> s') else s"
  have "wf k ?s \<and> later s ?s"
    using invoke_ok [OF Cons.prems, of a] Cons.prems(2)
    by (auto simp: permitted_def split: option.splits)
  then show ?case using Cons.IH [OF Cons.prems(1), of ?s] by (auto intro: later_trans)
qed simp

lemma script_ok: "user_ok (run_script n script)"
proof (induction n)
  case 0
  then show ?case by (simp add: user_ok_def)
next
  case (Suc n)
  then show ?case using perform_ok by (simp add: user_ok_def)
qed

text \<open>A demonstration: a sink whose \<open>write\<close> callback writes once more from inside.\<close>

definition demo_user :: user where
  "demo_user = run_script 1 (\<lambda>c s.
     (case c of WriteCall chunk \<Rightarrow> if chunk = JsString ''a'' then [WriterWrite 0 (JsString ''b'')] else []
              | _ \<Rightarrow> [],
      Inr (JsObject 0)))"

definition demo_sink :: underlying_sink where
  "demo_sink = \<lparr>sink_start = False, sink_write = True, sink_close = True, sink_abort = True, sink_type = None\<rparr>"

fun run_checked :: "user \<Rightarrow> event list \<Rightarrow> objects \<Rightarrow> objects option" where
  "run_checked user [] s = Some s"
| "run_checked user (e # es) s =
     (if enabled e s \<and> plain_event e then Option.bind (run_event user e s) (run_checked user es)
      else None)"

definition demo_after :: "event list \<Rightarrow> objects option" where
  "demo_after es =
     (case new_writable_stream demo_user demo_sink None of
        Inl _ \<Rightarrow> None | Inr s \<Rightarrow> run_checked demo_user es s)"

lemma run_checked_reachable:
  "run_checked user es s = Some s' \<Longrightarrow> reachable user s \<Longrightarrow> reachable user s'"
proof (induction es arbitrary: s)
  case (Cons e es)
  then obtain s1 where "enabled e s" "plain_event e" "run_event user e s = Some s1"
    and rest: "run_checked user es s1 = Some s'"
    by (auto split: if_splits Option.bind_splits)
  then have "stream_step user s s1" by (blast intro: stream_step.step)
  then show ?case using Cons rest reachable.stepped by blast
qed simp

lemma demo_reachable: "demo_after es = Some s \<Longrightarrow> reachable demo_user s"
  by (auto simp: demo_after_def split: sum.splits intro: run_checked_reachable reachable.created)

lemma demo_user_ok: "user_ok demo_user"
  by (simp add: demo_user_def script_ok)

abbreviation done_undefined :: settlement where
  "done_undefined \<equiv> Fulfilled JsUndefined"

abbreviation demo_start :: "event list" where
  "demo_start \<equiv> [Settle 0 done_undefined, Invoke GetWriter]"

lemmas stream_eval = demo_after_def demo_user_def demo_sink_def new_writable_stream_def
  extract_high_water_mark_def extract_size_algorithm_def set_up_controller_from_underlying_sink_def
  set_up_default_controller_def sink_algorithm_def initial_objects_def update_backpressure_def
  get_backpressure_def get_desired_size_def with_writer_def call_start_algorithm_def upon_promise_def
  new_queue_def start_settled_def advance_queue_if_needed_def method_get_writer_def
  set_up_default_writer_def is_writable_stream_locked_def close_queued_or_in_flight_def
  new_promise_def resolved_with_undefined_def method_writer_write_def writer_write_def
  get_chunk_size_def call_size_algorithm_def write_sized_def add_write_request_def
  controller_write_def enqueue_value_with_size_def is_non_negative_number_def is_infinite_def
  update_writer_def process_write_def mark_first_write_request_in_flight_def call_algorithm_def
  algorithm_call_def close_sentinel_def settle_def remove_nth.simps write_settled_def
  finish_in_flight_write_def dequeue_value_def


lemmas more_stream_eval = method_stream_close_def stream_close_def controller_close_def
  process_close_def mark_close_request_in_flight_def clear_algorithms_def close_settled_def
  finish_in_flight_close_def returns_promise_def writer_closed_def is_pending_def

definition demo_stream :: objects where
  "demo_stream = (case demo_after (demo_start @ [Invoke (WriterWrite 0 (JsString ''a''))]) of
     Some s \<Rightarrow> s | None \<Rightarrow> undefined)"

lemma demo_stream:
  "demo_after (demo_start @ [Invoke (WriterWrite 0 (JsString ''a''))]) = Some demo_stream"
  "reactions demo_stream = [WriteReaction (Some 0) (Inr (JsObject 0))]"
  "state demo_stream = Writable" "close_request demo_stream = None"
  "in_flight_close_request demo_stream = None" "backpressure demo_stream"
  "length (writers demo_stream) = 1" "attached (writers demo_stream ! 0)"
  by (simp_all add: demo_stream_def stream_eval f64_small Let_def del: fadd.simps)

lemma demo_stream_reachable: "reachable demo_user demo_stream"
  by (rule demo_reachable [OF demo_stream(1)])

subsection \<open>Properties\<close>

text \<open>C4 (no panic): as long as no chunk written is the close sentinel (a registered symbol a script can
  get at, and with which it can make the runtime panic: \<open>sentinel_write_panics\<close>), and callbacks act on
  the stream through its methods only (\<open>script_ok\<close>), no method call and no reaction on a reachable
  stream runs into one of the \<open>expect\<close> and \<open>panic!\<close> of the implementation, in whatever order
  promises settle.\<close>

theorem stream_never_panics:
  assumes "user_ok user" "reachable user s" "enabled e s" "plain_event e"
  shows "run_event user e s \<noteq> None"
  using run_event_wf [OF assms(1) reachable_wf [OF assms(2,1)] assms(3,4)]
  by (auto simp: yields_def split: option.splits)

theorem stream_never_panics_witness:
  "run_event demo_user (Settle 0 (Rejected (JsObject 7))) demo_stream \<noteq> None"
  by (rule stream_never_panics [OF demo_user_ok demo_stream_reachable]) (simp_all add: demo_stream)

text \<open>C6 (one operation at a time): in a reachable stream at most one sink operation is in flight,
  and an operation is in flight exactly while one reaction to it is pending. While the stream is
  writable every queued chunk belongs to exactly one write request, in flight or waiting.\<close>

theorem one_operation_in_flight:
  assumes "user_ok user" "reachable user s"
  shows "(in_flight_write_request s = None \<or> in_flight_close_request s = None)
    \<and> owing writes (reactions s) = has (in_flight_write_request s)
    \<and> owing closes (reactions s) = has (in_flight_close_request s)
    \<and> (case state s of
         Writable \<Rightarrow> length (chunks (container s)) =
           length (write_requests s) + has (in_flight_write_request s) + has (close_request s)
       | _ \<Rightarrow> True)"
  using reachable_wf [OF assms(2,1)]
  by (auto simp: wf_def core_def queue_ok_def flight_ok_def reactions_ok_def split: stream_state.splits)

theorem one_operation_in_flight_witness:
  "owing writes (reactions demo_stream) = 1 \<and> in_flight_close_request demo_stream = None
   \<and> in_flight_write_request demo_stream \<noteq> None
   \<and> length (chunks (container demo_stream)) = length (write_requests demo_stream) + 1"
  using one_operation_in_flight [OF demo_user_ok demo_stream_reachable]
  by (auto simp: demo_stream owing_def split: if_splits)

text \<open>C5 (never stuck): when no reaction is pending, nothing is left to do: the stream is started,
  its queue is empty, no write, close or abort request waits, and it is not half way to an error.\<close>

theorem stream_never_stuck:
  assumes "user_ok user" "reachable user s" "reactions s = []"
  shows "started s \<and> chunks (container s) = [] \<and> write_requests s = [] \<and> close_request s = None
    \<and> in_flight_write_request s = None \<and> in_flight_close_request s = None
    \<and> pending_abort_request s = None
    \<and> (case state s of Writable \<Rightarrow> True | Closed \<Rightarrow> True | Errored _ \<Rightarrow> True | Erroring _ \<Rightarrow> False)"
proof -
  have wf: "wf Nothing s" using assms reachable_wf by blast
  have idle: "started s" "in_flight_write_request s = None" "in_flight_close_request s = None"
    "finished (state s) \<Longrightarrow> close_request s = None"
    using wf assms(3) by (auto simp: wf_def core_def reactions_ok_def split: if_splits)
  then show ?thesis using wf
    by (cases "state s")
       (auto simp: wf_def core_def queue_ok_def flight_ok_def algorithms_ok_def progress_ok_def
         has_operation_marked_in_flight_def split: if_splits)
qed

theorem stream_never_stuck_witness:
  "case demo_after demo_start of None \<Rightarrow> False
   | Some s \<Rightarrow> reactions s = [] \<and> started s \<and> chunks (container s) = [] \<and> pending_abort_request s = None"
proof -
  obtain s where s: "demo_after demo_start = Some s" "reactions s = []"
    by (simp add: stream_eval f64_small Let_def del: fadd.simps)
  then show ?thesis using stream_never_stuck [OF demo_user_ok demo_reachable [OF s(1)] s(2)] by simp
qed

text \<open>C7 (states): a run without writes of the close sentinel, on a stream with callbacks that act
  through its methods. An event never takes a stream out of \<open>closed\<close> or \<open>errored\<close>; an error stored
  while the stream is erroring is the one it is errored with; and a stream becomes closed in one way
  only, by the fulfilment of the close that was in flight. That event closes an erroring stream too
  and drops its error, as the standard has it; no other event does.\<close>

theorem stream_states_progress:
  assumes "user_ok user" "reachable user s" "enabled e s" "plain_event e" "run_event user e s = Some s'"
  shows "if close_fulfilled e s
    then state s' = Closed \<and> in_flight_close_request s \<noteq> None \<and> \<not> finished (state s)
    else case state s of
      Writable \<Rightarrow> state s' \<noteq> Closed
    | Erroring err \<Rightarrow> state s' = Erroring err \<or> state s' = Errored err
    | final \<Rightarrow> state s' = final"
proof (cases "close_fulfilled e s")
  case True
  then obtain n v w a where e: "e = Settle n (Fulfilled v)" "reactions s ! n = CloseReaction w a"
    by (cases "(e, s)" rule: close_fulfilled.cases) auto
  have wf: "wf Nothing s" using reachable_wf assms by blast
  have "1 \<le> owing closes (reactions s)"
    using owing_remove_nth [of n "reactions s" closes] assms(3) e by simp
  then have "in_flight_close_request s \<noteq> None" using wf by (auto simp: wf_def core_def reactions_ok_def split: if_splits)
  moreover from this have "\<not> finished (state s)"
    using wf by (auto simp: wf_def core_def flight_ok_def has_operation_marked_in_flight_def)
  ultimately show ?thesis
    using run_event_ok [OF assms(1) wf assms(3,4)] assms(5) True by (cases "state s") auto
next
  case False
  then have "later s s'"
    using run_event_ok [OF assms(1) reachable_wf [OF assms(2,1)] assms(3,4)] assms(5) by simp
  with False show ?thesis by (cases "state s") (auto simp: later_def)
qed

text \<open>C7: a write to an erroring stream.\<close>

theorem stream_states_progress_witness:
  "case demo_after (demo_start @ [Invoke (WriterWrite 0 (JsString ''a'')), Invoke (ControllerError JsUndefined)]) of
     None \<Rightarrow> False
   | Some s \<Rightarrow> (case run_event demo_user (Invoke (WriterWrite 0 (JsString ''c''))) s of
       None \<Rightarrow> False
     | Some s' \<Rightarrow> state s' = Erroring JsUndefined \<or> state s' = Errored JsUndefined)"
proof -
  let ?es = "demo_start @ [Invoke (WriterWrite 0 (JsString ''a'')), Invoke (ControllerError JsUndefined)]"
  let ?e = "Invoke (WriterWrite 0 (JsString ''c''))"
  obtain s where s: "demo_after ?es = Some s" "state s = Erroring JsUndefined" "length (writers s) = 1"
    by (simp add: stream_eval f64_small Let_def method_controller_error_def controller_error_def
        start_erroring_def ensure_ready_promise_rejected_def has_operation_marked_in_flight_def
        clear_algorithms_def is_pending_def del: fadd.simps)
  have ok: "enabled ?e s" "plain_event ?e" by (simp_all add: s close_sentinel_def)
  obtain s' where s': "run_event demo_user ?e s = Some s'"
    using run_event_wf [OF demo_user_ok reachable_wf [OF demo_reachable [OF s(1)] demo_user_ok] ok]
    by (auto simp: yields_def split: option.splits)
  from stream_states_progress [OF demo_user_ok demo_reachable [OF s(1)] ok this] show ?thesis
    by (simp only: s s' option.case stream_state.case close_fulfilled.simps if_False)
qed

text \<open>While a reachable stream is writable and no close is queued, its
  backpressure flag says whether the desired size, high water mark minus queued size, is not
  positive.\<close>

theorem backpressure_is_the_queues:
  assumes "user_ok user" "reachable user s" "state s = Writable" "\<not> close_queued_or_in_flight s"
  shows "backpressure s \<longleftrightarrow> fle (fsub (strategy_hwm s) (queue_total_size (container s))) (Fin 0)"
  using reachable_wf [OF assms(2,1)] assms(3,4)
  by (simp add: wf_def backpressure_ok_def get_backpressure_def get_desired_size_def)

theorem backpressure_is_the_queues_witness:
  "fle (fsub (strategy_hwm demo_stream) (queue_total_size (container demo_stream))) (Fin 0)"
  using backpressure_is_the_queues [OF demo_user_ok demo_stream_reachable]
  by (simp add: demo_stream close_queued_or_in_flight_def)

text \<open>At most one writer of a reachable stream is attached, and a stream hands out
  another writer exactly when none is.\<close>

theorem one_writer_attached:
  assumes "user_ok user" "reachable user s"
  shows "length (filter attached (writers s)) \<le> 1
    \<and> (fst (set_up_default_writer s) = Inr (length (writers s)) \<longleftrightarrow> filter attached (writers s) = [])"
proof -
  have lock: "i < length (writers s) \<Longrightarrow> attached (writers s ! i) \<longleftrightarrow> writer s = Some i"
    "writer s = Some i \<Longrightarrow> i < length (writers s)" for i
    using reachable_wf [OF assms(2,1)] by (auto simp: wf_def core_def lock_ok_def attachments_def)
  have "{i. i < length (writers s) \<and> attached (writers s ! i)} \<subseteq> set_option (writer s)"
    using lock by auto
  then have "card {i. i < length (writers s) \<and> attached (writers s ! i)} \<le> card (set_option (writer s))"
    by (rule card_mono [rotated]) simp
  also have "card (set_option (writer s)) \<le> 1" by (cases "writer s") auto
  finally have one: "card {i. i < length (writers s) \<and> attached (writers s ! i)} \<le> 1" .
  have none: "filter attached (writers s) = [] \<longleftrightarrow> writer s = None"
  proof (cases "writer s")
    case None
    then show ?thesis using lock by (auto simp: filter_empty_conv in_set_conv_nth)
  next
    case (Some i)
    then have "writers s ! i \<in> set (writers s)" "attached (writers s ! i)" using lock by auto
    then show ?thesis using Some by (auto simp: filter_empty_conv)
  qed
  have "fst (set_up_default_writer s) = Inr (length (writers s)) \<longleftrightarrow> writer s = None"
    by (cases "state s"; cases "backpressure s"; cases "close_queued_or_in_flight s")
       (simp_all add: set_up_default_writer_def is_writable_stream_locked_def new_promise_def Let_def)
  then show ?thesis using one none by (simp add: length_filter_conv_card)
qed

theorem one_writer_attached_witness: "length (filter attached (writers demo_stream)) \<le> 1"
  using one_writer_attached [OF demo_user_ok demo_stream_reachable] by simp

subsection \<open>Where the code departs from its intention\<close>

text \<open>The reaction to a close keeps the writer captured when the close began.
  A writer acquired while the close is in flight is never told: the stream is closed, nothing is
  pending any more, and its \<open>closed\<close> promise stays pending.\<close>

theorem closed_promise_left_pending:
  "case demo_after [Settle 0 done_undefined, Invoke StreamClose, Invoke GetWriter, Settle 0 done_undefined] of
     None \<Rightarrow> False
   | Some s \<Rightarrow> state s = Closed \<and> reactions s = [] \<and> attached (writers s ! 0)
       \<and> is_pending s (writer_closed 0 s)"
  by (simp add: stream_eval more_stream_eval f64_small Let_def del: fadd.simps)

text \<open>The close sentinel is a symbol of the global registry: a script can write it.\<close>

lemma sentinel_write_panics:
  "case demo_after demo_start of None \<Rightarrow> False
   | Some s \<Rightarrow> run_event demo_user (Invoke (WriterWrite 0 (JsSymbol ''close sentinel''))) s = None"
  by (simp add: stream_eval more_stream_eval f64_small Let_def del: fadd.simps)

text \<open>An abort listener that throws makes \<open>abort\<close> throw and leaves the stream as the listener did.\<close>

lemma abort_listener_throw:
  assumes "\<not> finished (state s)" "\<not> signal_aborted s"
    "user (SignalCall (unwrap_or_undefined reason)) (s\<lparr>signal_aborted := True\<rparr>) = (Inl e, s')"
  shows "stream_abort user w reason s = Some (Inl e, s')"
  using assms by (simp add: stream_abort_def signal_abort_def)

end
